(* ===== verification/Kfs_Prelude.thy ===== *)
theory Kfs_Prelude
  imports Main "HOL-Library.Word" "HOL-Library.Monad_Syntax"
begin

text \<open>
  The prelude of the development: the machine types of the C code, the reading of a C
  computation as a value of an option type, byte buffers with their little-endian fields,
  C strings, and the generic lemmas the component theories share.

  A C function that may stop the process is modelled by a function into \<open>'a option\<close>:
  \<open>None\<close> stands for a failed \<open>ASSERT\<close> (the build does not define \<open>NDEBUG\<close>, so the
  macro of \<open>src/logging.h\<close> aborts), a division by zero, a read or write outside an object,
  or a computation that does not return. An error return such as \<open>-ENOENT\<close> is an
  ordinary value: \<open>Inl ENOENT\<close>.
\<close>

unbundle bit_operations_syntax

section \<open>Machine types\<close>

type_synonym u8 = "8 word"
type_synonym u16 = "16 word"
type_synonym u32 = "32 word"
type_synonym u64 = "64 word"

text \<open>A C string is the list of its bytes before the terminating NUL.\<close>

type_synonym cstr = "u8 list"

datatype errno =
    EPERM | ENOENT | EIO | EACCES | EISDIR | EINVAL | ENOSPC | EMLINK | ENAMETOOLONG | ENOSYS

named_theorems buf_simps "reading a byte buffer after writing it"
named_theorems word_nat "machine arithmetic as arithmetic on natural numbers"

section \<open>Partial computations\<close>

definition ASSERT :: "bool \<Rightarrow> unit option" where
  "ASSERT b = (if b then Some () else None)"

text \<open>\<open>VALID\<close> guards an access to memory: the object must contain the accessed range.\<close>

definition VALID :: "bool \<Rightarrow> unit option" where
  "VALID b = (if b then Some () else None)"

definition cdiv :: "'a::len word \<Rightarrow> 'a word \<Rightarrow> 'a word option" where
  "cdiv a b = (if b = 0 then None else Some (a div b))"

definition cmod :: "'a::len word \<Rightarrow> 'a word \<Rightarrow> 'a word option" where
  "cmod a b = (if b = 0 then None else Some (a mod b))"

definition index :: "'a list \<Rightarrow> nat \<Rightarrow> 'a option" where
  "index xs i = (if i < length xs then Some (xs ! i) else None)"

lemma bind_ASSERT [simp]: "Option.bind (ASSERT b) f = (if b then f () else None)"
  by (simp add: ASSERT_def)

lemma bind_VALID [simp]: "Option.bind (VALID b) f = (if b then f () else None)"
  by (simp add: VALID_def)

lemma bind_cdiv [simp]: "Option.bind (cdiv a b) f = (if b = 0 then None else f (a div b))"
  by (simp add: cdiv_def)

lemma bind_cmod [simp]: "Option.bind (cmod a b) f = (if b = 0 then None else f (a mod b))"
  by (simp add: cmod_def)

lemma bind_index [simp]:
  "Option.bind (index xs i) f = (if i < length xs then f (xs ! i) else None)"
  by (simp add: index_def)

lemma index_Some [simp]: "index xs i = Some x \<longleftrightarrow> i < length xs \<and> xs ! i = x"
  by (simp add: index_def)

text \<open>A congruence rule under which the rest of a computation is simplified only after its first
  step has a value.\<close>

lemma bind_weak_cong: "m = m' \<Longrightarrow> Option.bind m f = Option.bind m' f"
  by simp

section \<open>Alignment\<close>

text \<open>The macro \<open>ALIGN_TO\<close> of \<open>src/common.h\<close>; the mask is \<open>~(align - 1)\<close>.\<close>

definition ALIGN_TO :: "'a::len word \<Rightarrow> 'a word \<Rightarrow> 'a word" where
  "ALIGN_TO n align = (if n mod align \<noteq> 0 then (n AND NOT (align - 1)) + align else n)"

section \<open>Byte buffers\<close>

text \<open>\<open>slice off n bs\<close> is the \<open>n\<close> bytes at offset \<open>off\<close>; \<open>splice off xs bs\<close> overwrites
  the bytes from \<open>off\<close> on with \<open>xs\<close>.\<close>

definition slice :: "nat \<Rightarrow> nat \<Rightarrow> 'a list \<Rightarrow> 'a list" where
  "slice off n bs = take n (drop off bs)"

definition splice :: "nat \<Rightarrow> 'a list \<Rightarrow> 'a list \<Rightarrow> 'a list" where
  "splice off xs bs = take off bs @ xs @ drop (off + length xs) bs"

lemma length_slice [simp]: "length (slice off n bs) = min n (length bs - off)"
  by (simp add: slice_def min.commute)

lemma length_splice [simp]:
  "off + length xs \<le> length bs \<Longrightarrow> length (splice off xs bs) = length bs"
  by (simp add: splice_def)

lemma nth_slice: "i < n \<Longrightarrow> off + i < length bs \<Longrightarrow> slice off n bs ! i = bs ! (off + i)"
  by (simp add: slice_def)

lemma nth_splice:
  assumes "off + length xs \<le> length bs" and "i < length bs"
  shows "splice off xs bs ! i =
    (if off \<le> i \<and> i < off + length xs then xs ! (i - off) else bs ! i)"
  using assms by (auto simp: splice_def nth_append)

lemma slice_splice_same [buf_simps]:
  "off + length xs \<le> length bs \<Longrightarrow> n = length xs \<Longrightarrow> slice off n (splice off xs bs) = xs"
  by (simp add: slice_def splice_def)

lemma slice_splice_within:
  assumes "off + length xs \<le> length bs" and "off \<le> o'" and "o' + n \<le> off + length xs"
  shows "slice o' n (splice off xs bs) = slice (o' - off) n xs"
  using assms by (intro nth_equalityI) (auto simp: nth_slice nth_splice)

lemma slice_splice_disjoint [buf_simps]:
  assumes "off + length xs \<le> length bs" and "o' + n \<le> off \<or> off + length xs \<le> o'"
  shows "slice o' n (splice off xs bs) = slice o' n bs"
  using assms by (intro nth_equalityI) (auto simp: nth_slice nth_splice)

lemma slice_all [simp]: "length bs \<le> n \<Longrightarrow> slice 0 n bs = bs"
  by (simp add: slice_def)

lemma slice_0 [simp]: "slice off 0 bs = []"
  by (simp add: slice_def)

lemma slice_slice: "m + n \<le> k \<Longrightarrow> slice m n (slice off k bs) = slice (off + m) n bs"
  by (simp add: slice_def drop_take add.commute)

lemma slice_append_skip: "length xs \<le> off \<Longrightarrow> slice off n (xs @ ys) = slice (off - length xs) n ys"
  by (simp add: slice_def)

lemma slice_append_here: "n = length xs \<Longrightarrow> slice 0 n (xs @ ys) = xs"
  by (simp add: slice_def)

lemma slice_append_left: "off + n \<le> length xs \<Longrightarrow> slice off n (xs @ ys) = slice off n xs"
  by (simp add: slice_def)

lemma slice_join: "b = a + m \<Longrightarrow> slice a m bs @ slice b n bs = slice a (m + n) bs"
  by (simp add: slice_def take_add add.commute)

lemma slice_join_assoc: "b = a + m \<Longrightarrow> slice a m bs @ slice b n bs @ r = slice a (m + n) bs @ r"
  by (simp add: slice_join flip: append_assoc)

lemma splice_slice_id: "off + n \<le> length bs \<Longrightarrow> splice off (slice off n bs) bs = bs"
  by (simp add: splice_def slice_def) (metis append_take_drop_id drop_drop add.commute)

section \<open>Little-endian fields\<close>

fun le_nat :: "u8 list \<Rightarrow> nat" where
  "le_nat [] = 0"
| "le_nat (b # bs) = unat b + 256 * le_nat bs"

fun le_bytes :: "nat \<Rightarrow> nat \<Rightarrow> u8 list" where
  "le_bytes 0 x = []"
| "le_bytes (Suc n) x = word_of_nat x # le_bytes n (x div 256)"

lemma length_le_bytes [simp]: "length (le_bytes n x) = n"
  by (induction n arbitrary: x) auto

lemma le_nat_le_bytes: "le_nat (le_bytes n x) = x mod 256 ^ n"
proof (induction n arbitrary: x)
  case 0
  then show ?case by simp
next
  case (Suc n)
  have "unat (word_of_nat x :: u8) = x mod 256"
    by (simp add: unat_of_nat)
  with Suc show ?case
    by (simp add: mod_mult2_eq)
qed

lemma le_bytes_le_nat: "le_bytes (length bs) (le_nat bs) = bs"
proof (induction bs)
  case Nil
  then show ?case by simp
next
  case (Cons b bs)
  have b: "unat b < 256" using unsigned_less [of b] by simp
  then have "(unat b + 256 * le_nat bs) div 256 = le_nat bs" by simp
  moreover have "(256 :: u8) = 0" by simp
  then have "word_of_nat (unat b + 256 * le_nat bs) = b"
    by (simp only: of_nat_add of_nat_mult of_nat_numeral) simp
  ultimately show ?case using Cons by simp
qed

lemma pow256: "(256 :: nat) ^ n = 2 ^ (8 * n)"
  by (simp add: power_mult)

lemma le_nat_bound: "le_nat bs < 256 ^ length bs"
proof -
  have "le_nat bs = le_nat (le_bytes (length bs) (le_nat bs))"
    by (simp only: le_bytes_le_nat)
  also have "\<dots> < 256 ^ length bs"
    by (simp only: le_nat_le_bytes) simp
  finally show ?thesis .
qed

text \<open>\<open>put n w\<close> is the \<open>n\<close>-byte image of \<open>w\<close>; \<open>get n bs off\<close> reads an \<open>n\<close>-byte field.\<close>

definition put :: "nat \<Rightarrow> 'a::len word \<Rightarrow> u8 list" where
  "put n w = le_bytes n (unat w)"

definition get :: "nat \<Rightarrow> u8 list \<Rightarrow> nat \<Rightarrow> 'a::len word" where
  "get n bs off = word_of_nat (le_nat (slice off n bs))"

abbreviation get8 :: "u8 list \<Rightarrow> nat \<Rightarrow> u8" where "get8 \<equiv> get 1"
abbreviation get16 :: "u8 list \<Rightarrow> nat \<Rightarrow> u16" where "get16 \<equiv> get 2"
abbreviation get32 :: "u8 list \<Rightarrow> nat \<Rightarrow> u32" where "get32 \<equiv> get 4"
abbreviation get64 :: "u8 list \<Rightarrow> nat \<Rightarrow> u64" where "get64 \<equiv> get 8"
abbreviation put8 :: "u8 \<Rightarrow> u8 list" where "put8 \<equiv> put 1"
abbreviation put16 :: "u16 \<Rightarrow> u8 list" where "put16 \<equiv> put 2"
abbreviation put32 :: "u32 \<Rightarrow> u8 list" where "put32 \<equiv> put 4"
abbreviation put64 :: "u64 \<Rightarrow> u8 list" where "put64 \<equiv> put 8"

lemma length_put [simp]: "length (put n w) = n"
  by (simp add: put_def)

lemma word_of_le_put:
  assumes "LENGTH('a) = 8 * n"
  shows "(word_of_nat (le_nat (put n (w :: 'a::len word))) :: 'a word) = w"
proof -
  have "unat w < 2 ^ LENGTH('a)" by (rule unsigned_less)
  then have "unat w mod 256 ^ n = unat w"
    using assms by (simp add: pow256)
  then show ?thesis
    by (simp add: put_def le_nat_le_bytes)
qed

lemma put_word_of_le:
  assumes "LENGTH('a) = 8 * n" and "length bs = n"
  shows "put n (word_of_nat (le_nat bs) :: 'a::len word) = bs"
proof -
  have "le_nat bs < 2 ^ LENGTH('a)"
    using le_nat_bound [of bs] assms by (simp add: pow256)
  then have "unat (word_of_nat (le_nat bs) :: 'a word) = le_nat bs"
    by (simp add: unat_of_nat)
  then show ?thesis
    using assms(2) le_bytes_le_nat [of bs] by (simp add: put_def)
qed

lemma put_get:
  assumes "LENGTH('a) = 8 * n" and "off + n \<le> length bs"
  shows "put n (get n bs off :: 'a::len word) = slice off n bs"
  using assms by (simp add: get_def put_word_of_le)

lemma put_get_width [buf_simps]:
  "off + 1 \<le> length bs \<Longrightarrow> put8 (get8 bs off) = slice off 1 bs"
  "off + 2 \<le> length bs \<Longrightarrow> put16 (get16 bs off) = slice off 2 bs"
  "off + 4 \<le> length bs \<Longrightarrow> put32 (get32 bs off) = slice off 4 bs"
  "off + 8 \<le> length bs \<Longrightarrow> put64 (get64 bs off) = slice off 8 bs"
  by (rule put_get; simp)+

text \<open>Reading a field of a concatenation of fields, the shape of an encoded struct.\<close>

lemma get_append_skip: "length xs \<le> off \<Longrightarrow> get n (xs @ ys) off = get n ys (off - length xs)"
  by (simp add: get_def slice_append_skip)

lemma get_put_append:
  "get8 (put8 b @ ys) 0 = b"
  "get16 (put16 h @ ys) 0 = h"
  "get32 (put32 w @ ys) 0 = w"
  "get64 (put64 d @ ys) 0 = d"
  by (simp_all add: get_def slice_append_here word_of_le_put del: One_nat_def)

lemma get_put:
  "get8 (put8 b) 0 = b"
  "get16 (put16 h) 0 = h"
  "get32 (put32 w) 0 = w"
  "get64 (put64 d) 0 = d"
  using get_put_append [where ys = "[]"] by simp_all

lemma get_splice_same [buf_simps]:
  "off + 1 \<le> length bs \<Longrightarrow> get8 (splice off (put8 b) bs) off = b"
  "off + 2 \<le> length bs \<Longrightarrow> get16 (splice off (put16 h) bs) off = h"
  "off + 4 \<le> length bs \<Longrightarrow> get32 (splice off (put32 w) bs) off = w"
  "off + 8 \<le> length bs \<Longrightarrow> get64 (splice off (put64 d) bs) off = d"
  by (simp_all add: get_def slice_splice_same word_of_le_put del: One_nat_def)

lemma get_splice_disjoint [buf_simps]:
  assumes "off + length xs \<le> length bs" and "o' + n \<le> off \<or> off + length xs \<le> o'"
  shows "get n (splice off xs bs) o' = get n bs o'"
  using assms by (simp add: get_def slice_splice_disjoint)

lemma get_slice: "m + n \<le> k \<Longrightarrow> get n (slice off k bs) m = get n bs (off + m)"
  by (simp add: get_def slice_slice)

section \<open>C strings\<close>

text \<open>
  \<open>strncmp_eq s t n\<close> is \<open>strncmp(s, t, n) == 0\<close> for \<open>s\<close> a pointer into a byte object
  (given by the bytes from the pointer to the object's end) and \<open>t\<close> a C string. The
  comparison stops at the first difference or at a common NUL; a read past the object is
  \<open>None\<close>.
\<close>

fun strncmp_eq :: "u8 list \<Rightarrow> cstr \<Rightarrow> nat \<Rightarrow> bool option" where
  "strncmp_eq s t 0 = Some True"
| "strncmp_eq [] t (Suc n) = None"
| "strncmp_eq (b # s) [] (Suc n) = Some (b = 0)"
| "strncmp_eq (b # s) (c # t) (Suc n) =
     (if b \<noteq> c then Some False else if b = 0 then Some True else strncmp_eq s t n)"

lemma strncmp_eq_exact:
  assumes "n \<le> length s" and "n \<le> length t" and "0 \<notin> set t"
  shows "strncmp_eq s t n = Some (take n s = take n t)"
  using assms
  by (induction s t n rule: strncmp_eq.induct) auto

text \<open>\<open>strrchr(path, '/')\<close> as the prefix before the last slash and the rest after it.\<close>

definition SLASH :: u8 where "SLASH = 47"

fun strrchr_slash :: "cstr \<Rightarrow> (cstr \<times> cstr) option" where
  "strrchr_slash [] = None"
| "strrchr_slash (c # p) =
     (case strrchr_slash p of
        Some (pre, suf) \<Rightarrow> Some (c # pre, suf)
      | None \<Rightarrow> if c = SLASH then Some ([], p) else None)"

lemma strrchr_slash_Some:
  "strrchr_slash p = Some (pre, suf) \<longleftrightarrow> p = pre @ SLASH # suf \<and> SLASH \<notin> set suf"
proof (induction p arbitrary: pre suf)
  case Nil
  then show ?case by simp
next
  case (Cons c p)
  show ?case
  proof (cases "strrchr_slash p")
    case None
    then have "SLASH \<notin> set p"
      using Cons.IH by (metis not_Some_eq split_list_last surj_pair)
    with None show ?thesis
      by (cases pre) auto
  next
    case (Some ps)
    then obtain pre' suf' where ps: "strrchr_slash p = Some (pre', suf')" by (cases ps) auto
    then have p: "p = pre' @ SLASH # suf'" "SLASH \<notin> set suf'" using Cons.IH by blast+
    show ?thesis
    proof
      assume "strrchr_slash (c # p) = Some (pre, suf)"
      with ps p show "c # p = pre @ SLASH # suf \<and> SLASH \<notin> set suf" by auto
    next
      assume *: "c # p = pre @ SLASH # suf \<and> SLASH \<notin> set suf"
      show "strrchr_slash (c # p) = Some (pre, suf)"
      proof (cases pre)
        case Nil
        with * p have False by auto
        then show ?thesis ..
      next
        case (Cons c' pre'')
        with * have "strrchr_slash p = Some (pre'', suf)" using Cons.IH by simp
        with * Cons show ?thesis by simp
      qed
    qed
  qed
qed

text \<open>A string literal of the source as bytes.\<close>

definition str :: "string \<Rightarrow> cstr" where
  "str s = map of_char s"

section \<open>Machine arithmetic without wrap-around\<close>

lemma unat_add_nowrap [word_nat]:
  "unat a + unat b < 2 ^ LENGTH('a) \<Longrightarrow> unat ((a :: 'a::len word) + b) = unat a + unat b"
  by (simp add: unat_word_ariths)

lemma unat_mult_nowrap [word_nat]:
  "unat a * unat b < 2 ^ LENGTH('a) \<Longrightarrow> unat ((a :: 'a::len word) * b) = unat a * unat b"
  by (simp add: unat_word_ariths)

lemma unat_ucast_wider [word_nat]:
  assumes "LENGTH('a) \<le> LENGTH('b)"
  shows "unat (ucast (w :: 'a::len word) :: 'b::len word) = unat w"
proof -
  have "unat w < 2 ^ LENGTH('a)" by (rule unsigned_less)
  also have "\<dots> \<le> 2 ^ LENGTH('b)" using assms by simp
  finally show ?thesis by (simp add: unsigned_ucast_eq take_bit_nat_eq_self)
qed

lemma unat_ucast_narrow: "unat x < 2 ^ 32 \<Longrightarrow> unat (ucast x :: u32) = unat x" for x :: u64
  by (simp add: unsigned_ucast_eq take_bit_nat_eq_self)

lemma unat_less_2p32: "unat (w :: u32) < 2 ^ 32"
  using unsigned_less [of w, where ?'a = nat] by simp

lemma unat_less_2p64: "unat (w :: u64) < 2 ^ 64"
  using unsigned_less [of w, where ?'a = nat] by simp

lemma not_bit_above:
  assumes "drop_bit m (w :: 'a::len word) = 0" and "m \<le> k"
  shows "\<not> bit w k"
proof -
  have "bit w k = bit (drop_bit m w) (k - m)"
    using assms(2) by (simp add: bit_drop_bit_eq)
  then show ?thesis using assms(1) by simp
qed

end
