(* ===== verification/Disk.thy ===== *)
theory Disk
  imports Kfs_Prelude
begin

text \<open>
  The disk layer, \<open>src/disk.c\<close>: positioned reads and writes on the image file. The image
  is a regular file (README, \<open>make disk\<close>): its bytes and its size. \<open>pread\<close> transfers at
  most \<open>0x7ffff000\<close> bytes and stops at the end of the file; \<open>pwrite\<close> past the end
  extends the file, with zeros in the gap; a negative \<open>off_t\<close> is refused.
  The mutexes of \<open>__disk_read\<close> and \<open>__disk_write\<close> make each call atomic, which a
  function on the state already is.
\<close>

section \<open>The image file and the system calls\<close>

record disk =
  disk_fd :: int
  d_bytes :: "nat \<Rightarrow> u8"
  d_size :: nat

definition MAX_RW_COUNT :: nat where "MAX_RW_COUNT = 0x7ffff000"

text \<open>Positions are \<open>off_t\<close>, given here by their 64 bits read as a natural number.\<close>

definition pread :: "disk \<Rightarrow> nat \<Rightarrow> nat \<Rightarrow> u8 list option" where
  "pread d sz off =
     (if off < 2 ^ 63
      then Some (map (d_bytes d) [off..<min (off + min sz MAX_RW_COUNT) (d_size d)])
      else None)"

definition pwrite :: "disk \<Rightarrow> u8 list \<Rightarrow> nat \<Rightarrow> (nat \<times> disk) option" where
  "pwrite d buf off =
     (if off < 2 ^ 63
      then let bs = take MAX_RW_COUNT buf in
        Some (length bs, d\<lparr>d_bytes := (\<lambda>i. if off \<le> i \<and> i < off + length bs then bs ! (i - off)
                                            else if i < d_size d then d_bytes d i else 0),
                           d_size := max (d_size d) (if bs = [] then 0 else off + length bs)\<rparr>)
      else None)"

section \<open>Operations\<close>

text \<open>\<open>disk_open\<close>: the result of \<open>open(path, O_RDWR)\<close> and \<open>errno\<close> are the operating
  system's, the image is the file opened.\<close>

definition disk_open :: "int \<Rightarrow> errno \<Rightarrow> disk \<Rightarrow> (errno + unit) \<times> disk" where
  "disk_open fd err d =
     (if fd < 0 then (Inl err, d\<lparr>disk_fd := fd\<rparr>) else (Inr (), d\<lparr>disk_fd := fd\<rparr>))"

text \<open>\<open>disk_size\<close>: \<open>fstat\<close> fails on a descriptor that is not open.\<close>

definition disk_size :: "disk \<Rightarrow> u64" where
  "disk_size d = (if disk_fd d < 0 then 0 else word_of_nat (d_size d))"

text \<open>The Linux build of \<open>pread_wrapper\<close> is \<open>pread\<close>.\<close>

definition pread_wrapper :: "disk \<Rightarrow> nat \<Rightarrow> nat \<Rightarrow> u8 list option" where
  "pread_wrapper d sz off = pread d sz off"

definition PREAD_BLOCK_SIZE :: nat where "PREAD_BLOCK_SIZE = 1024"

text \<open>The FreeBSD build reads whole aligned blocks: a first partial block, the middle blocks
  in one call, a last partial block. The result is the bytes stored at \<open>p\<close>.\<close>

definition pread_wrapper_freebsd :: "disk \<Rightarrow> nat \<Rightarrow> nat \<Rightarrow> u8 list option" where
  "pread_wrapper_freebsd d size0 off0 = do {
     let first_offset = off0 mod PREAD_BLOCK_SIZE;
     (p, sz, off) \<leftarrow>
       (if first_offset \<noteq> 0 then do {
          block \<leftarrow> pread d PREAD_BLOCK_SIZE (off0 - first_offset);
          ASSERT (length block = PREAD_BLOCK_SIZE);
          let first_size = min size0 (PREAD_BLOCK_SIZE - first_offset);
          Some (slice first_offset first_size block, size0 - first_size, off0 + first_size)
        } else Some ([], size0, off0));
     if first_offset \<noteq> 0 \<and> sz = 0 then Some p
     else do {
       ASSERT (off mod PREAD_BLOCK_SIZE = 0);
       let mid_read_size = sz div PREAD_BLOCK_SIZE * PREAD_BLOCK_SIZE;
       (p, sz, off) \<leftarrow>
         (if mid_read_size \<noteq> 0 then do {
            mid \<leftarrow> pread d mid_read_size off;
            ASSERT (length mid = mid_read_size);
            Some (p @ mid, sz - mid_read_size, off + mid_read_size)
          } else Some (p, sz, off));
       if mid_read_size \<noteq> 0 \<and> sz = 0 then Some p
       else do {
         ASSERT (sz < PREAD_BLOCK_SIZE);
         block \<leftarrow> pread d PREAD_BLOCK_SIZE off;
         ASSERT (length block = PREAD_BLOCK_SIZE);
         Some (p @ take sz block)
       }
     }
   }"

text \<open>\<open>__disk_read\<close> returns the number of bytes, which the final \<open>ASSERT\<close> makes equal to
  \<open>size\<close>; the model returns the bytes stored at \<open>p\<close>. A failing \<open>pread\<close> returns \<open>-1\<close>,
  which fails the same assertion.\<close>

definition disk_read :: "u64 \<Rightarrow> u64 \<Rightarrow> disk \<Rightarrow> u8 list option" where
  "disk_read off sz d = do {
     ASSERT (disk_fd d \<ge> 0);
     bs \<leftarrow> pread_wrapper d (unat sz) (unat off);
     ASSERT (length bs = unat sz);
     Some bs
   }"

definition disk_write :: "u64 \<Rightarrow> u8 list \<Rightarrow> disk \<Rightarrow> disk option" where
  "disk_write off buf d = do {
     ASSERT (disk_fd d \<ge> 0);
     (n, d') \<leftarrow> pwrite d buf (unat off);
     ASSERT (n = length buf);
     Some d'
   }"

definition disk_read_u32 :: "u64 \<Rightarrow> disk \<Rightarrow> u32 option" where
  "disk_read_u32 off d = do {
     bs \<leftarrow> disk_read off 4 d;
     Some (get32 bs 0)
   }"

subsection \<open>Disk contexts\<close>

record disk_ctx =
  ctx_cur :: u64
  ctx_size :: u64

definition disk_ctx_create :: "u64 \<Rightarrow> u64 \<Rightarrow> u32 \<Rightarrow> disk_ctx option" where
  "disk_ctx_create off sz len = do {
     ASSERT (sz \<noteq> 0);
     Some \<lparr>ctx_cur = off, ctx_size = sz * ucast len\<rparr>
   }"

definition disk_ctx_read :: "disk_ctx \<Rightarrow> u64 \<Rightarrow> disk \<Rightarrow> (u8 list \<times> disk_ctx) option" where
  "disk_ctx_read c sz d = do {
     ASSERT (ctx_size c \<noteq> 0);
     let sz = (if sz > ctx_size c then ctx_size c else sz);
     bs \<leftarrow> disk_read (ctx_cur c) sz d;
     Some (bs, c\<lparr>ctx_cur := ctx_cur c + sz, ctx_size := ctx_size c - sz\<rparr>)
   }"

section \<open>Ranges of the image\<close>

text \<open>\<open>in_disk d off n\<close>: the \<open>n\<close> bytes at \<open>off\<close> lie inside the image, and one system call
  transfers them.\<close>

definition in_disk :: "disk \<Rightarrow> nat \<Rightarrow> nat \<Rightarrow> bool" where
  "in_disk d off n \<longleftrightarrow> disk_fd d \<ge> 0 \<and> off < 2 ^ 63 \<and> n \<le> MAX_RW_COUNT \<and> off + n \<le> d_size d"

definition d_slice :: "disk \<Rightarrow> nat \<Rightarrow> nat \<Rightarrow> u8 list" where
  "d_slice d off n = map (d_bytes d) [off..<off + n]"

lemma length_d_slice [simp]: "length (d_slice d off n) = n"
  by (simp add: d_slice_def)

lemma nth_d_slice: "i < n \<Longrightarrow> d_slice d off n ! i = d_bytes d (off + i)"
  by (simp add: d_slice_def)

lemma slice_d_slice: "o' + m \<le> n \<Longrightarrow> slice o' m (d_slice d off n) = d_slice d (off + o') m"
  by (intro nth_equalityI) (auto simp: nth_slice nth_d_slice add.assoc)

lemma pread_in_disk: "in_disk d off n \<Longrightarrow> pread d n off = Some (d_slice d off n)"
  by (simp add: in_disk_def pread_def d_slice_def min_def)

lemma disk_read_in_disk:
  "in_disk d (unat off) (unat n) \<Longrightarrow> disk_read off n d = Some (d_slice d (unat off) (unat n))"
  by (simp add: disk_read_def pread_wrapper_def pread_in_disk in_disk_def)

lemma disk_read_SomeD:
  "disk_read off n d = Some bs \<Longrightarrow>
     disk_fd d \<ge> 0 \<and> unat off < 2 ^ 63 \<and> unat n \<le> MAX_RW_COUNT \<and> length bs = unat n \<and>
     bs = d_slice d (unat off) (unat n)"
  by (auto simp: disk_read_def pread_wrapper_def pread_def d_slice_def min_def
           split: if_splits)

lemma disk_write_in_disk:
  assumes "in_disk d (unat off) (length buf)"
  shows "disk_write off buf d = Some (d\<lparr>d_bytes := (\<lambda>i.
           if unat off \<le> i \<and> i < unat off + length buf then buf ! (i - unat off)
           else if i < d_size d then d_bytes d i else 0)\<rparr>)"
  using assms
  by (auto simp: disk_write_def pwrite_def in_disk_def Let_def max_def)

lemma disk_write_frame:
  assumes "disk_write off buf d = Some d'"
  shows "disk_fd d' = disk_fd d" and "d_size d \<le> d_size d'"
    and "disk_fd d \<ge> 0" and "length buf \<le> MAX_RW_COUNT" and "unat off < 2 ^ 63"
  using assms
  by (auto simp: disk_write_def pwrite_def Let_def split: if_splits)

lemma disk_write_size:
  assumes "in_disk d (unat off) (length buf)" and "disk_write off buf d = Some d'"
  shows "d_size d' = d_size d"
  using assms by (auto simp: disk_write_in_disk)

lemma disk_write_bytes:
  assumes "disk_write off buf d = Some d'" and "i < d_size d"
  shows "d_bytes d' i =
    (if unat off \<le> i \<and> i < unat off + length buf then buf ! (i - unat off) else d_bytes d i)"
  using assms
  by (auto simp: disk_write_def pwrite_def Let_def split: if_splits)

lemma d_slice_write_same:
  assumes "disk_write off buf d = Some d'"
  shows "d_slice d' (unat off) (length buf) = buf"
  using assms
  by (intro nth_equalityI)
     (auto simp: nth_d_slice disk_write_def pwrite_def Let_def split: if_splits)

lemma d_slice_write_disjoint:
  assumes "disk_write off buf d = Some d'" and "o' + n \<le> d_size d"
    and "o' + n \<le> unat off \<or> unat off + length buf \<le> o'"
  shows "d_slice d' o' n = d_slice d o' n"
  using assms
  by (intro nth_equalityI) (auto simp: nth_d_slice disk_write_bytes)

lemma in_disk_write:
  assumes "disk_write off buf d = Some d'" and "in_disk d o' n"
  shows "in_disk d' o' n"
  using assms disk_write_frame [OF assms(1)] by (auto simp: in_disk_def)

end
