(* ===== verification/Codec.thy ===== *)
theory Codec
  imports Kfs_Prelude
begin

text \<open>
  The contract of an on-disk structure: a record and its byte image of fixed width
  determine each other. The structures of the ext4 headers provide it; the layers that
  copy structures to and from the disk rely on it.
\<close>

locale codec =
  fixes enc :: "'r \<Rightarrow> u8 list"
    and dec :: "u8 list \<Rightarrow> 'r"
    and wf :: "'r \<Rightarrow> bool"
    and width :: nat
  assumes length_enc: "wf r \<Longrightarrow> length (enc r) = width"
    and enc_dec: "length bs = width \<Longrightarrow> enc (dec bs) = bs"
    and dec_enc: "wf r \<Longrightarrow> dec (enc r) = r"
    and wf_dec: "length bs = width \<Longrightarrow> wf (dec bs)"
begin

lemma enc_eq_iff: "wf r \<Longrightarrow> wf r' \<Longrightarrow> enc r = enc r' \<longleftrightarrow> r = r'"
  by (metis dec_enc)

lemma dec_eq_iff: "length bs = width \<Longrightarrow> length bs' = width \<Longrightarrow> dec bs = dec bs' \<longleftrightarrow> bs = bs'"
  by (metis enc_dec)

lemma wf_obtain: "wf r \<Longrightarrow> \<exists>bs. length bs = width \<and> dec bs = r"
  using length_enc dec_enc by blast

end

text \<open>The rewrite rules that read a field of an encoded structure.\<close>

lemmas field_simps_codec =
  get_append_skip get_put_append get_put slice_append_skip slice_append_here slice_append_left

end
