(* ===== verification/Ext4_Super.thy ===== *)
theory Ext4_Super
  imports Codec
begin

text \<open>
  The on-disk structures of \<open>src/ext4/ext4_super.h\<close> with the accessor macros of
  \<open>src/ext4/ext4.h\<close> and \<open>src/ext4/ext4_super.h\<close>: the super block (1024 bytes) and the
  group descriptor (64 bytes). Each struct is a record with the source's fields; arrays are
  kept as their bytes. \<open>enc_*\<close> lays a record out at the compiler's offsets and \<open>dec_*\<close>
  reads it back; both are the memory images that \<open>disk_write\<close> and \<open>disk_read\<close> copy on a
  little-endian machine.
\<close>

section \<open>Super block\<close>

record ext4_super_block =
  s_inodes_count :: u32
  s_blocks_count_lo :: u32
  s_r_blocks_count_lo :: u32
  s_free_blocks_count_lo :: u32
  s_free_inodes_count :: u32
  s_first_data_block :: u32
  s_log_block_size :: u32
  s_obso_log_frag_size :: u32
  s_blocks_per_group :: u32
  s_obso_frags_per_group :: u32
  s_inodes_per_group :: u32
  s_mtime :: u32
  s_wtime :: u32
  s_mnt_count :: u16
  s_max_mnt_count :: u16
  s_magic :: u16
  s_state :: u16
  s_errors :: u16
  s_minor_rev_level :: u16
  s_lastcheck :: u32
  s_checkinterval :: u32
  s_creator_os :: u32
  s_rev_level :: u32
  s_def_resuid :: u16
  s_def_resgid :: u16
  s_first_ino :: u32
  s_inode_size :: u16
  s_block_group_nr :: u16
  s_feature_compat :: u32
  s_feature_incompat :: u32
  s_feature_ro_compat :: u32
  s_uuid :: "u8 list"
  s_volume_name :: "u8 list"
  s_last_mounted :: "u8 list"
  s_algorithm_usage_bitmap :: u32
  s_prealloc_blocks :: u8
  s_prealloc_dir_blocks :: u8
  s_reserved_gdt_blocks :: u16
  s_journal_uuid :: "u8 list"
  s_journal_inum :: u32
  s_journal_dev :: u32
  s_last_orphan :: u32
  s_hash_seed :: "u8 list"
  s_def_hash_version :: u8
  s_reserved_char_pad :: u8
  s_desc_size :: u16
  s_default_mount_opts :: u32
  s_first_meta_bg :: u32
  s_mkfs_time :: u32
  s_jnl_blocks :: "u8 list"
  s_blocks_count_hi :: u32
  s_r_blocks_count_hi :: u32
  s_free_blocks_count_hi :: u32
  s_min_extra_isize :: u16
  s_want_extra_isize :: u16
  s_flags :: u32
  s_raid_stride :: u16
  s_mmp_interval :: u16
  s_mmp_block :: u64
  s_raid_stripe_width :: u32
  s_log_groups_per_flex :: u8
  s_reserved_char_pad2 :: u8
  s_reserved_pad :: u16
  s_kbytes_written :: u64
  s_reserved :: "u8 list"

definition enc_super_block :: "ext4_super_block \<Rightarrow> u8 list" where
  "enc_super_block r =
     put32 (s_inodes_count r) @ put32 (s_blocks_count_lo r) @
     put32 (s_r_blocks_count_lo r) @ put32 (s_free_blocks_count_lo r) @
     put32 (s_free_inodes_count r) @ put32 (s_first_data_block r) @
     put32 (s_log_block_size r) @ put32 (s_obso_log_frag_size r) @
     put32 (s_blocks_per_group r) @ put32 (s_obso_frags_per_group r) @
     put32 (s_inodes_per_group r) @ put32 (s_mtime r) @ put32 (s_wtime r) @
     put16 (s_mnt_count r) @ put16 (s_max_mnt_count r) @ put16 (s_magic r) @
     put16 (s_state r) @ put16 (s_errors r) @ put16 (s_minor_rev_level r) @
     put32 (s_lastcheck r) @ put32 (s_checkinterval r) @ put32 (s_creator_os r) @
     put32 (s_rev_level r) @ put16 (s_def_resuid r) @ put16 (s_def_resgid r) @
     put32 (s_first_ino r) @ put16 (s_inode_size r) @ put16 (s_block_group_nr r) @
     put32 (s_feature_compat r) @ put32 (s_feature_incompat r) @
     put32 (s_feature_ro_compat r) @ s_uuid r @ s_volume_name r @ s_last_mounted r @
     put32 (s_algorithm_usage_bitmap r) @ put8 (s_prealloc_blocks r) @
     put8 (s_prealloc_dir_blocks r) @ put16 (s_reserved_gdt_blocks r) @ s_journal_uuid r @
     put32 (s_journal_inum r) @ put32 (s_journal_dev r) @ put32 (s_last_orphan r) @
     s_hash_seed r @ put8 (s_def_hash_version r) @ put8 (s_reserved_char_pad r) @
     put16 (s_desc_size r) @ put32 (s_default_mount_opts r) @ put32 (s_first_meta_bg r) @
     put32 (s_mkfs_time r) @ s_jnl_blocks r @ put32 (s_blocks_count_hi r) @
     put32 (s_r_blocks_count_hi r) @ put32 (s_free_blocks_count_hi r) @
     put16 (s_min_extra_isize r) @ put16 (s_want_extra_isize r) @ put32 (s_flags r) @
     put16 (s_raid_stride r) @ put16 (s_mmp_interval r) @ put64 (s_mmp_block r) @
     put32 (s_raid_stripe_width r) @ put8 (s_log_groups_per_flex r) @
     put8 (s_reserved_char_pad2 r) @ put16 (s_reserved_pad r) @
     put64 (s_kbytes_written r) @ s_reserved r"

definition dec_super_block :: "u8 list \<Rightarrow> ext4_super_block" where
  "dec_super_block bs = \<lparr>
     s_inodes_count = get32 bs 0, s_blocks_count_lo = get32 bs 4,
     s_r_blocks_count_lo = get32 bs 8, s_free_blocks_count_lo = get32 bs 12,
     s_free_inodes_count = get32 bs 16, s_first_data_block = get32 bs 20,
     s_log_block_size = get32 bs 24, s_obso_log_frag_size = get32 bs 28,
     s_blocks_per_group = get32 bs 32, s_obso_frags_per_group = get32 bs 36,
     s_inodes_per_group = get32 bs 40, s_mtime = get32 bs 44, s_wtime = get32 bs 48,
     s_mnt_count = get16 bs 52, s_max_mnt_count = get16 bs 54, s_magic = get16 bs 56,
     s_state = get16 bs 58, s_errors = get16 bs 60, s_minor_rev_level = get16 bs 62,
     s_lastcheck = get32 bs 64, s_checkinterval = get32 bs 68, s_creator_os = get32 bs 72,
     s_rev_level = get32 bs 76, s_def_resuid = get16 bs 80, s_def_resgid = get16 bs 82,
     s_first_ino = get32 bs 84, s_inode_size = get16 bs 88,
     s_block_group_nr = get16 bs 90, s_feature_compat = get32 bs 92,
     s_feature_incompat = get32 bs 96, s_feature_ro_compat = get32 bs 100,
     s_uuid = slice 104 16 bs, s_volume_name = slice 120 16 bs,
     s_last_mounted = slice 136 64 bs, s_algorithm_usage_bitmap = get32 bs 200,
     s_prealloc_blocks = get8 bs 204, s_prealloc_dir_blocks = get8 bs 205,
     s_reserved_gdt_blocks = get16 bs 206, s_journal_uuid = slice 208 16 bs,
     s_journal_inum = get32 bs 224, s_journal_dev = get32 bs 228,
     s_last_orphan = get32 bs 232, s_hash_seed = slice 236 16 bs,
     s_def_hash_version = get8 bs 252, s_reserved_char_pad = get8 bs 253,
     s_desc_size = get16 bs 254, s_default_mount_opts = get32 bs 256,
     s_first_meta_bg = get32 bs 260, s_mkfs_time = get32 bs 264,
     s_jnl_blocks = slice 268 68 bs, s_blocks_count_hi = get32 bs 336,
     s_r_blocks_count_hi = get32 bs 340, s_free_blocks_count_hi = get32 bs 344,
     s_min_extra_isize = get16 bs 348, s_want_extra_isize = get16 bs 350,
     s_flags = get32 bs 352, s_raid_stride = get16 bs 356, s_mmp_interval = get16 bs 358,
     s_mmp_block = get64 bs 360, s_raid_stripe_width = get32 bs 368,
     s_log_groups_per_flex = get8 bs 372, s_reserved_char_pad2 = get8 bs 373,
     s_reserved_pad = get16 bs 374, s_kbytes_written = get64 bs 376,
     s_reserved = slice 384 640 bs\<rparr>"

definition wf_super_block :: "ext4_super_block \<Rightarrow> bool" where
  "wf_super_block r \<longleftrightarrow> length (s_uuid r) = 16 \<and>
     length (s_volume_name r) = 16 \<and>
     length (s_last_mounted r) = 64 \<and>
     length (s_journal_uuid r) = 16 \<and>
     length (s_hash_seed r) = 16 \<and>
     length (s_jnl_blocks r) = 68 \<and>
     length (s_reserved r) = 640"

lemma length_enc_super_block: "wf_super_block r \<Longrightarrow> length (enc_super_block r) = 1024"
  by (simp add: enc_super_block_def wf_super_block_def)

lemma enc_dec_super_block: "length bs = 1024 \<Longrightarrow> enc_super_block (dec_super_block bs) = bs"
  by (simp add: enc_super_block_def dec_super_block_def put_get_width slice_join_assoc slice_join
      del: One_nat_def)

lemma dec_enc_super_block: "wf_super_block r \<Longrightarrow> dec_super_block (enc_super_block r) = r"
  by (simp add: enc_super_block_def dec_super_block_def wf_super_block_def field_simps_codec
      del: One_nat_def)

lemma wf_dec_super_block: "length bs = 1024 \<Longrightarrow> wf_super_block (dec_super_block bs)"
  by (simp add: dec_super_block_def wf_super_block_def)

interpretation sb_codec: codec enc_super_block dec_super_block wf_super_block 1024
  by unfold_locales
     (simp_all add: length_enc_super_block enc_dec_super_block dec_enc_super_block wf_dec_super_block)

section \<open>Group descriptor\<close>

record ext4_group_desc =
  bg_block_bitmap_lo :: u32
  bg_inode_bitmap_lo :: u32
  bg_inode_table_lo :: u32
  bg_free_blocks_count_lo :: u16
  bg_free_inodes_count_lo :: u16
  bg_used_dirs_count_lo :: u16
  bg_flags :: u16
  bg_reserved :: "u8 list"
  bg_itable_unused_lo :: u16
  bg_checksum :: u16
  bg_block_bitmap_hi :: u32
  bg_inode_bitmap_hi :: u32
  bg_inode_table_hi :: u32
  bg_free_blocks_count_hi :: u16
  bg_free_inodes_count_hi :: u16
  bg_used_dirs_count_hi :: u16
  bg_itable_unused_hi :: u16
  bg_reserved2 :: "u8 list"

definition enc_group_desc :: "ext4_group_desc \<Rightarrow> u8 list" where
  "enc_group_desc r =
     put32 (bg_block_bitmap_lo r) @ put32 (bg_inode_bitmap_lo r) @
     put32 (bg_inode_table_lo r) @ put16 (bg_free_blocks_count_lo r) @
     put16 (bg_free_inodes_count_lo r) @ put16 (bg_used_dirs_count_lo r) @
     put16 (bg_flags r) @ bg_reserved r @ put16 (bg_itable_unused_lo r) @
     put16 (bg_checksum r) @ put32 (bg_block_bitmap_hi r) @ put32 (bg_inode_bitmap_hi r) @
     put32 (bg_inode_table_hi r) @ put16 (bg_free_blocks_count_hi r) @
     put16 (bg_free_inodes_count_hi r) @ put16 (bg_used_dirs_count_hi r) @
     put16 (bg_itable_unused_hi r) @ bg_reserved2 r"

definition dec_group_desc :: "u8 list \<Rightarrow> ext4_group_desc" where
  "dec_group_desc bs = \<lparr>
     bg_block_bitmap_lo = get32 bs 0, bg_inode_bitmap_lo = get32 bs 4,
     bg_inode_table_lo = get32 bs 8, bg_free_blocks_count_lo = get16 bs 12,
     bg_free_inodes_count_lo = get16 bs 14, bg_used_dirs_count_lo = get16 bs 16,
     bg_flags = get16 bs 18, bg_reserved = slice 20 8 bs,
     bg_itable_unused_lo = get16 bs 28, bg_checksum = get16 bs 30,
     bg_block_bitmap_hi = get32 bs 32, bg_inode_bitmap_hi = get32 bs 36,
     bg_inode_table_hi = get32 bs 40, bg_free_blocks_count_hi = get16 bs 44,
     bg_free_inodes_count_hi = get16 bs 46, bg_used_dirs_count_hi = get16 bs 48,
     bg_itable_unused_hi = get16 bs 50, bg_reserved2 = slice 52 12 bs\<rparr>"

definition wf_group_desc :: "ext4_group_desc \<Rightarrow> bool" where
  "wf_group_desc r \<longleftrightarrow> length (bg_reserved r) = 8 \<and>
     length (bg_reserved2 r) = 12"

lemma length_enc_group_desc: "wf_group_desc r \<Longrightarrow> length (enc_group_desc r) = 64"
  by (simp add: enc_group_desc_def wf_group_desc_def)

lemma enc_dec_group_desc: "length bs = 64 \<Longrightarrow> enc_group_desc (dec_group_desc bs) = bs"
  by (simp add: enc_group_desc_def dec_group_desc_def put_get_width slice_join_assoc slice_join
      del: One_nat_def)

lemma dec_enc_group_desc: "wf_group_desc r \<Longrightarrow> dec_group_desc (enc_group_desc r) = r"
  by (simp add: enc_group_desc_def dec_group_desc_def wf_group_desc_def field_simps_codec
      del: One_nat_def)

lemma wf_dec_group_desc: "length bs = 64 \<Longrightarrow> wf_group_desc (dec_group_desc bs)"
  by (simp add: dec_group_desc_def wf_group_desc_def)

interpretation gd_codec: codec enc_group_desc dec_group_desc wf_group_desc 64
  by unfold_locales
     (simp_all add: length_enc_group_desc enc_dec_group_desc dec_enc_group_desc wf_dec_group_desc)

section \<open>Geometry macros\<close>

text \<open>\<open>EXT4_BLOCK_SIZE\<close> shifts by \<open>s_log_block_size + 10\<close>; a count of 64 or more, which C
  leaves undefined, gives 0 here.\<close>

definition EXT4_BLOCK_SIZE :: "ext4_super_block \<Rightarrow> u64" where
  "EXT4_BLOCK_SIZE sb = push_bit (unat (s_log_block_size sb + 10)) 1"

definition BLOCKS2BYTES :: "ext4_super_block \<Rightarrow> u64 \<Rightarrow> u64" where
  "BLOCKS2BYTES sb blks = blks * EXT4_BLOCK_SIZE sb"

definition BYTES2BLOCKS :: "ext4_super_block \<Rightarrow> u64 \<Rightarrow> u64" where
  "BYTES2BLOCKS sb b =
     b div EXT4_BLOCK_SIZE sb + (if b mod EXT4_BLOCK_SIZE sb \<noteq> 0 then 1 else 0)"

definition ALIGN_TO_BLOCKSIZE :: "ext4_super_block \<Rightarrow> u64 \<Rightarrow> u64" where
  "ALIGN_TO_BLOCKSIZE sb n = ALIGN_TO n (EXT4_BLOCK_SIZE sb)"

definition EXT4_BLOCK_COUNT :: "ext4_super_block \<Rightarrow> u64" where
  "EXT4_BLOCK_COUNT sb = push_bit 32 (ucast (s_blocks_count_hi sb)) OR ucast (s_blocks_count_lo sb)"

definition EXT4_N_BLOCK_GROUPS :: "ext4_super_block \<Rightarrow> u64 option" where
  "EXT4_N_BLOCK_GROUPS sb =
     cdiv (EXT4_BLOCK_COUNT sb + ucast (s_blocks_per_group sb) - 1) (ucast (s_blocks_per_group sb))"

definition BOOT_SECTOR_SIZE :: u64 where "BOOT_SECTOR_SIZE = 0x400"
definition EXT4_S_MAGIC :: u16 where "EXT4_S_MAGIC = 0xEF53"
definition SIZEOF_SUPER_BLOCK :: u64 where "SIZEOF_SUPER_BLOCK = 1024"
definition EXT4_ROOT_INO :: u32 where "EXT4_ROOT_INO = 2"
definition EXT4_KFSCTL_INO :: u32 where "EXT4_KFSCTL_INO = 3"

section \<open>Group descriptor macros\<close>

definition EXT4_DESC_INO_BITMAP :: "ext4_group_desc \<Rightarrow> u64" where
  "EXT4_DESC_INO_BITMAP g = push_bit 32 (ucast (bg_inode_bitmap_hi g)) OR ucast (bg_inode_bitmap_lo g)"

definition EXT4_DESC_BLOCK_BITMAP :: "ext4_group_desc \<Rightarrow> u64" where
  "EXT4_DESC_BLOCK_BITMAP g = push_bit 32 (ucast (bg_block_bitmap_hi g)) OR ucast (bg_block_bitmap_lo g)"

definition EXT4_DESC_INODE_TABLE :: "ext4_group_desc \<Rightarrow> u64" where
  "EXT4_DESC_INODE_TABLE g = push_bit 32 (ucast (bg_inode_table_hi g)) OR ucast (bg_inode_table_lo g)"

definition EXT4_GDT_FREE_BLOCKS :: "ext4_group_desc \<Rightarrow> u32" where
  "EXT4_GDT_FREE_BLOCKS g = ucast (bg_free_blocks_count_lo g) OR push_bit 16 (ucast (bg_free_blocks_count_hi g))"

definition EXT4_GDT_FREE_INODES :: "ext4_group_desc \<Rightarrow> u32" where
  "EXT4_GDT_FREE_INODES g = ucast (bg_free_inodes_count_lo g) OR push_bit 16 (ucast (bg_free_inodes_count_hi g))"

definition EXT4_GDT_USED_DIRS :: "ext4_group_desc \<Rightarrow> u32" where
  "EXT4_GDT_USED_DIRS g = ucast (bg_used_dirs_count_lo g) OR push_bit 16 (ucast (bg_used_dirs_count_hi g))"

definition EXT4_GDT_ITABLE_UNUSED :: "ext4_group_desc \<Rightarrow> u32" where
  "EXT4_GDT_ITABLE_UNUSED g = ucast (bg_itable_unused_lo g) OR push_bit 16 (ucast (bg_itable_unused_hi g))"

definition EXT4_GDT_MAX_USED_DIRS :: u32 where "EXT4_GDT_MAX_USED_DIRS = 0xffffffff"

text \<open>\<open>bg_reserved2[0]\<close> holds the clean (0) or dirty (1) flag of the cached descriptor.\<close>

definition EXT4_GDT_DIRTY_FLAG :: "ext4_group_desc \<Rightarrow> u32" where
  "EXT4_GDT_DIRTY_FLAG g = get32 (bg_reserved2 g) 0"

definition EXT4_GDT_SET_CLEAN :: "ext4_group_desc \<Rightarrow> ext4_group_desc" where
  "EXT4_GDT_SET_CLEAN g = g\<lparr>bg_reserved2 := splice 0 (put32 0) (bg_reserved2 g)\<rparr>"

definition EXT4_GDT_SET_DIRTY :: "ext4_group_desc \<Rightarrow> ext4_group_desc" where
  "EXT4_GDT_SET_DIRTY g = g\<lparr>bg_reserved2 := splice 0 (put32 1) (bg_reserved2 g)\<rparr>"

text \<open>A value split into a low and a high half and put together again is the value.\<close>

lemma join_halves_64: "push_bit 32 (ucast (ucast (drop_bit 32 (w :: u64)) :: u32)) OR ucast (ucast w :: u32) = w"
  by (rule bit_word_eqI) (auto simp: bit_simps)

lemma join_halves_32: "ucast (ucast (w :: u32) :: u16) OR push_bit 16 (ucast (ucast (drop_bit 16 w) :: u16)) = w"
  by (rule bit_word_eqI) (auto simp: bit_simps)

lemma wf_GDT_SET [simp]:
  "wf_group_desc g \<Longrightarrow> wf_group_desc (EXT4_GDT_SET_CLEAN g)"
  "wf_group_desc g \<Longrightarrow> wf_group_desc (EXT4_GDT_SET_DIRTY g)"
  by (simp_all add: wf_group_desc_def EXT4_GDT_SET_CLEAN_def EXT4_GDT_SET_DIRTY_def)

lemma GDT_DIRTY_FLAG_SET [simp]:
  "wf_group_desc g \<Longrightarrow> EXT4_GDT_DIRTY_FLAG (EXT4_GDT_SET_CLEAN g) = 0"
  "wf_group_desc g \<Longrightarrow> EXT4_GDT_DIRTY_FLAG (EXT4_GDT_SET_DIRTY g) = 1"
  by (simp_all add: wf_group_desc_def EXT4_GDT_SET_CLEAN_def EXT4_GDT_SET_DIRTY_def
      EXT4_GDT_DIRTY_FLAG_def get_splice_same)

end
