(* ===== verification/Ext4_Inode.thy ===== *)
theory Ext4_Inode
  imports Codec
begin

text \<open>
  The on-disk inode of \<open>src/ext4/ext4_inode.h\<close> (160 bytes, the \<open>linux1\<close> and \<open>linux2\<close>
  members of its unions), the extent structures of \<open>src/ext4/ext4_extents.h\<close>, the constants
  of \<open>src/ext4/ext4_dentry.h\<close>, and their accessor macros. \<open>i_block\<close> is kept as its 60 bytes:
  the code reads it as fifteen block numbers, as an extent header with extents, or as the
  text of a short symbolic link.
\<close>

section \<open>Inode\<close>

record ext4_inode =
  i_mode :: u16
  i_uid :: u16
  i_size_lo :: u32
  i_atime :: u32
  i_ctime :: u32
  i_mtime :: u32
  i_dtime :: u32
  i_gid :: u16
  i_links_count :: u16
  i_blocks_lo :: u32
  i_flags :: u32
  l_i_version :: u32
  i_block :: "u8 list"
  i_generation :: u32
  i_file_acl_lo :: u32
  i_size_high :: u32
  i_obso_faddr :: u32
  l_i_blocks_high :: u16
  l_i_file_acl_high :: u16
  l_i_uid_high :: u16
  l_i_gid_high :: u16
  l_i_checksum_lo :: u16
  l_i_reserved :: u16
  i_extra_isize :: u16
  i_checksum_hi :: u16
  i_ctime_extra :: u32
  i_mtime_extra :: u32
  i_atime_extra :: u32
  i_crtime :: u32
  i_crtime_extra :: u32
  i_version_hi :: u32
  i_projid :: u32

definition enc_inode :: "ext4_inode \<Rightarrow> u8 list" where
  "enc_inode r =
     put16 (i_mode r) @ put16 (i_uid r) @ put32 (i_size_lo r) @ put32 (i_atime r) @
     put32 (i_ctime r) @ put32 (i_mtime r) @ put32 (i_dtime r) @ put16 (i_gid r) @
     put16 (i_links_count r) @ put32 (i_blocks_lo r) @ put32 (i_flags r) @
     put32 (l_i_version r) @ i_block r @ put32 (i_generation r) @ put32 (i_file_acl_lo r) @
     put32 (i_size_high r) @ put32 (i_obso_faddr r) @ put16 (l_i_blocks_high r) @
     put16 (l_i_file_acl_high r) @ put16 (l_i_uid_high r) @ put16 (l_i_gid_high r) @
     put16 (l_i_checksum_lo r) @ put16 (l_i_reserved r) @ put16 (i_extra_isize r) @
     put16 (i_checksum_hi r) @ put32 (i_ctime_extra r) @ put32 (i_mtime_extra r) @
     put32 (i_atime_extra r) @ put32 (i_crtime r) @ put32 (i_crtime_extra r) @
     put32 (i_version_hi r) @ put32 (i_projid r)"

definition dec_inode :: "u8 list \<Rightarrow> ext4_inode" where
  "dec_inode bs = \<lparr>
     i_mode = get16 bs 0, i_uid = get16 bs 2, i_size_lo = get32 bs 4,
     i_atime = get32 bs 8, i_ctime = get32 bs 12, i_mtime = get32 bs 16,
     i_dtime = get32 bs 20, i_gid = get16 bs 24, i_links_count = get16 bs 26,
     i_blocks_lo = get32 bs 28, i_flags = get32 bs 32, l_i_version = get32 bs 36,
     i_block = slice 40 60 bs, i_generation = get32 bs 100, i_file_acl_lo = get32 bs 104,
     i_size_high = get32 bs 108, i_obso_faddr = get32 bs 112,
     l_i_blocks_high = get16 bs 116, l_i_file_acl_high = get16 bs 118,
     l_i_uid_high = get16 bs 120, l_i_gid_high = get16 bs 122,
     l_i_checksum_lo = get16 bs 124, l_i_reserved = get16 bs 126,
     i_extra_isize = get16 bs 128, i_checksum_hi = get16 bs 130,
     i_ctime_extra = get32 bs 132, i_mtime_extra = get32 bs 136,
     i_atime_extra = get32 bs 140, i_crtime = get32 bs 144, i_crtime_extra = get32 bs 148,
     i_version_hi = get32 bs 152, i_projid = get32 bs 156\<rparr>"

definition wf_inode :: "ext4_inode \<Rightarrow> bool" where
  "wf_inode r \<longleftrightarrow> length (i_block r) = 60"

lemma length_enc_inode: "wf_inode r \<Longrightarrow> length (enc_inode r) = 160"
  by (simp add: enc_inode_def wf_inode_def)

lemma enc_dec_inode: "length bs = 160 \<Longrightarrow> enc_inode (dec_inode bs) = bs"
  by (simp add: enc_inode_def dec_inode_def put_get_width slice_join_assoc slice_join
      del: One_nat_def)

lemma dec_enc_inode: "wf_inode r \<Longrightarrow> dec_inode (enc_inode r) = r"
  by (simp add: enc_inode_def dec_inode_def wf_inode_def field_simps_codec del: One_nat_def)

lemma wf_dec_inode: "length bs = 160 \<Longrightarrow> wf_inode (dec_inode bs)"
  by (simp add: dec_inode_def wf_inode_def)

interpretation inode_codec: codec enc_inode dec_inode wf_inode 160
  by unfold_locales (simp_all add: length_enc_inode enc_dec_inode dec_enc_inode wf_dec_inode)

definition SIZEOF_INODE :: u64 where "SIZEOF_INODE = 160"
definition SIZEOF_I_BLOCK :: nat where "SIZEOF_I_BLOCK = 60"
definition EXT4_NDIR_BLOCKS :: u32 where "EXT4_NDIR_BLOCKS = 12"
definition EXT4_IND_BLOCK :: u32 where "EXT4_IND_BLOCK = 12"
definition EXT4_DIND_BLOCK :: u32 where "EXT4_DIND_BLOCK = 13"
definition EXT4_TIND_BLOCK :: u32 where "EXT4_TIND_BLOCK = 14"
definition EXT4_EXTENTS_FL :: u32 where "EXT4_EXTENTS_FL = 0x00080000"
definition EXT4_HUGE_FILE_FL :: u32 where "EXT4_HUGE_FILE_FL = 0x00040000"
definition EXT4_INODE_PBLOCK_NUM :: u32 where "EXT4_INODE_PBLOCK_NUM = 4"

subsection \<open>Accessor macros\<close>

definition EXT4_INODE_GET_UID :: "ext4_inode \<Rightarrow> u32" where
  "EXT4_INODE_GET_UID i = ucast (i_uid i) OR push_bit 16 (ucast (l_i_uid_high i))"

definition EXT4_INODE_GET_GID :: "ext4_inode \<Rightarrow> u32" where
  "EXT4_INODE_GET_GID i = ucast (i_gid i) OR push_bit 16 (ucast (l_i_gid_high i))"

definition EXT4_INODE_SET_UID :: "u32 \<Rightarrow> ext4_inode \<Rightarrow> ext4_inode" where
  "EXT4_INODE_SET_UID uid i = i\<lparr>i_uid := ucast uid, l_i_uid_high := ucast (drop_bit 16 uid)\<rparr>"

definition EXT4_INODE_SET_GID :: "u32 \<Rightarrow> ext4_inode \<Rightarrow> ext4_inode" where
  "EXT4_INODE_SET_GID gid i = i\<lparr>i_gid := ucast gid, l_i_gid_high := ucast (drop_bit 16 gid)\<rparr>"

definition EXT4_INODE_GET_SIZE :: "ext4_inode \<Rightarrow> u64" where
  "EXT4_INODE_GET_SIZE i = push_bit 32 (ucast (i_size_high i)) OR ucast (i_size_lo i)"

definition EXT4_INODE_SET_SIZE :: "u64 \<Rightarrow> ext4_inode \<Rightarrow> ext4_inode" where
  "EXT4_INODE_SET_SIZE sz i = i\<lparr>i_size_lo := ucast sz, i_size_high := ucast (drop_bit 32 sz)\<rparr>"

definition EXT4_INODE_GET_BLOCKS :: "ext4_inode \<Rightarrow> u64" where
  "EXT4_INODE_GET_BLOCKS i = push_bit 32 (ucast (l_i_blocks_high i)) OR ucast (i_blocks_lo i)"

definition EXT4_INODE_SET_BLOCKS :: "u64 \<Rightarrow> ext4_inode \<Rightarrow> ext4_inode" where
  "EXT4_INODE_SET_BLOCKS blocks i =
     i\<lparr>i_blocks_lo := ucast blocks, l_i_blocks_high := ucast (drop_bit 32 blocks)\<rparr>"

lemma GET_SET_UID [simp]: "EXT4_INODE_GET_UID (EXT4_INODE_SET_UID u i) = u"
  by (rule bit_word_eqI) (auto simp: EXT4_INODE_GET_UID_def EXT4_INODE_SET_UID_def bit_simps)

lemma GET_SET_GID [simp]: "EXT4_INODE_GET_GID (EXT4_INODE_SET_GID g i) = g"
  by (rule bit_word_eqI) (auto simp: EXT4_INODE_GET_GID_def EXT4_INODE_SET_GID_def bit_simps)

lemma GET_SET_SIZE [simp]: "EXT4_INODE_GET_SIZE (EXT4_INODE_SET_SIZE n i) = n"
  by (rule bit_word_eqI) (auto simp: EXT4_INODE_GET_SIZE_def EXT4_INODE_SET_SIZE_def bit_simps)

lemma GET_SET_BLOCKS:
  "drop_bit 48 n = 0 \<Longrightarrow> EXT4_INODE_GET_BLOCKS (EXT4_INODE_SET_BLOCKS n i) = n"
proof -
  assume "drop_bit 48 n = 0"
  then have hi: "k < 48" if "bit n k" for k
    using that not_bit_above [of 48 n k] by force
  show ?thesis
    by (rule bit_word_eqI)
       (auto simp: EXT4_INODE_GET_BLOCKS_def EXT4_INODE_SET_BLOCKS_def bit_simps dest: hi)
qed

lemma wf_inode_SET [simp]:
  "wf_inode (EXT4_INODE_SET_UID u i) = wf_inode i"
  "wf_inode (EXT4_INODE_SET_GID u i) = wf_inode i"
  "wf_inode (EXT4_INODE_SET_SIZE n i) = wf_inode i"
  "wf_inode (EXT4_INODE_SET_BLOCKS n i) = wf_inode i"
  by (simp_all add: wf_inode_def EXT4_INODE_SET_UID_def EXT4_INODE_SET_GID_def
      EXT4_INODE_SET_SIZE_def EXT4_INODE_SET_BLOCKS_def)

section \<open>File modes\<close>

definition S_IFMT :: u32 where "S_IFMT = 0xF000"
definition S_IFSOCK :: u32 where "S_IFSOCK = 0xC000"
definition S_IFLNK :: u32 where "S_IFLNK = 0xA000"
definition S_IFREG :: u32 where "S_IFREG = 0x8000"
definition S_IFBLK :: u32 where "S_IFBLK = 0x6000"
definition S_IFDIR :: u32 where "S_IFDIR = 0x4000"
definition S_IFCHR :: u32 where "S_IFCHR = 0x2000"
definition S_IFIFO :: u32 where "S_IFIFO = 0x1000"

definition S_ISDIR :: "u16 \<Rightarrow> bool" where "S_ISDIR m \<longleftrightarrow> ucast m AND S_IFMT = S_IFDIR"
definition S_ISLNK :: "u16 \<Rightarrow> bool" where "S_ISLNK m \<longleftrightarrow> ucast m AND S_IFMT = S_IFLNK"

lemmas mode_defs = S_IFMT_def S_IFSOCK_def S_IFLNK_def S_IFREG_def S_IFBLK_def S_IFDIR_def
  S_IFCHR_def S_IFIFO_def S_ISDIR_def S_ISLNK_def

section \<open>Extents\<close>

record ext4_extent_header =
  eh_magic :: u16
  eh_entries :: u16
  eh_max :: u16
  eh_depth :: u16
  eh_generation :: u32

definition enc_extent_header :: "ext4_extent_header \<Rightarrow> u8 list" where
  "enc_extent_header r =
     put16 (eh_magic r) @ put16 (eh_entries r) @ put16 (eh_max r) @ put16 (eh_depth r) @
     put32 (eh_generation r)"

definition dec_extent_header :: "u8 list \<Rightarrow> ext4_extent_header" where
  "dec_extent_header bs = \<lparr>
     eh_magic = get16 bs 0, eh_entries = get16 bs 2, eh_max = get16 bs 4,
     eh_depth = get16 bs 6, eh_generation = get32 bs 8\<rparr>"

record ext4_extent =
  ee_block :: u32
  ee_len :: u16
  ee_start_hi :: u16
  ee_start_lo :: u32

definition enc_extent :: "ext4_extent \<Rightarrow> u8 list" where
  "enc_extent r =
     put32 (ee_block r) @ put16 (ee_len r) @ put16 (ee_start_hi r) @
     put32 (ee_start_lo r)"

definition dec_extent :: "u8 list \<Rightarrow> ext4_extent" where
  "dec_extent bs = \<lparr>
     ee_block = get32 bs 0, ee_len = get16 bs 4, ee_start_hi = get16 bs 6,
     ee_start_lo = get32 bs 8\<rparr>"

record ext4_extent_idx =
  ei_block :: u32
  ei_leaf_lo :: u32
  ei_leaf_hi :: u16
  ei_unused :: u16

definition enc_extent_idx :: "ext4_extent_idx \<Rightarrow> u8 list" where
  "enc_extent_idx r =
     put32 (ei_block r) @ put32 (ei_leaf_lo r) @ put16 (ei_leaf_hi r) @
     put16 (ei_unused r)"

definition dec_extent_idx :: "u8 list \<Rightarrow> ext4_extent_idx" where
  "dec_extent_idx bs = \<lparr>
     ei_block = get32 bs 0, ei_leaf_lo = get32 bs 4, ei_leaf_hi = get16 bs 8,
     ei_unused = get16 bs 10\<rparr>"

interpretation eh_codec: codec enc_extent_header dec_extent_header "\<lambda>_. True" 12
  by unfold_locales
     (simp_all add: enc_extent_header_def dec_extent_header_def put_get_width slice_join_assoc
        slice_join field_simps_codec)

interpretation ee_codec: codec enc_extent dec_extent "\<lambda>_. True" 12
  by unfold_locales
     (simp_all add: enc_extent_def dec_extent_def put_get_width slice_join_assoc slice_join
        field_simps_codec)

interpretation ei_codec: codec enc_extent_idx dec_extent_idx "\<lambda>_. True" 12
  by unfold_locales
     (simp_all add: enc_extent_idx_def dec_extent_idx_def put_get_width slice_join_assoc slice_join
        field_simps_codec)

definition EXT4_EXT_MAGIC :: u16 where "EXT4_EXT_MAGIC = 0xF30A"
definition EXT4_EXT_LEAF_EH_MAX :: u16 where "EXT4_EXT_LEAF_EH_MAX = 4"
definition EXT4_EXT_EH_GENERATION :: u32 where "EXT4_EXT_EH_GENERATION = 0"

text \<open>\<open>EXT4_EXT_EH_MAX\<close>: how many 12-byte extents fit beside the header and the 4-byte tail.\<close>

definition EXT4_EXT_EH_MAX :: "u64 \<Rightarrow> u64" where
  "EXT4_EXT_EH_MAX block_size = (block_size - 12 - 4) div 12"

definition EXT4_EXT_GET_PADDR :: "ext4_extent \<Rightarrow> u64" where
  "EXT4_EXT_GET_PADDR e = push_bit 32 (ucast (ee_start_hi e)) OR ucast (ee_start_lo e)"

definition EXT4_EXT_SET_PADDR :: "u64 \<Rightarrow> ext4_extent \<Rightarrow> ext4_extent" where
  "EXT4_EXT_SET_PADDR addr e = e\<lparr>ee_start_hi := ucast (drop_bit 32 addr), ee_start_lo := ucast addr\<rparr>"

definition EXT4_EXT_LEAF_ADDR :: "ext4_extent_idx \<Rightarrow> u64" where
  "EXT4_EXT_LEAF_ADDR e = push_bit 32 (ucast (ei_leaf_hi e)) OR ucast (ei_leaf_lo e)"

lemma GET_SET_PADDR:
  assumes "drop_bit 48 a = 0"
  shows "EXT4_EXT_GET_PADDR (EXT4_EXT_SET_PADDR a e) = a"
proof -
  have hi: "k < 48" if "bit a k" for k
    using assms that not_bit_above [of 48 a k] by force
  show ?thesis
    by (rule bit_word_eqI)
       (auto simp: EXT4_EXT_GET_PADDR_def EXT4_EXT_SET_PADDR_def bit_simps dest: hi)
qed

section \<open>Directory entries\<close>

definition EXT4_NAME_LEN :: nat where "EXT4_NAME_LEN = 254"
definition EXT4_DE_BASE_SIZE :: nat where "EXT4_DE_BASE_SIZE = 8"
definition EXT4_DE_TAIL_SIZE :: nat where "EXT4_DE_TAIL_SIZE = 12"
definition EXT4_DE_DOT_SIZE :: nat where "EXT4_DE_DOT_SIZE = 12"
definition EXT4_FT_UNKNOWN :: u8 where "EXT4_FT_UNKNOWN = 0"
definition EXT4_FT_REG_FILE :: u8 where "EXT4_FT_REG_FILE = 1"
definition EXT4_FT_DIR :: u8 where "EXT4_FT_DIR = 2"
definition EXT4_FT_CHRDEV :: u8 where "EXT4_FT_CHRDEV = 3"
definition EXT4_FT_BLKDEV :: u8 where "EXT4_FT_BLKDEV = 4"
definition EXT4_FT_FIFO :: u8 where "EXT4_FT_FIFO = 5"
definition EXT4_FT_SOCK :: u8 where "EXT4_FT_SOCK = 6"
definition EXT4_FT_SYMLINK :: u8 where "EXT4_FT_SYMLINK = 7"
definition EXT4_FT_DIR_CSUM :: u8 where "EXT4_FT_DIR_CSUM = 0xDE"

lemmas ft_defs = EXT4_FT_UNKNOWN_def EXT4_FT_REG_FILE_def EXT4_FT_DIR_def EXT4_FT_CHRDEV_def
  EXT4_FT_BLKDEV_def EXT4_FT_FIFO_def EXT4_FT_SOCK_def EXT4_FT_SYMLINK_def EXT4_FT_DIR_CSUM_def

end
