(* ===== verification/Kfs_State.thy ===== *)
theory Kfs_State
  imports Disk Ext4_Super Ext4_Inode
begin

text \<open>
  The global variables of the kfs process, one record: \<open>sb\<close> and \<open>gdt\<close>
  (\<open>src/op_init.c\<close>), \<open>i_bitmap\<close> and \<open>d_bitmap\<close> (\<open>src/bitmap.c\<close>), \<open>dcache\<close>, \<open>icache\<close> and
  the decache tree \<open>root\<close> (\<open>src/cache.c\<close>), \<open>fuse_capable\<close> (\<open>src/op_init.c\<close>) and the open
  image. A pointer into an array or a buffer is its index: a \<open>struct ext4_inode *\<close> is the
  index of its \<open>icache\<close> entry, a \<open>struct ext4_dir_entry_2 *\<close> is its offset in
  \<open>dcache->buf\<close>, a \<open>struct decache_entry *\<close> is an address of the decache heap.
\<close>

section \<open>Bitmaps\<close>

record bitmap_group =
  bg_bitmap :: "u8 list"
  bg_off :: u64
  bg_dirty :: bool

record bitmap_t =
  bm_groups :: "bitmap_group list"
  bm_group_num :: u32

record pblock_range =
  pr_pblock :: u64
  pr_len :: u16

section \<open>Caches\<close>

record dcache_t =
  dc_inode_idx :: u32
  dc_lblock :: u32
  dc_pblock :: u32
  dc_buf :: "u8 list"

datatype icache_status = ICACHE_S_INVAL | ICACHE_S_VALID | ICACHE_S_DIRTY

record icache_entry =
  ic_inode :: ext4_inode
  ic_inode_idx :: u32
  ic_lru_count :: u32
  ic_status :: icache_status
  ic_last_de :: "nat option"

definition ICACHE_MAX_COUNT :: nat where "ICACHE_MAX_COUNT = 64"

record icache_t =
  ic_entries :: "icache_entry list"
  ic_count :: nat

text \<open>The decache is a tree of heap nodes linked by \<open>parent\<close>, \<open>childs\<close>, \<open>last_child\<close>,
  \<open>prev\<close> and \<open>next\<close>. A freed node is no longer in the heap.\<close>

record decache_entry =
  de_parent :: "nat option"
  de_childs :: "nat option"
  de_last_child :: "nat option"
  de_prev :: "nat option"
  de_next :: "nat option"
  de_inode_idx :: u32
  de_count :: u32
  de_name :: cstr

record decache_t =
  dh_heap :: "nat \<Rightarrow> decache_entry option"
  dh_next :: nat
  dh_root :: nat

section \<open>The process\<close>

record kfs =
  image :: disk
  sb :: ext4_super_block
  gdt :: "ext4_group_desc list"
  i_bitmap :: bitmap_t
  d_bitmap :: bitmap_t
  dcache :: dcache_t
  icache :: icache_t
  decache :: decache_t
  fuse_capable :: u32

text \<open>What a request brings with it: \<open>fuse_get_context()\<close>, which may be NULL, and the clock.\<close>

record fuse_context =
  fc_uid :: u32
  fc_gid :: u32
  fc_umask :: u32

record env =
  cntx :: "fuse_context option"
  now :: u64

record fuse_file_info =
  fi_fh :: u64
  fi_flags :: u32

abbreviation BLOCK_SIZE :: "kfs \<Rightarrow> u64" where
  "BLOCK_SIZE s \<equiv> EXT4_BLOCK_SIZE (sb s)"

text \<open>Reading and writing the image through the process state.\<close>

definition k_read :: "u64 \<Rightarrow> u64 \<Rightarrow> kfs \<Rightarrow> u8 list option" where
  "k_read off n s = disk_read off n (image s)"

definition k_write :: "u64 \<Rightarrow> u8 list \<Rightarrow> kfs \<Rightarrow> kfs option" where
  "k_write off buf s = do {
     d \<leftarrow> disk_write off buf (image s);
     Some (s\<lparr>image := d\<rparr>)
   }"

text \<open>\<open>disk_read_block\<close> and \<open>disk_write_block\<close> of \<open>src/disk.h\<close>.\<close>

definition disk_read_block :: "u64 \<Rightarrow> kfs \<Rightarrow> u8 list option" where
  "disk_read_block blk s = k_read (BLOCKS2BYTES (sb s) blk) (BLOCK_SIZE s) s"

definition disk_write_block :: "u64 \<Rightarrow> u8 list \<Rightarrow> kfs \<Rightarrow> kfs option" where
  "disk_write_block blk buf s = do {
     VALID (unat (BLOCK_SIZE s) \<le> length buf);
     k_write (BLOCKS2BYTES (sb s) blk) (take (unat (BLOCK_SIZE s)) buf) s
   }"

lemma k_write_frame:
  assumes "k_write off buf s = Some s'"
  shows "s' = s\<lparr>image := image s'\<rparr>" and "disk_write off buf (image s) = Some (image s')"
  using assms by (auto simp: k_write_def bind_eq_Some_conv)

lemma k_write_keeps [simp]:
  assumes "k_write off buf s = Some s'"
  shows "sb s' = sb s" "gdt s' = gdt s" "i_bitmap s' = i_bitmap s" "d_bitmap s' = d_bitmap s"
    "dcache s' = dcache s" "icache s' = icache s" "decache s' = decache s"
    "fuse_capable s' = fuse_capable s"
  using assms by (auto simp: k_write_def bind_eq_Some_conv)

end
