(* ===== verification/Sample.thy ===== *)
theory Sample
  imports Kfs_State
begin

text \<open>
  A small concrete file system, on which the theorems of the components are instantiated:
  two block groups of 8 inodes and 16 blocks of 1024 bytes each, an empty image and cold
  caches. The super block is the decoding of an all-zero one with the geometry filled in.
\<close>

definition sample_sb :: ext4_super_block where
  "sample_sb = (dec_super_block (replicate 1024 0))\<lparr>
     s_inodes_count := 16, s_blocks_count_lo := 32, s_blocks_count_hi := 0,
     s_first_data_block := 1, s_log_block_size := 0, s_blocks_per_group := 16,
     s_inodes_per_group := 8, s_inode_size := 256, s_desc_size := 64,
     s_magic := EXT4_S_MAGIC\<rparr>"

definition sample_gd :: "u32 \<Rightarrow> ext4_group_desc" where
  "sample_gd itable =
     (dec_group_desc (replicate 64 0))\<lparr>bg_inode_table_lo := itable, bg_inode_table_hi := 0\<rparr>"

definition sample_bitmap :: "u8 list list \<Rightarrow> bitmap_t" where
  "sample_bitmap bs =
     \<lparr>bm_groups = map (\<lambda>b. \<lparr>bg_bitmap = b, bg_off = 0, bg_dirty = False\<rparr>) bs, bm_group_num = 2\<rparr>"

definition sample_icache_entry :: icache_entry where
  "sample_icache_entry = \<lparr>ic_inode = dec_inode (replicate 160 0), ic_inode_idx = 0,
     ic_lru_count = 0, ic_status = ICACHE_S_INVAL, ic_last_de = None\<rparr>"

definition sample_kfs :: kfs where
  "sample_kfs = \<lparr>image = \<lparr>disk_fd = 3, d_bytes = (\<lambda>_. 0), d_size = 32768\<rparr>,
     sb = sample_sb, gdt = [sample_gd 4, sample_gd 20],
     i_bitmap = sample_bitmap [[0xff], [0x07]],
     d_bitmap = sample_bitmap [[0xff, 0xff], [0x0f, 0x00]],
     dcache = \<lparr>dc_inode_idx = 0, dc_lblock = 0, dc_pblock = 0, dc_buf = []\<rparr>,
     icache = \<lparr>ic_entries = replicate 64 sample_icache_entry, ic_count = 0\<rparr>,
     decache = \<lparr>dh_heap = (\<lambda>_. None), dh_next = 1, dh_root = 0\<rparr>,
     fuse_capable = 0x100000\<rparr>"

end
