(* ===== verification/Bitmap.thy ===== *)
theory Bitmap
  imports Sample
begin

text \<open>
  The allocation bitmaps, \<open>src/bitmap.c\<close>, with the bit macros of \<open>src/ext4/ext4.h\<close>: one
  bit per inode in \<open>i_bitmap\<close>, one bit per block in \<open>d_bitmap\<close> (handled in clusters of
  \<open>EXT4_INODE_PBLOCK_NUM\<close> = 4 bits), per block group.
\<close>

section \<open>Bits of a bitmap\<close>

text \<open>\<open>BIT1(bitmap, n)\<close> holds when bit \<open>n\<close> is 0; \<open>BIT4(bitmap, n)\<close> when the four bits from
  \<open>4 * n\<close> are 0.\<close>

definition BIT1 :: "u8 list \<Rightarrow> nat \<Rightarrow> bool option" where
  "BIT1 bm n = do {
     b \<leftarrow> index bm (n div 8);
     Some (b AND push_bit (n mod 8) 1 = 0)
   }"

definition BIT4 :: "u8 list \<Rightarrow> nat \<Rightarrow> bool option" where
  "BIT4 bm n = do {
     b \<leftarrow> index bm (n div 2);
     Some (b AND push_bit (n mod 2 * 4) 0b1111 = 0)
   }"

definition SET_BIT1 :: "u8 list \<Rightarrow> nat \<Rightarrow> bool \<Rightarrow> u8 list option" where
  "SET_BIT1 bm n v = do {
     b \<leftarrow> index bm (n div 8);
     Some (bm[n div 8 := (if v then b OR push_bit (n mod 8) 1
                          else b AND NOT (push_bit (n mod 8) 1))])
   }"

definition SET_BIT4 :: "u8 list \<Rightarrow> nat \<Rightarrow> bool \<Rightarrow> u8 list option" where
  "SET_BIT4 bm n v = do {
     b \<leftarrow> index bm (n div 2);
     Some (bm[n div 2 := (if v then b OR push_bit (n mod 2 * 4) 0b1111
                          else b AND NOT (push_bit (n mod 2 * 4) 0b1111))])
   }"

section \<open>Initialisation\<close>

fun bitmap_init_groups ::
  "ext4_super_block \<Rightarrow> (u64 \<Rightarrow> u64 \<Rightarrow> u8 list option) \<Rightarrow> ext4_group_desc list \<Rightarrow> nat \<Rightarrow>
     (bitmap_group list \<times> bitmap_group list) option" where
  "bitmap_init_groups sp rd gs 0 = Some ([], [])"
| "bitmap_init_groups sp rd [] (Suc n) = None"
| "bitmap_init_groups sp rd (g # gs) (Suc n) = do {
     let ioff = BLOCKS2BYTES sp (EXT4_DESC_INO_BITMAP g);
     ibm \<leftarrow> rd ioff (ucast (s_inodes_per_group sp div 8));
     let doff = BLOCKS2BYTES sp (EXT4_DESC_BLOCK_BITMAP g);
     dbm \<leftarrow> rd doff (ucast (s_blocks_per_group sp div 8));
     (is, ds) \<leftarrow> bitmap_init_groups sp rd gs n;
     Some (\<lparr>bg_bitmap = ibm, bg_off = ioff, bg_dirty = False\<rparr> # is,
           \<lparr>bg_bitmap = dbm, bg_off = doff, bg_dirty = False\<rparr> # ds)
   }"

definition bitmap_init :: "kfs \<Rightarrow> kfs option" where
  "bitmap_init s = do {
     n \<leftarrow> EXT4_N_BLOCK_GROUPS (sb s);
     let group_num = (ucast n :: u32);
     (is, ds) \<leftarrow> bitmap_init_groups (sb s) (\<lambda>off n. k_read off n s) (gdt s) (unat group_num);
     Some (s\<lparr>i_bitmap := \<lparr>bm_groups = is, bm_group_num = group_num\<rparr>,
             d_bitmap := \<lparr>bm_groups = ds, bm_group_num = group_num\<rparr>\<rparr>)
   }"

section \<open>Searching\<close>

text \<open>The inner loop \<open>for (j = 0; j < n; j++) if (BIT(bitmap, j))\<close>: \<open>scan\<close> looks at the
  \<open>k\<close> indices from \<open>j\<close> on and returns the first one whose test holds.\<close>

fun scan :: "(nat \<Rightarrow> bool option) \<Rightarrow> nat \<Rightarrow> nat \<Rightarrow> nat option option" where
  "scan t j 0 = Some None"
| "scan t j (Suc k) = do {
     b \<leftarrow> t j;
     if b then Some (Some j) else scan t (Suc j) k
   }"

text \<open>The outer loop \<open>for (i = group_idx + 1; i != group_idx; i = (i + 1) % group_num)\<close>. The
  search of a group indexes \<open>group[i]\<close> first, so \<open>i = group_num\<close> leaves the array.\<close>

partial_function (option) search_groups ::
  "(u32 \<Rightarrow> nat option option) \<Rightarrow> u32 \<Rightarrow> u32 \<Rightarrow> u32 \<Rightarrow> (u32 \<times> nat) option option" where
  "search_groups f group_idx group_num i =
     (if i = group_idx then Some None
      else do {
        r \<leftarrow> f i;
        case r of
          Some j \<Rightarrow> Some (Some (i, j))
        | None \<Rightarrow> do {
            i' \<leftarrow> cmod (i + 1) group_num;
            search_groups f group_idx group_num i'
          }
      })"

definition inode_scan :: "kfs \<Rightarrow> u32 \<Rightarrow> nat option option" where
  "inode_scan s i = do {
     g \<leftarrow> index (bm_groups (i_bitmap s)) (unat i);
     scan (BIT1 (bg_bitmap g)) 0 (unat (s_inodes_per_group (sb s)))
   }"

definition bitmap_inode_find :: "u32 \<Rightarrow> kfs \<Rightarrow> u32 option" where
  "bitmap_inode_find inode_idx s = do {
     group_idx \<leftarrow> cdiv inode_idx (s_inodes_per_group (sb s));
     n \<leftarrow> EXT4_N_BLOCK_GROUPS (sb s);
     let group_num = ucast n;
     ASSERT (group_idx < group_num);
     r \<leftarrow> inode_scan s group_idx;
     case r of
       Some i \<Rightarrow> Some (group_idx * s_inodes_per_group (sb s) + word_of_nat i + 1)
     | None \<Rightarrow> do {
         r \<leftarrow> search_groups (inode_scan s) group_idx group_num (group_idx + 1);
         case r of
           Some (i, j) \<Rightarrow> Some (i * s_inodes_per_group (sb s) + word_of_nat j + 1)
         | None \<Rightarrow> Some 0
       }
   }"

definition pblock_scan :: "kfs \<Rightarrow> u32 \<Rightarrow> nat option option" where
  "pblock_scan s i = do {
     g \<leftarrow> index (bm_groups (d_bitmap s)) (unat i);
     scan (BIT4 (bg_bitmap g)) 0 (unat (s_blocks_per_group (sb s) div EXT4_INODE_PBLOCK_NUM))
   }"

text \<open>\<open>bitmap_pblock_find\<close> ignores its second parameter; block numbers are computed in 32
  bits before they are widened.\<close>

definition bitmap_pblock_find :: "u32 \<Rightarrow> kfs \<Rightarrow> u64 option" where
  "bitmap_pblock_find inode_idx s = do {
     group_idx \<leftarrow> cdiv inode_idx (s_inodes_per_group (sb s));
     n \<leftarrow> EXT4_N_BLOCK_GROUPS (sb s);
     let group_num = ucast n;
     ASSERT (group_idx < group_num);
     r \<leftarrow> pblock_scan s group_idx;
     case r of
       Some i \<Rightarrow> Some (ucast (group_idx * s_blocks_per_group (sb s) +
                               word_of_nat i * EXT4_INODE_PBLOCK_NUM))
     | None \<Rightarrow> do {
         r \<leftarrow> search_groups (pblock_scan s) group_idx group_num (group_idx + 1);
         case r of
           Some (i, j) \<Rightarrow> Some (ucast (i * s_blocks_per_group (sb s) +
                                        word_of_nat j * EXT4_INODE_PBLOCK_NUM))
         | None \<Rightarrow> Some (- 1)
       }
   }"

section \<open>Marking\<close>

definition bitmap_inode_set :: "u32 \<Rightarrow> bool \<Rightarrow> kfs \<Rightarrow> kfs option" where
  "bitmap_inode_set inode_idx is_used s = do {
     ASSERT (inode_idx \<noteq> 0);
     let idx = inode_idx - 1;
     group_idx \<leftarrow> cdiv idx (s_inodes_per_group (sb s));
     i \<leftarrow> cmod idx (s_inodes_per_group (sb s));
     n \<leftarrow> EXT4_N_BLOCK_GROUPS (sb s);
     ASSERT (group_idx < ucast n);
     g \<leftarrow> index (bm_groups (i_bitmap s)) (unat group_idx);
     bm \<leftarrow> SET_BIT1 (bg_bitmap g) (unat i) is_used;
     Some (s\<lparr>i_bitmap := (i_bitmap s)\<lparr>bm_groups :=
       (bm_groups (i_bitmap s))[unat group_idx := g\<lparr>bg_bitmap := bm, bg_dirty := True\<rparr>]\<rparr>\<rparr>)
   }"

definition bitmap_pblock_set :: "u64 \<Rightarrow> int \<Rightarrow> bool \<Rightarrow> kfs \<Rightarrow> kfs option" where
  "bitmap_pblock_set block_idx len is_used s = do {
     gi \<leftarrow> cdiv block_idx (ucast (s_blocks_per_group (sb s)));
     i \<leftarrow> cmod block_idx (ucast (s_blocks_per_group (sb s)));
     let group_idx = (ucast gi :: u32);
     let i = (ucast i :: u32);
     n \<leftarrow> EXT4_N_BLOCK_GROUPS (sb s);
     ASSERT (group_idx < ucast n);
     if len = 4 then do {
       g \<leftarrow> index (bm_groups (d_bitmap s)) (unat group_idx);
       bm \<leftarrow> SET_BIT4 (bg_bitmap g) (unat (i div EXT4_INODE_PBLOCK_NUM)) is_used;
       Some (s\<lparr>d_bitmap := (d_bitmap s)\<lparr>bm_groups :=
         (bm_groups (d_bitmap s))[unat group_idx := g\<lparr>bg_bitmap := bm, bg_dirty := True\<rparr>]\<rparr>\<rparr>)
     } else do { ASSERT False; Some s }
   }"

text \<open>\<open>bitmap_pblock_free\<close>: for every range, \<open>for (j = 0; j < range->len; j++)
  bitmap_pblock_set(range->pblock + j, 1, 0)\<close>.\<close>

fun pblock_free_range :: "u64 \<Rightarrow> nat \<Rightarrow> kfs \<Rightarrow> kfs option" where
  "pblock_free_range pblock 0 s = Some s"
| "pblock_free_range pblock (Suc k) s = do {
     s \<leftarrow> bitmap_pblock_set pblock 1 False s;
     pblock_free_range (pblock + 1) k s
   }"

fun bitmap_pblock_free :: "pblock_range list \<Rightarrow> kfs \<Rightarrow> kfs option" where
  "bitmap_pblock_free [] s = Some s"
| "bitmap_pblock_free (r # rs) s = do {
     s \<leftarrow> pblock_free_range (pr_pblock r) (unat (pr_len r)) s;
     bitmap_pblock_free rs s
   }"

section \<open>Group descriptor counters\<close>

definition gdt_dec :: "ext4_group_desc \<Rightarrow> ext4_group_desc" where
  "gdt_dec g = (
     let free_blocks = EXT4_GDT_FREE_BLOCKS g - 1;
         free_inodes = EXT4_GDT_FREE_INODES g - 1;
         used_dirs = (if EXT4_GDT_USED_DIRS g = EXT4_GDT_MAX_USED_DIRS
                      then EXT4_GDT_USED_DIRS g else EXT4_GDT_USED_DIRS g + 1);
         unused_inodes = EXT4_GDT_ITABLE_UNUSED g - 1
     in EXT4_GDT_SET_DIRTY (g\<lparr>
          bg_free_blocks_count_lo := ucast free_blocks,
          bg_free_blocks_count_hi := ucast (drop_bit 16 free_blocks),
          bg_free_inodes_count_lo := ucast free_inodes,
          bg_free_inodes_count_hi := ucast (drop_bit 16 free_inodes),
          bg_used_dirs_count_lo := ucast used_dirs,
          bg_used_dirs_count_hi := ucast (drop_bit 16 used_dirs),
          bg_itable_unused_lo := ucast unused_inodes,
          bg_itable_unused_hi := ucast (drop_bit 16 unused_inodes)\<rparr>))"

definition gdt_update_counts :: "u32 \<Rightarrow> kfs \<Rightarrow> kfs option" where
  "gdt_update_counts inode_idx s = do {
     group_idx \<leftarrow> cdiv inode_idx (s_inodes_per_group (sb s));
     g \<leftarrow> index (gdt s) (unat group_idx);
     Some (s\<lparr>gdt := (gdt s)[unat group_idx := gdt_dec g]\<rparr>)
   }"

section \<open>Counting\<close>

text \<open>\<open>count_bits bm j k\<close> runs the inner loop of the two counting functions over \<open>k\<close>
  indices from \<open>j\<close> on: the first counter is \<open>*used_..._num\<close>, which the source increments
  when \<open>BIT1\<close> holds, that is when the bit is 0.\<close>

fun count_bits :: "u8 list \<Rightarrow> nat \<Rightarrow> nat \<Rightarrow> u64 \<times> u64 \<Rightarrow> (u64 \<times> u64) option" where
  "count_bits bm j 0 c = Some c"
| "count_bits bm j (Suc k) c = do {
     b \<leftarrow> BIT1 bm j;
     count_bits bm (Suc j) k (if b then (fst c + 1, snd c) else (fst c, snd c + 1))
   }"

fun count_groups :: "bitmap_group list \<Rightarrow> nat \<Rightarrow> nat \<Rightarrow> u64 \<times> u64 \<Rightarrow> (u64 \<times> u64) option" where
  "count_groups gs 0 per c = Some c"
| "count_groups [] (Suc n) per c = None"
| "count_groups (g # gs) (Suc n) per c = do {
     c \<leftarrow> count_bits (bg_bitmap g) 0 per c;
     count_groups gs n per c
   }"

definition bitmap_inode_count :: "kfs \<Rightarrow> (u64 \<times> u64) option" where
  "bitmap_inode_count s = do {
     n \<leftarrow> EXT4_N_BLOCK_GROUPS (sb s);
     count_groups (bm_groups (i_bitmap s)) (unat n) (unat (s_inodes_per_group (sb s))) (0, 0)
   }"

definition bitmap_pblock_count :: "kfs \<Rightarrow> (u64 \<times> u64) option" where
  "bitmap_pblock_count s = do {
     n \<leftarrow> EXT4_N_BLOCK_GROUPS (sb s);
     count_groups (bm_groups (d_bitmap s)) (unat n) (unat (s_blocks_per_group (sb s))) (0, 0)
   }"

section \<open>The bits a bitmap holds\<close>

definition bit_of :: "u8 list \<Rightarrow> nat \<Rightarrow> bool" where
  "bit_of bm n = bit (bm ! (n div 8)) (n mod 8)"

lemma BIT1_eq: "n < 8 * length bm \<Longrightarrow> BIT1 bm n = Some (\<not> bit_of bm n)"
  by (auto simp: BIT1_def index_def bit_of_def and_exp_eq_0_iff_not_bit push_bit_of_1)

lemma bit_15: "bit (15 :: int) j \<longleftrightarrow> j < 4"
proof -
  have "(15 :: int) = mask 4" by (simp add: mask_eq_exp_minus_1)
  then show ?thesis by (simp only: bit_mask_iff) auto
qed

lemma bit_nibble: "bit (push_bit m 15 :: u8) k \<longleftrightarrow> m \<le> k \<and> k < m + 4 \<and> k < 8"
  by (auto simp: bit_push_bit_iff bit_15)

lemma and_nibble_eq_0:
  "(b :: u8) AND push_bit m 15 = 0 \<longleftrightarrow> (\<forall>k. m \<le> k \<and> k < m + 4 \<and> k < 8 \<longrightarrow> \<not> bit b k)"
  by (auto simp: bit_eq_iff bit_and_iff bit_push_bit_iff bit_15)

lemma div_mod_8_4:
  fixes n k :: nat
  assumes "k < 4"
  shows "(4 * n + k) div 8 = n div 2" and "(4 * n + k) mod 8 = n mod 2 * 4 + k"
proof -
  have "4 * n + k = 8 * (n div 2) + (n mod 2 * 4 + k)" by presburger
  moreover have "n mod 2 * 4 + k < 8" using assms by presburger
  moreover have "(8 * q + r) div 8 = q \<and> (8 * q + r) mod 8 = r" if "r < 8" for q r :: nat
    using that by simp
  ultimately show "(4 * n + k) div 8 = n div 2" and "(4 * n + k) mod 8 = n mod 2 * 4 + k"
    by presburger+
qed

lemma div_4_iff: "m div 4 = n \<longleftrightarrow> m div 8 = n div 2 \<and> n mod 2 * 4 \<le> m mod 8 \<and> m mod 8 < n mod 2 * 4 + 4"
    for m :: nat
proof
  assume "m div 4 = n"
  then have "m = 4 * n + m mod 4" by auto
  then show "m div 8 = n div 2 \<and> n mod 2 * 4 \<le> m mod 8 \<and> m mod 8 < n mod 2 * 4 + 4"
    using div_mod_8_4 [of "m mod 4" n] by (metis add_less_cancel_left le_add1 mod_less_divisor zero_less_numeral)
next
  assume a: "m div 8 = n div 2 \<and> n mod 2 * 4 \<le> m mod 8 \<and> m mod 8 < n mod 2 * 4 + 4"
  then have "m = 8 * (n div 2) + m mod 8" by (metis mult_div_mod_eq)
  with a obtain j where "m = 8 * (n div 2) + n mod 2 * 4 + j" "j < 4"
    by (metis add.assoc add_less_cancel_left le_iff_add)
  moreover have "8 * (n div 2) + n mod 2 * 4 = 4 * n" by presburger
  ultimately show "m div 4 = n" by simp
qed

lemma BIT4_eq:
  assumes "n < 2 * length bm"
  shows "BIT4 bm n = Some (\<forall>k<4. \<not> bit_of bm (4 * n + k))"
proof -
  have "(bm ! (n div 2) AND push_bit (n mod 2 * 4) 15 = 0) \<longleftrightarrow>
      (\<forall>k<4. \<not> bit (bm ! (n div 2)) (n mod 2 * 4 + k))"
    by (auto simp: and_nibble_eq_0 dest: le_Suc_ex)
  with assms show ?thesis
    by (auto simp: BIT4_def index_def bit_of_def div_mod_8_4)
qed

lemma SET_BIT1_eq:
  assumes "n < 8 * length bm"
  shows "\<exists>bm'. SET_BIT1 bm n v = Some bm' \<and> length bm' = length bm \<and>
    (\<forall>m < 8 * length bm. bit_of bm' m = (if m = n then v else bit_of bm m))"
proof -
  have "m = n" if "m div 8 = n div 8" "m mod 8 = n mod 8" for m
    using that by (metis div_mult_mod_eq)
  with assms show ?thesis
    by (auto simp: SET_BIT1_def index_def bit_of_def nth_list_update bit_simps push_bit_of_1)
qed

lemma SET_BIT4_eq:
  assumes "n < 2 * length bm"
  shows "\<exists>bm'. SET_BIT4 bm n v = Some bm' \<and> length bm' = length bm \<and>
    (\<forall>m < 8 * length bm. bit_of bm' m = (if m div 4 = n then v else bit_of bm m))"
proof -
  show ?thesis
    using assms
    by (auto simp: SET_BIT4_def index_def bit_of_def nth_list_update bit_or_iff bit_and_iff
        bit_not_iff bit_nibble div_4_iff simp del: push_bit_numeral bit_push_bit_iff)
qed

section \<open>Geometry and the shape of the bitmaps\<close>

definition n_groups :: "ext4_super_block \<Rightarrow> nat" where
  "n_groups sp = (case EXT4_N_BLOCK_GROUPS sp of None \<Rightarrow> 0 | Some n \<Rightarrow> unat n)"

abbreviation ipg :: "ext4_super_block \<Rightarrow> nat" where "ipg sp \<equiv> unat (s_inodes_per_group sp)"
abbreviation bpg :: "ext4_super_block \<Rightarrow> nat" where "bpg sp \<equiv> unat (s_blocks_per_group sp)"

definition geom_ok :: "ext4_super_block \<Rightarrow> bool" where
  "geom_ok sp \<longleftrightarrow> 0 < n_groups sp \<and> 0 < ipg sp \<and> 8 dvd ipg sp \<and> 8 dvd bpg sp \<and>
     n_groups sp * ipg sp < 2 ^ 32 \<and> n_groups sp * bpg sp < 2 ^ 32"

definition bitmaps_ok :: "kfs \<Rightarrow> bool" where
  "bitmaps_ok s \<longleftrightarrow> geom_ok (sb s) \<and>
     length (bm_groups (i_bitmap s)) = n_groups (sb s) \<and>
     (\<forall>g \<in> set (bm_groups (i_bitmap s)). 8 * length (bg_bitmap g) = ipg (sb s)) \<and>
     length (bm_groups (d_bitmap s)) = n_groups (sb s) \<and>
     (\<forall>g \<in> set (bm_groups (d_bitmap s)). 8 * length (bg_bitmap g) = bpg (sb s))"

text \<open>Inodes are numbered from 1, blocks from 0.\<close>

definition inode_bit :: "kfs \<Rightarrow> nat \<Rightarrow> bool" where
  "inode_bit s n = bit_of (bg_bitmap (bm_groups (i_bitmap s) ! ((n - 1) div ipg (sb s))))
                          ((n - 1) mod ipg (sb s))"

definition block_bit :: "kfs \<Rightarrow> nat \<Rightarrow> bool" where
  "block_bit s n = bit_of (bg_bitmap (bm_groups (d_bitmap s) ! (n div bpg (sb s)))) (n mod bpg (sb s))"

definition inode_group_full :: "kfs \<Rightarrow> nat \<Rightarrow> bool" where
  "inode_group_full s g \<longleftrightarrow> (\<forall>i < ipg (sb s). bit_of (bg_bitmap (bm_groups (i_bitmap s) ! g)) i)"

definition cluster_free :: "u8 list \<Rightarrow> nat \<Rightarrow> bool" where
  "cluster_free bm c \<longleftrightarrow> (\<forall>k<4. \<not> bit_of bm (4 * c + k))"

definition block_group_full :: "kfs \<Rightarrow> nat \<Rightarrow> bool" where
  "block_group_full s g \<longleftrightarrow>
     (\<forall>c < bpg (sb s) div 4. \<not> cluster_free (bg_bitmap (bm_groups (d_bitmap s) ! g)) c)"

lemma geom_okD:
  assumes "geom_ok sp"
  shows "EXT4_N_BLOCK_GROUPS sp = Some (word_of_nat (n_groups sp))"
    and "unat (ucast (word_of_nat (n_groups sp) :: u64) :: u32) = n_groups sp"
    and "n_groups sp < 2 ^ 32" and "s_inodes_per_group sp \<noteq> 0" and "0 < ipg sp"
proof -
  have lt: "n_groups sp < 2 ^ 32"
    using assms le_less_trans [of "n_groups sp" "n_groups sp * ipg sp" "2 ^ 32"]
    by (auto simp: geom_ok_def)
  then show "n_groups sp < 2 ^ 32" .
  show "EXT4_N_BLOCK_GROUPS sp = Some (word_of_nat (n_groups sp))"
    using assms by (auto simp: geom_ok_def n_groups_def split: option.splits)
  show "unat (ucast (word_of_nat (n_groups sp) :: u64) :: u32) = n_groups sp"
    using lt by (simp add: unsigned_ucast_eq unsigned_of_nat take_bit_nat_eq_self)
  show "s_inodes_per_group sp \<noteq> 0" and "0 < ipg sp"
    using assms by (auto simp: geom_ok_def)
qed

section \<open>The searches\<close>

lemma scan_eq:
  assumes "\<And>i. j \<le> i \<Longrightarrow> i < j + k \<Longrightarrow> t i = Some (P i)"
  shows "scan t j k = Some (List.find P [j..<j + k])"
  using assms
proof (induction k arbitrary: j)
  case 0
  then show ?case by simp
next
  case (Suc k)
  have "scan t (Suc j) k = Some (List.find P [Suc j..<Suc j + k])"
    by (rule Suc.IH) (use Suc.prems in auto)
  moreover have "[j..<j + Suc k] = j # [Suc j..<Suc j + k]"
    by (simp add: upt_rec)
  ultimately show ?case using Suc.prems [of j] by simp
qed

lemma find_upt_Some:
  "List.find P [0..<n] = Some i \<longleftrightarrow> i < n \<and> P i \<and> (\<forall>j<i. \<not> P j)"
  by (auto simp: find_Some_iff)

lemma find_upt_None: "List.find P [0..<n] = None \<longleftrightarrow> (\<forall>i<n. \<not> P i)"
  by (auto simp: find_None_iff)

lemma cyclic_distance:
  fixes gi gn i :: nat
  assumes "gi < gn" and "i < gn"
  shows "(gi + gn - i) mod gn = (if i \<le> gi then gi - i else gi + gn - i)"
proof (cases "i \<le> gi")
  case True
  then have "(gi + gn - i) mod gn = (gi - i + gn) mod gn" by simp
  also have "\<dots> = gi - i" using assms by (simp only: mod_add_self2) simp
  finally show ?thesis using True by simp
next
  case False
  then show ?thesis using assms by simp
qed

lemma cyclic_step:
  fixes gi gn i :: nat
  assumes "gi < gn" and "i < gn" and "(gi + gn - i) mod gn = Suc d"
  shows "(gi + gn - (i + 1) mod gn) mod gn = d"
proof (cases "i + 1 = gn")
  case True
  then show ?thesis using assms cyclic_distance [of gi gn i] cyclic_distance [of gi gn 0]
    by (auto split: if_splits)
next
  case False
  then have "i + 1 < gn" using assms(2) by simp
  then show ?thesis using assms cyclic_distance [of gi gn i] cyclic_distance [of gi gn "i + 1"]
    by (auto split: if_splits)
qed

lemma search_groups_stop: "search_groups f gi gn gi = Some None"
  by (subst search_groups.simps) simp

lemma search_groups_found:
  "i \<noteq> gi \<Longrightarrow> f i = Some (Some j) \<Longrightarrow> search_groups f gi gn i = Some (Some (i, j))"
  by (subst search_groups.simps) simp

lemma search_groups_next:
  "i \<noteq> gi \<Longrightarrow> gn \<noteq> 0 \<Longrightarrow> f i = Some None \<Longrightarrow>
     search_groups f gi gn i = search_groups f gi gn ((i + 1) mod gn)"
  by (subst search_groups.simps) simp

text \<open>The outer loop visits the groups after \<open>i\<close> cyclically until it is back at the start
  group; \<open>d\<close> is the number of groups still to visit.\<close>

lemma search_groups_spec:
  assumes f: "\<And>k. unat k < unat gn \<Longrightarrow> f k = Some (F (unat k))"
    and gi: "unat gi < unat gn" and "unat i < unat gn"
    and "d = (unat gi + unat gn - unat i) mod unat gn"
  shows "\<exists>r. search_groups f gi gn i = Some r \<and>
    (case r of Some (i', j) \<Rightarrow> unat i' < unat gn \<and> F (unat i') = Some j
             | None \<Rightarrow> \<forall>k<d. F ((unat i + k) mod unat gn) = None)"
  using assms(3,4)
proof (induction d arbitrary: i)
  case 0
  then have "unat gi = unat i"
    using gi cyclic_distance [of "unat gi" "unat gn" "unat i"] by (simp split: if_splits)
  then have "i = gi" by (simp add: word_unat_eq_iff)
  then show ?case by (simp add: search_groups_stop)
next
  case (Suc d)
  have ne: "i \<noteq> gi"
  proof
    assume "i = gi"
    with Suc.prems show False by simp
  qed
  let ?i = "(i + 1) mod gn"
  have "unat i + 1 < 2 ^ 32"
    using Suc.prems(1) unat_less_2p32 [of gn] by simp
  then have ui: "unat ?i = (unat i + 1) mod unat gn"
    by (simp add: unat_mod unat_word_ariths)
  have lt: "unat ?i < unat gn" using gi ui by simp
  have d: "d = (unat gi + unat gn - unat ?i) mod unat gn"
    using cyclic_step [OF gi Suc.prems(1) Suc.prems(2) [symmetric]] ui by simp
  have gn: "gn \<noteq> 0" using gi by auto
  show ?case
  proof (cases "F (unat i)")
    case (Some j)
    then show ?thesis
      using Suc.prems ne f [of i] by (simp add: search_groups_found)
  next
    case None
    then have eq: "search_groups f gi gn i = search_groups f gi gn ?i"
      using ne gn f [OF Suc.prems(1)] by (simp add: search_groups_next)
    obtain r where r: "search_groups f gi gn ?i = Some r"
      "case r of Some (i', j) \<Rightarrow> unat i' < unat gn \<and> F (unat i') = Some j
             | None \<Rightarrow> \<forall>k<d. F ((unat ?i + k) mod unat gn) = None"
      using Suc.IH [OF lt d] by blast
    have "F ((unat i + k) mod unat gn) = None" if "r = None" and "k < Suc d" for k
    proof (cases k)
      case 0
      then show ?thesis using None Suc.prems(1) by simp
    next
      case (Suc m)
      then have "(unat i + k) mod unat gn = (unat ?i + m) mod unat gn"
        using ui by (simp add: mod_simps)
      then show ?thesis using r(2) that Suc by simp
    qed
    then show ?thesis
      using eq r by (intro exI [of _ r]) (auto split: option.splits)
  qed
qed

section \<open>Allocation of inodes\<close>

abbreviation i_bits :: "kfs \<Rightarrow> nat \<Rightarrow> nat \<Rightarrow> bool" where
  "i_bits s g \<equiv> bit_of (bg_bitmap (bm_groups (i_bitmap s) ! g))"

abbreviation d_bits :: "kfs \<Rightarrow> nat \<Rightarrow> nat \<Rightarrow> bool" where
  "d_bits s g \<equiv> bit_of (bg_bitmap (bm_groups (d_bitmap s) ! g))"

lemma inode_scan_eq:
  assumes "bitmaps_ok s" and "unat g < n_groups (sb s)"
  shows "inode_scan s g = Some (List.find (\<lambda>i. \<not> i_bits s (unat g) i) [0..<ipg (sb s)])"
proof -
  have "8 * length (bg_bitmap (bm_groups (i_bitmap s) ! unat g)) = ipg (sb s)"
    using assms by (auto simp: bitmaps_ok_def)
  then show ?thesis
    using assms scan_eq [of 0 "ipg (sb s)" "BIT1 (bg_bitmap (bm_groups (i_bitmap s) ! unat g))"
        "\<lambda>i. \<not> i_bits s (unat g) i"]
    by (simp add: inode_scan_def bitmaps_ok_def BIT1_eq)
qed

lemma pblock_scan_eq:
  assumes "bitmaps_ok s" and "unat g < n_groups (sb s)"
  shows "pblock_scan s g = Some (List.find
    (cluster_free (bg_bitmap (bm_groups (d_bitmap s) ! unat g))) [0..<bpg (sb s) div 4])"
proof -
  let ?bm = "bg_bitmap (bm_groups (d_bitmap s) ! unat g)"
  have len: "8 * length ?bm = bpg (sb s)"
    using assms by (auto simp: bitmaps_ok_def)
  have "scan (BIT4 ?bm) 0 (bpg (sb s) div 4) =
      Some (List.find (cluster_free ?bm) [0..<0 + bpg (sb s) div 4])"
    by (rule scan_eq) (use len in \<open>simp add: BIT4_eq cluster_free_def\<close>)
  moreover have "unat (s_blocks_per_group (sb s) div EXT4_INODE_PBLOCK_NUM) = bpg (sb s) div 4"
    by (simp add: EXT4_INODE_PBLOCK_NUM_def unat_div)
  ultimately show ?thesis
    using assms by (simp add: pblock_scan_def bitmaps_ok_def)
qed

lemma inode_number:
  assumes "geom_ok sp" and "unat g < n_groups sp" and "i < ipg sp"
  shows "unat (g * s_inodes_per_group sp + word_of_nat i + 1) = unat g * ipg sp + i + 1"
    and "unat g * ipg sp + i + 1 \<le> n_groups sp * ipg sp"
proof -
  have "unat g * ipg sp + i + 1 \<le> Suc (unat g) * ipg sp" using assms(3) by simp
  also have "\<dots> \<le> n_groups sp * ipg sp" using assms(2) by (intro mult_le_mono1) simp
  finally show le: "unat g * ipg sp + i + 1 \<le> n_groups sp * ipg sp" .
  have lt: "n_groups sp * ipg sp < 2 ^ 32" using assms(1) by (simp add: geom_ok_def)
  have "unat (word_of_nat (unat g * ipg sp + i + 1) :: u32) = unat g * ipg sp + i + 1"
    using le lt by (simp only: unat_of_nat) simp
  then show "unat (g * s_inodes_per_group sp + word_of_nat i + 1) = unat g * ipg sp + i + 1"
    by (simp add: ac_simps)
qed

lemma block_number:
  assumes "geom_ok sp" and "unat g < n_groups sp" and "c < bpg sp div 4"
  shows "unat (ucast (g * s_blocks_per_group sp + word_of_nat c * EXT4_INODE_PBLOCK_NUM) :: u64) =
      unat g * bpg sp + 4 * c"
    and "unat g * bpg sp + 4 * c + 4 \<le> n_groups sp * bpg sp"
proof -
  have "unat g * bpg sp + 4 * c + 4 \<le> Suc (unat g) * bpg sp" using assms(3) by simp
  also have "\<dots> \<le> n_groups sp * bpg sp" using assms(2) by (intro mult_le_mono1) simp
  finally show le: "unat g * bpg sp + 4 * c + 4 \<le> n_groups sp * bpg sp" .
  have lt: "n_groups sp * bpg sp < 2 ^ 32" using assms(1) by (simp add: geom_ok_def)
  have "unat (word_of_nat (unat g * bpg sp + c * 4) :: u32) = unat g * bpg sp + 4 * c"
    using le lt by (simp only: unat_of_nat) simp
  then show "unat (ucast (g * s_blocks_per_group sp + word_of_nat c * EXT4_INODE_PBLOCK_NUM) :: u64) =
      unat g * bpg sp + 4 * c"
    by (simp add: unat_ucast_wider EXT4_INODE_PBLOCK_NUM_def)
qed

lemma inode_bit_group: "i < ipg (sb s) \<Longrightarrow> inode_bit s (g * ipg (sb s) + i + 1) = i_bits s g i"
  by (simp add: inode_bit_def)

lemma block_bit_group: "i < bpg (sb s) \<Longrightarrow> block_bit s (g * bpg (sb s) + i) = d_bits s g i"
  by (simp add: block_bit_def)

lemma all_groups_full_inodes:
  assumes "0 < ipg (sb s)" and "\<forall>g < n_groups (sb s). inode_group_full s g"
    and "1 \<le> n" and "n \<le> n_groups (sb s) * ipg (sb s)"
  shows "inode_bit s n"
proof -
  have "(n - 1) div ipg (sb s) < n_groups (sb s)"
    using assms by (simp add: div_less_iff_less_mult)
  with assms(1,2) show ?thesis
    by (simp add: inode_bit_def inode_group_full_def)
qed

text \<open>Starting next to the group of the parent, the loop reaches every other group.\<close>

lemma search_all_groups:
  assumes f: "\<And>k. unat k < unat gn \<Longrightarrow> f k = Some (F (unat k))"
    and "Suc (unat gi) < unat gn"
  shows "\<exists>r. search_groups f gi gn (gi + 1) = Some r \<and>
    (case r of Some (i, j) \<Rightarrow> unat i < unat gn \<and> F (unat i) = Some j
             | None \<Rightarrow> \<forall>k < unat gn. k \<noteq> unat gi \<longrightarrow> F k = None)"
proof -
  have gi1: "unat (gi + 1) = Suc (unat gi)"
    using assms(2) unat_less_2p32 [of gn] by (simp add: unat_word_ariths)
  let ?d = "(unat gi + unat gn - unat (gi + 1)) mod unat gn"
  have d: "?d = unat gn - 1"
    using assms(2) cyclic_distance [of "unat gi" "unat gn" "unat (gi + 1)"] gi1 by simp
  obtain r where r: "search_groups f gi gn (gi + 1) = Some r"
    "case r of Some (i', j) \<Rightarrow> unat i' < unat gn \<and> F (unat i') = Some j
             | None \<Rightarrow> \<forall>k<?d. F ((unat (gi + 1) + k) mod unat gn) = None"
    using search_groups_spec [of gn f F gi "gi + 1" ?d] f assms(2) gi1 by auto
  have "F k = None" if "r = None" "k < unat gn" "k \<noteq> unat gi" for k
  proof -
    let ?m = "if unat gi < k then k - Suc (unat gi) else k + unat gn - Suc (unat gi)"
    have "?m < unat gn - 1" and "(unat (gi + 1) + ?m) mod unat gn = k"
      using that(2,3) assms(2) gi1 by (auto simp: mod_if)
    then show ?thesis using r(2) that(1) d by force
  qed
  then show ?thesis using r by (intro exI [of _ r]) (auto split: option.splits)
qed

end
