(* ===== verification/Bitmap_Alloc.thy ===== *)
theory Bitmap_Alloc
  imports Bitmap
begin

text \<open>
  What the operations of \<open>src/bitmap.c\<close> promise: a locale for an allocator over the block
  groups, interpreted for inodes and for clusters of four blocks, and the correctness of the
  searches, of the marking, of the counters and of \<open>gdt_update\<close>.
\<close>

section \<open>Allocation by groups\<close>

text \<open>The two search functions have the same shape: look in the group of the parent inode,
  then in the others; \<open>find_unit\<close> is that shape, with the search of one group, the number
  given to a unit and the value for a full disk as parameters.\<close>

definition find_unit ::
  "(kfs \<Rightarrow> u32 \<Rightarrow> nat option option) \<Rightarrow> (ext4_super_block \<Rightarrow> u32 \<Rightarrow> nat \<Rightarrow> 'r) \<Rightarrow> 'r \<Rightarrow>
     u32 \<Rightarrow> kfs \<Rightarrow> 'r option" where
  "find_unit f number none p s = do {
     gi \<leftarrow> cdiv p (s_inodes_per_group (sb s));
     n \<leftarrow> EXT4_N_BLOCK_GROUPS (sb s);
     ASSERT (gi < ucast n);
     r \<leftarrow> f s gi;
     case r of
       Some i \<Rightarrow> Some (number (sb s) gi i)
     | None \<Rightarrow> do {
         r \<leftarrow> search_groups (f s) gi (ucast n) (gi + 1);
         case r of Some (i, j) \<Rightarrow> Some (number (sb s) i j) | None \<Rightarrow> Some none
       }
   }"

definition inode_no :: "ext4_super_block \<Rightarrow> u32 \<Rightarrow> nat \<Rightarrow> u32" where
  "inode_no sp g i = g * s_inodes_per_group sp + word_of_nat i + 1"

definition pblock_no :: "ext4_super_block \<Rightarrow> u32 \<Rightarrow> nat \<Rightarrow> u64" where
  "pblock_no sp g c = ucast (g * s_blocks_per_group sp + word_of_nat c * EXT4_INODE_PBLOCK_NUM)"

lemma bitmap_inode_find_unit: "bitmap_inode_find = find_unit inode_scan inode_no 0"
  by (intro ext) (unfold bitmap_inode_find_def find_unit_def inode_no_def Let_def, rule refl)

lemma bitmap_pblock_find_unit: "bitmap_pblock_find = find_unit pblock_scan pblock_no (- 1)"
  by (intro ext) (unfold bitmap_pblock_find_def find_unit_def pblock_no_def Let_def, rule refl)

text \<open>What an allocator over the block groups promises: the search of one group returns its
  first free unit, marking makes exactly that unit used, and units have distinct numbers,
  none of them the value for a full disk.\<close>

locale group_alloc =
  fixes f :: "kfs \<Rightarrow> u32 \<Rightarrow> nat option option"
    and unit_free :: "kfs \<Rightarrow> nat \<Rightarrow> nat \<Rightarrow> bool"
    and units :: "ext4_super_block \<Rightarrow> nat"
    and number :: "ext4_super_block \<Rightarrow> u32 \<Rightarrow> nat \<Rightarrow> 'r"
    and none :: 'r
    and mark :: "'r \<Rightarrow> kfs \<Rightarrow> kfs option"
  assumes scan_group: "bitmaps_ok s \<Longrightarrow> unat g < n_groups (sb s) \<Longrightarrow>
      f s g = Some (List.find (unit_free s (unat g)) [0..<units (sb s)])"
    and mark: "bitmaps_ok s \<Longrightarrow> unat g < n_groups (sb s) \<Longrightarrow> i < units (sb s) \<Longrightarrow>
      \<exists>s'. mark (number (sb s) g i) s = Some s' \<and> bitmaps_ok s' \<and> sb s' = sb s \<and>
        (\<forall>g' i'. g' < n_groups (sb s) \<longrightarrow> i' < units (sb s) \<longrightarrow>
          unit_free s' g' i' = (unit_free s g' i' \<and> (g', i') \<noteq> (unat g, i)))"
    and number_inj: "geom_ok sp \<Longrightarrow> unat g < n_groups sp \<Longrightarrow> unat g' < n_groups sp \<Longrightarrow>
      i < units sp \<Longrightarrow> i' < units sp \<Longrightarrow> number sp g i = number sp g' i' \<Longrightarrow> g = g' \<and> i = i'"
    and number_none: "geom_ok sp \<Longrightarrow> unat g < n_groups sp \<Longrightarrow> i < units sp \<Longrightarrow>
      number sp g i \<noteq> none"
begin

lemma find_unit_spec:
  assumes ok: "bitmaps_ok s" and p: "unat p div ipg (sb s) < n_groups (sb s)"
    and nolast: "Suc (unat p div ipg (sb s)) < n_groups (sb s) \<or>
      (\<exists>i < units (sb s). unit_free s (unat p div ipg (sb s)) i)"
  shows "(\<exists>g i. find_unit f number none p s = Some (number (sb s) g i) \<and>
        unat g < n_groups (sb s) \<and> i < units (sb s) \<and> unit_free s (unat g) i) \<or>
      find_unit f number none p s = Some none \<and>
        (\<forall>g < n_groups (sb s). \<forall>i < units (sb s). \<not> unit_free s g i)"
proof -
  have g: "geom_ok (sb s)" using ok by (simp add: bitmaps_ok_def)
  let ?gi = "p div s_inodes_per_group (sb s)"
  let ?gn = "ucast (word_of_nat (n_groups (sb s)) :: u64) :: u32"
  let ?F = "\<lambda>g. List.find (unit_free s g) [0..<units (sb s)]"
  note gn = geom_okD(2) [OF g]
  have gi: "unat ?gi < unat ?gn" using p gn by (simp add: unat_div)
  have f: "f s k = Some (?F (unat k))" if "unat k < unat ?gn" for k
    using scan_group [OF ok] that gn by simp
  have eq: "find_unit f number none p s = (case ?F (unat ?gi) of
       Some i \<Rightarrow> Some (number (sb s) ?gi i)
     | None \<Rightarrow> do {
         r \<leftarrow> search_groups (f s) ?gi ?gn (?gi + 1);
         case r of Some (i, j) \<Rightarrow> Some (number (sb s) i j) | None \<Rightarrow> Some none })"
    using geom_okD [OF g] f [OF gi] gi by (simp add: find_unit_def word_less_nat_alt)
  show ?thesis
  proof (cases "?F (unat ?gi)")
    case (Some i)
    then have "find_unit f number none p s = Some (number (sb s) ?gi i)"
      by (simp only: eq option.case)
    moreover have "i < units (sb s)" "unit_free s (unat ?gi) i"
      using Some by (simp_all add: find_upt_Some)
    ultimately show ?thesis using gi gn by auto
  next
    case None
    then have "\<forall>i < units (sb s). \<not> unit_free s (unat ?gi) i" by (simp add: find_upt_None)
    then have "Suc (unat ?gi) < unat ?gn"
      using nolast gn by (auto simp: unat_div)
    from search_all_groups [where F = ?F, OF f this] obtain r
      where r: "search_groups (f s) ?gi ?gn (?gi + 1) = Some r"
        "case r of Some (i, j) \<Rightarrow> unat i < unat ?gn \<and> ?F (unat i) = Some j
             | None \<Rightarrow> \<forall>k < unat ?gn. k \<noteq> unat ?gi \<longrightarrow> ?F k = None"
      by blast
    have eq': "find_unit f number none p s =
        (case r of Some (i, j) \<Rightarrow> Some (number (sb s) i j) | None \<Rightarrow> Some none)"
      using None r(1) by (simp only: eq option.case bind.bind_lunit)
    show ?thesis
    proof (cases r)
      case None
      then have "?F k = None" if "k < unat ?gn" for k
        using r(2) \<open>?F (unat ?gi) = None\<close> that by (cases "k = unat ?gi") auto
      then show ?thesis using None eq' gn by (simp add: find_upt_None)
    next
      case (Some ij)
      then show ?thesis using r(2) eq' gn by (cases ij) (auto simp: find_upt_Some)
    qed
  qed
qed

lemma find_then_mark:
  assumes "bitmaps_ok s" and "unat p div ipg (sb s) < n_groups (sb s)"
    and "Suc (unat p div ipg (sb s)) < n_groups (sb s) \<or>
      (\<exists>i < units (sb s). unit_free s (unat p div ipg (sb s)) i)"
    and "find_unit f number none p s = Some r" and "r \<noteq> none"
  shows "\<exists>g i s'. r = number (sb s) g i \<and> unat g < n_groups (sb s) \<and> i < units (sb s) \<and>
    unit_free s (unat g) i \<and> mark r s = Some s' \<and> bitmaps_ok s' \<and> sb s' = sb s \<and>
    (\<forall>g' i'. g' < n_groups (sb s) \<longrightarrow> i' < units (sb s) \<longrightarrow>
          unit_free s' g' i' = (unit_free s g' i' \<and> (g', i') \<noteq> (unat g, i)))"
  using find_unit_spec [OF assms(1-3)] mark [OF assms(1)] assms(4,5) by auto blast

text \<open>Allocating twice, from any two parents, never hands out the same unit.\<close>

lemma alloc_distinct:
  assumes s: "bitmaps_ok s" "unat p div ipg (sb s) < n_groups (sb s)"
      "Suc (unat p div ipg (sb s)) < n_groups (sb s) \<or>
        (\<exists>i < units (sb s). unit_free s (unat p div ipg (sb s)) i)"
    and r: "find_unit f number none p s = Some r" "r \<noteq> none" "mark r s = Some s'"
    and q: "unat q div ipg (sb s) < n_groups (sb s)"
      "Suc (unat q div ipg (sb s)) < n_groups (sb s) \<or>
        (\<exists>i < units (sb s). unit_free s' (unat q div ipg (sb s)) i)"
    and r': "find_unit f number none q s' = Some r'" "r' \<noteq> none"
  shows "r' \<noteq> r"
proof -
  obtain g i where gi: "r = number (sb s) g i" "unat g < n_groups (sb s)" "i < units (sb s)"
      "bitmaps_ok s'" "sb s' = sb s" "\<not> unit_free s' (unat g) i"
    using find_then_mark [OF s r(1,2)] r(3) by auto
  then obtain g' i' where "r' = number (sb s) g' i'" "unat g' < n_groups (sb s)"
      "i' < units (sb s)" "unit_free s' (unat g') i'"
    using find_then_mark [of s' q r'] q r' by auto
  with gi show ?thesis
    using number_inj [of "sb s" g g' i i'] s(1) by (auto simp: bitmaps_ok_def)
qed

end

section \<open>The inode allocator and the block allocator\<close>

lemma inode_no_eq:
  assumes "geom_ok sp" and "unat g < n_groups sp" and "i < ipg sp"
  shows "unat (inode_no sp g i) = unat g * ipg sp + i + 1" and "inode_no sp g i \<noteq> 0"
proof -
  show "unat (inode_no sp g i) = unat g * ipg sp + i + 1"
    using inode_number(1) [OF assms] by (simp add: inode_no_def)
  then show "inode_no sp g i \<noteq> 0" by (metis add_gr_0 less_numeral_extra(1,3) unat_0)
qed

lemma pblock_no_eq:
  assumes "geom_ok sp" and "unat g < n_groups sp" and "c < bpg sp div 4"
  shows "unat (pblock_no sp g c) = unat g * bpg sp + 4 * c" and "unat (pblock_no sp g c) < 2 ^ 32"
  using block_number [OF assms] assms(1) by (simp_all add: pblock_no_def geom_ok_def)

lemma group_unit_unique:
  fixes g g' i i' n :: nat
  assumes "g * n + i = g' * n + i'" and "i < n" and "i' < n"
  shows "g = g' \<and> i = i'"
proof -
  have "(a * n + b) div n = a" and "(a * n + b) mod n = b" if "b < n" for a b :: nat
    using that by auto
  then show ?thesis using assms by metis
qed

lemma bitmap_inode_set_eq:
  assumes ok: "bitmaps_ok s" and g: "unat g < n_groups (sb s)" and i: "i < ipg (sb s)"
  shows "\<exists>bm. SET_BIT1 (bg_bitmap (bm_groups (i_bitmap s) ! unat g)) i v = Some bm \<and>
    bitmap_inode_set (inode_no (sb s) g i) v s =
      Some (s\<lparr>i_bitmap := (i_bitmap s)\<lparr>bm_groups := (bm_groups (i_bitmap s))[unat g :=
        (bm_groups (i_bitmap s) ! unat g)\<lparr>bg_bitmap := bm, bg_dirty := True\<rparr>]\<rparr>\<rparr>)"
proof -
  have gm: "geom_ok (sb s)" using ok by (simp add: bitmaps_ok_def)
  let ?n = "inode_no (sb s) g i"
  have n: "unat ?n = unat g * ipg (sb s) + i + 1" "?n \<noteq> 0"
    using inode_no_eq [OF gm g i] .
  then have n1: "unat (?n - 1) = unat g * ipg (sb s) + i"
    by (simp add: unat_minus_one)
  have gi: "(?n - 1) div s_inodes_per_group (sb s) = g"
    using n1 i by (simp add: word_unat_eq_iff unat_div)
  have ii: "unat ((?n - 1) mod s_inodes_per_group (sb s)) = i"
    using n1 i by (simp add: unat_mod)
  have len: "8 * length (bg_bitmap (bm_groups (i_bitmap s) ! unat g)) = ipg (sb s)"
    using ok g by (simp add: bitmaps_ok_def)
  obtain bm where bm: "SET_BIT1 (bg_bitmap (bm_groups (i_bitmap s) ! unat g)) i v = Some bm"
    using SET_BIT1_eq [of i "bg_bitmap (bm_groups (i_bitmap s) ! unat g)" v] len i by auto
  have "index (bm_groups (i_bitmap s)) (unat g) = Some (bm_groups (i_bitmap s) ! unat g)"
    using ok g by (simp add: bitmaps_ok_def)
  then show ?thesis
    using bm gi ii n(2) g geom_okD [OF gm]
    by (simp add: bitmap_inode_set_def word_less_nat_alt)
qed

lemma bitmap_inode_set_bits:
  assumes ok: "bitmaps_ok s" and g: "unat g < n_groups (sb s)" and i: "i < ipg (sb s)"
  shows "\<exists>s'. bitmap_inode_set (inode_no (sb s) g i) v s = Some s' \<and> bitmaps_ok s' \<and>
    s' = s\<lparr>i_bitmap := i_bitmap s'\<rparr> \<and>
    (\<forall>g' i'. g' < n_groups (sb s) \<longrightarrow> i' < ipg (sb s) \<longrightarrow>
      i_bits s' g' i' = (if (g', i') = (unat g, i) then v else i_bits s g' i'))"
proof -
  let ?bm = "bg_bitmap (bm_groups (i_bitmap s) ! unat g)"
  have len: "8 * length ?bm = ipg (sb s)" using ok g by (simp add: bitmaps_ok_def)
  obtain bm where bm: "SET_BIT1 ?bm i v = Some bm" and
    eq: "bitmap_inode_set (inode_no (sb s) g i) v s =
      Some (s\<lparr>i_bitmap := (i_bitmap s)\<lparr>bm_groups := (bm_groups (i_bitmap s))[unat g :=
        (bm_groups (i_bitmap s) ! unat g)\<lparr>bg_bitmap := bm, bg_dirty := True\<rparr>]\<rparr>\<rparr>)"
    using bitmap_inode_set_eq [OF assms] by blast
  have bits: "length bm = length ?bm"
    "\<forall>m < ipg (sb s). bit_of bm m = (if m = i then v else bit_of ?bm m)"
    using SET_BIT1_eq [of i ?bm v] len i bm by auto
  have "bitmaps_ok (s\<lparr>i_bitmap := (i_bitmap s)\<lparr>bm_groups := (bm_groups (i_bitmap s))[unat g :=
        (bm_groups (i_bitmap s) ! unat g)\<lparr>bg_bitmap := bm, bg_dirty := True\<rparr>]\<rparr>\<rparr>)"
    using ok len bits(1) by (auto simp: bitmaps_ok_def dest: set_update_subset_insert [THEN subsetD])
  then show ?thesis
    using eq bits(2) ok g by (auto simp: bitmaps_ok_def nth_list_update)
qed

lemma bitmap_pblock_set_bits:
  fixes g :: u32
  assumes ok: "bitmaps_ok s" and g: "unat g < n_groups (sb s)" and i: "i < bpg (sb s)"
    and b: "unat b = unat g * bpg (sb s) + i"
  shows "\<exists>s'. bitmap_pblock_set b 4 v s = Some s' \<and> bitmaps_ok s' \<and>
    s' = s\<lparr>d_bitmap := d_bitmap s'\<rparr> \<and>
    (\<forall>g' i'. g' < n_groups (sb s) \<longrightarrow> i' < bpg (sb s) \<longrightarrow>
      d_bits s' g' i' = (if (g', i' div 4) = (unat g, i div 4) then v else d_bits s g' i'))"
proof -
  have gm: "geom_ok (sb s)" using ok by (simp add: bitmaps_ok_def)
  let ?bm = "bg_bitmap (bm_groups (d_bitmap s) ! unat g)" and ?c = "i div 4"
  let ?b = "ucast (s_blocks_per_group (sb s)) :: u64"
  have len: "8 * length ?bm = bpg (sb s)" using ok g by (simp add: bitmaps_ok_def)
  have c: "?c < 2 * length ?bm" using i len by linarith
  have ub: "unat ?b = bpg (sb s)" by (simp add: unat_ucast_wider)
  have "unat (b div ?b) = unat g" "unat (b mod ?b) = i"
    using b i by (simp_all add: unat_div unat_mod ub)
  then have gi: "(ucast (b div ?b) :: u32) = g"
    and ii: "unat ((ucast (b mod ?b) :: u32) div EXT4_INODE_PBLOCK_NUM) = ?c"
    using unat_less_2p32 [of g] i unat_less_2p32 [of "s_blocks_per_group (sb s)"]
    by (simp_all add: word_unat_eq_iff unat_div unat_ucast_narrow EXT4_INODE_PBLOCK_NUM_def)
  obtain bm where bm: "SET_BIT4 ?bm ?c v = Some bm" "length bm = length ?bm"
    "\<forall>m < bpg (sb s). bit_of bm m = (if m div 4 = ?c then v else bit_of ?bm m)"
    using SET_BIT4_eq [of ?c ?bm v] c len by auto
  let ?s = "s\<lparr>d_bitmap := (d_bitmap s)\<lparr>bm_groups := (bm_groups (d_bitmap s))[unat g :=
        (bm_groups (d_bitmap s) ! unat g)\<lparr>bg_bitmap := bm, bg_dirty := True\<rparr>]\<rparr>\<rparr>"
  have nz: "?b \<noteq> 0" using ub i by auto
  have "bitmap_pblock_set b 4 v s = Some ?s"
    using ok g bm(1) gi ii geom_okD [OF gm] nz
    by (simp add: bitmap_pblock_set_def word_less_nat_alt bitmaps_ok_def)
  moreover have "bitmaps_ok ?s"
    using ok len bm(2) by (auto simp: bitmaps_ok_def dest: set_update_subset_insert [THEN subsetD])
  ultimately show ?thesis
    using bm(3) ok g by (auto simp: bitmaps_ok_def nth_list_update)
qed

text \<open>The record of the group that a marking changes: new bits and the dirty flag.\<close>

lemma bitmap_inode_set_frame:
  assumes "bitmap_inode_set n v s = Some s'" and "unat n \<noteq> 0"
  shows "\<exists>bm. i_bitmap s' = (i_bitmap s)\<lparr>bm_groups := (bm_groups (i_bitmap s))[(unat n - 1) div ipg (sb s) :=
    (bm_groups (i_bitmap s) ! ((unat n - 1) div ipg (sb s)))\<lparr>bg_bitmap := bm, bg_dirty := True\<rparr>]\<rparr>"
proof -
  have "unat ((n - 1) div s_inodes_per_group (sb s)) = (unat n - 1) div ipg (sb s)"
    using assms(2) by (simp add: unat_div unat_sub_if' word_le_nat_alt Suc_le_eq)
  then show ?thesis
    using assms(1) by (auto simp: bitmap_inode_set_def Let_def bind_eq_Some_conv index_def split: if_splits)
qed

lemma bitmap_pblock_set_frame:
  assumes "bitmap_pblock_set b 4 v s = Some s'" and "unat b div bpg (sb s) < 2 ^ 32"
  shows "\<exists>bm. d_bitmap s' = (d_bitmap s)\<lparr>bm_groups := (bm_groups (d_bitmap s))[unat b div bpg (sb s) :=
    (bm_groups (d_bitmap s) ! (unat b div bpg (sb s)))\<lparr>bg_bitmap := bm, bg_dirty := True\<rparr>]\<rparr>"
proof -
  have "unat (ucast (b div ucast (s_blocks_per_group (sb s))) :: u32) = unat b div bpg (sb s)"
    using assms(2) by (simp add: unat_ucast_narrow unat_div unat_ucast_wider)
  then show ?thesis
    using assms(1) by (auto simp: bitmap_pblock_set_def Let_def bind_eq_Some_conv index_def split: if_splits)
qed

interpretation inode_alloc: group_alloc inode_scan "\<lambda>s g i. \<not> i_bits s g i"
  "\<lambda>sp. ipg sp" inode_no 0 "\<lambda>n. bitmap_inode_set n True"
proof unfold_locales
  fix s :: kfs and g :: u32 and i :: nat
  assume "bitmaps_ok s" and g: "unat g < n_groups (sb s)" and i: "i < ipg (sb s)"
  then obtain s' where "bitmap_inode_set (inode_no (sb s) g i) True s = Some s'" "bitmaps_ok s'"
    and eq: "s' = s\<lparr>i_bitmap := i_bitmap s'\<rparr>" and
    "\<forall>g' i'. g' < n_groups (sb s) \<longrightarrow> i' < ipg (sb s) \<longrightarrow>
      i_bits s' g' i' = (if (g', i') = (unat g, i) then True else i_bits s g' i')"
    using bitmap_inode_set_bits by blast
  moreover have "sb s' = sb s" using arg_cong [OF eq, of sb] by simp
  ultimately show "\<exists>s'. bitmap_inode_set (inode_no (sb s) g i) True s = Some s' \<and> bitmaps_ok s' \<and>
      sb s' = sb s \<and> (\<forall>g' i'. g' < n_groups (sb s) \<longrightarrow> i' < ipg (sb s) \<longrightarrow>
        (\<not> i_bits s' g' i') = (\<not> i_bits s g' i' \<and> (g', i') \<noteq> (unat g, i)))"
    by auto
next
  fix sp :: ext4_super_block and g g' :: u32 and i i' :: nat
  assume "geom_ok sp" "unat g < n_groups sp" "unat g' < n_groups sp" "i < ipg sp" "i' < ipg sp"
    "inode_no sp g i = inode_no sp g' i'"
  then show "g = g' \<and> i = i'"
    using inode_no_eq(1) [of sp g i] inode_no_eq(1) [of sp g' i']
      group_unit_unique [of "unat g" "ipg sp" i "unat g'" i'] by (simp add: word_unat_eq_iff)
qed (simp_all add: inode_scan_eq inode_no_eq)

interpretation pblock_alloc: group_alloc pblock_scan
  "\<lambda>s g. cluster_free (bg_bitmap (bm_groups (d_bitmap s) ! g))"
  "\<lambda>sp. bpg sp div 4" pblock_no "- 1" "\<lambda>n. bitmap_pblock_set n 4 True"
proof unfold_locales
  fix s :: kfs and g :: u32 and c :: nat
  assume "bitmaps_ok s" and g: "unat g < n_groups (sb s)" and c: "c < bpg (sb s) div 4"
  have "geom_ok (sb s)" using \<open>bitmaps_ok s\<close> by (simp add: bitmaps_ok_def)
  moreover have "4 * c < bpg (sb s)" using c by linarith
  ultimately obtain s' where s': "bitmap_pblock_set (pblock_no (sb s) g c) 4 True s = Some s'" "bitmaps_ok s'"
    and eq: "s' = s\<lparr>d_bitmap := d_bitmap s'\<rparr>" and
    bits: "\<forall>g' i'. g' < n_groups (sb s) \<longrightarrow> i' < bpg (sb s) \<longrightarrow>
      d_bits s' g' i' = (if (g', i' div 4) = (unat g, c) then True else d_bits s g' i')"
    using bitmap_pblock_set_bits [OF \<open>bitmaps_ok s\<close> g, of "4 * c" "pblock_no (sb s) g c" True]
      pblock_no_eq(1) [OF _ g c] by auto
  have "sb s' = sb s" using arg_cong [OF eq, of sb] by simp
  moreover have "cluster_free (bg_bitmap (bm_groups (d_bitmap s') ! g')) c' =
      (cluster_free (bg_bitmap (bm_groups (d_bitmap s) ! g')) c' \<and> (g', c') \<noteq> (unat g, c))"
    if "g' < n_groups (sb s)" "c' < bpg (sb s) div 4" for g' c'
  proof -
    have "4 * c' + k < bpg (sb s) \<and> (4 * c' + k) div 4 = c'" if "k < 4" for k
      using \<open>c' < bpg (sb s) div 4\<close> that by auto
    then show ?thesis
      using bits that exI [of "\<lambda>k :: nat. k < 4" 0] by (auto simp: cluster_free_def)
  qed
  ultimately show "\<exists>s'. bitmap_pblock_set (pblock_no (sb s) g c) 4 True s = Some s' \<and> bitmaps_ok s' \<and>
      sb s' = sb s \<and> (\<forall>g' i'. g' < n_groups (sb s) \<longrightarrow> i' < bpg (sb s) div 4 \<longrightarrow>
        cluster_free (bg_bitmap (bm_groups (d_bitmap s') ! g')) i' =
        (cluster_free (bg_bitmap (bm_groups (d_bitmap s) ! g')) i' \<and> (g', i') \<noteq> (unat g, c)))"
    using s' by blast
next
  fix sp :: ext4_super_block and g g' :: u32 and c c' :: nat
  assume "geom_ok sp" "unat g < n_groups sp" "unat g' < n_groups sp" "c < bpg sp div 4"
    "c' < bpg sp div 4" "pblock_no sp g c = pblock_no sp g' c'"
  then show "g = g' \<and> c = c'"
    using pblock_no_eq(1) [of sp g c] pblock_no_eq(1) [of sp g' c']
      group_unit_unique [of "unat g" "bpg sp" "4 * c" "unat g'" "4 * c'"] by (simp add: word_unat_eq_iff)
next
  fix sp :: ext4_super_block and g :: u32 and c :: nat
  assume "geom_ok sp" "unat g < n_groups sp" "c < bpg sp div 4"
  then show "pblock_no sp g c \<noteq> - 1"
    using pblock_no_eq(2) [of sp g c]
    by (auto simp: unsigned_minus_1_eq_mask mask_eq_exp_minus_1)
qed (simp add: pblock_scan_eq)

section \<open>What the bitmap operations do\<close>

lemma inode_group_free_iff:
  "(\<exists>i < ipg (sb s). \<not> i_bits s g i) \<longleftrightarrow> \<not> inode_group_full s g"
  by (auto simp: inode_group_full_def)

lemma block_group_free_iff:
  "(\<exists>c < bpg (sb s) div 4. cluster_free (bg_bitmap (bm_groups (d_bitmap s) ! g)) c) \<longleftrightarrow>
     \<not> block_group_full s g"
  by (auto simp: block_group_full_def)

lemma inode_bit_no:
  "geom_ok (sb s) \<Longrightarrow> unat g < n_groups (sb s) \<Longrightarrow> i < ipg (sb s) \<Longrightarrow>
     inode_bit s (unat (inode_no (sb s) g i)) = i_bits s (unat g) i"
  using inode_no_eq(1) inode_bit_group by simp

lemma cluster_free_block_bits:
  assumes "geom_ok (sb s)" "unat g < n_groups (sb s)" "c < bpg (sb s) div 4"
  shows "cluster_free (bg_bitmap (bm_groups (d_bitmap s) ! unat g)) c \<longleftrightarrow>
    (\<forall>k<4. \<not> block_bit s (unat (pblock_no (sb s) g c) + k))"
proof -
  have "4 * c + k < bpg (sb s)" if "k < 4" for k using assms(3) that by auto
  then show ?thesis
    using block_bit_group [of "4 * c + _" s "unat g"]
    by (auto simp: cluster_free_def pblock_no_eq [OF assms] add.assoc)
qed

lemma inode_no_surj:
  assumes "geom_ok sp" and "1 \<le> unat n" and "unat n \<le> n_groups sp * ipg sp"
  obtains g i where "n = inode_no sp g i" "unat g < n_groups sp" "i < ipg sp"
    "unat g = (unat n - 1) div ipg sp" "i = (unat n - 1) mod ipg sp"
proof
  let ?g = "word_of_nat ((unat n - 1) div ipg sp) :: u32" and ?i = "(unat n - 1) mod ipg sp"
  have ipg: "0 < ipg sp" using assms(1) by (simp add: geom_ok_def)
  have lt: "(unat n - 1) div ipg sp < n_groups sp"
    using assms(2,3) ipg by (simp add: div_less_iff_less_mult)
  then show g: "unat ?g = (unat n - 1) div ipg sp"
    using geom_okD(3) [OF assms(1)] by (simp add: unat_of_nat)
  show i: "?i < ipg sp" using ipg by simp
  show "unat ?g < n_groups sp" using lt g by simp
  then have "unat (inode_no sp ?g ?i) = unat n"
    using inode_no_eq(1) [OF assms(1) _ i, of ?g] g assms(2) by (simp add: div_mult_mod_eq)
  then show "n = inode_no sp ?g ?i" by (simp add: word_unat_eq_iff)
qed simp

lemma inode_find_sound_complete:
  assumes "bitmaps_ok s" and "unat p div ipg (sb s) < n_groups (sb s)"
    and "Suc (unat p div ipg (sb s)) < n_groups (sb s) \<or>
      \<not> inode_group_full s (unat p div ipg (sb s))"
  shows "\<exists>r. bitmap_inode_find p s = Some r \<and>
    (if r = 0 then \<forall>n. 1 \<le> n \<and> n \<le> n_groups (sb s) * ipg (sb s) \<longrightarrow> inode_bit s n
     else unat r \<le> n_groups (sb s) * ipg (sb s) \<and> \<not> inode_bit s (unat r))"
proof -
  have gm: "geom_ok (sb s)" using assms(1) by (simp add: bitmaps_ok_def)
  have "(\<exists>g i. bitmap_inode_find p s = Some (inode_no (sb s) g i) \<and> unat g < n_groups (sb s) \<and>
        i < ipg (sb s) \<and> \<not> i_bits s (unat g) i) \<or>
      bitmap_inode_find p s = Some 0 \<and> (\<forall>g < n_groups (sb s). inode_group_full s g)"
    using inode_alloc.find_unit_spec [OF assms(1,2)] assms(3)
    by (simp add: bitmap_inode_find_unit inode_group_free_iff) (auto simp: inode_group_full_def)
  then show ?thesis
  proof (elim disjE exE conjE)
    fix g i
    assume "bitmap_inode_find p s = Some (inode_no (sb s) g i)" "unat g < n_groups (sb s)"
      "i < ipg (sb s)" "\<not> i_bits s (unat g) i"
    then show ?thesis
      using inode_no_eq [OF gm] inode_bit_no [OF gm] inode_number(2) [OF gm] by simp
  next
    assume "bitmap_inode_find p s = Some 0" "\<forall>g < n_groups (sb s). inode_group_full s g"
    then show ?thesis
      using all_groups_full_inodes [OF geom_okD(5) [OF gm]] by simp
  qed
qed

text \<open>C18: \<open>bitmap_inode_find\<close> terminates and is correct when the group of the parent is not the
  last one or has a free inode: it returns an inode number that is in range and free in
  the inode bitmap, and it returns 0 only when every inode of the image is in use.\<close>

theorem bitmap_inode_find_correct:
  assumes "bitmaps_ok s" and "unat p div ipg (sb s) < n_groups (sb s)"
    and "Suc (unat p div ipg (sb s)) < n_groups (sb s) \<or>
      \<not> inode_group_full s (unat p div ipg (sb s))"
  shows "\<exists>r. bitmap_inode_find p s = Some r \<and>
    (if r = 0 then \<forall>n. 1 \<le> n \<and> n \<le> n_groups (sb s) * ipg (sb s) \<longrightarrow> inode_bit s n
     else unat r \<le> n_groups (sb s) * ipg (sb s) \<and> \<not> inode_bit s (unat r))"
  by (rule inode_find_sound_complete [OF assms])

lemmas sample_geom = sample_kfs_def sample_sb_def sample_bitmap_def n_groups_def
  EXT4_N_BLOCK_GROUPS_def EXT4_BLOCK_COUNT_def

lemma sample_n_groups [simp]: "n_groups (sb sample_kfs) = 2" "ipg (sb sample_kfs) = 8"
    "bpg (sb sample_kfs) = 16"
  by (simp_all add: sample_geom cdiv_def)

lemma sample_bitmaps_ok [simp]: "bitmaps_ok sample_kfs"
  by (simp add: bitmaps_ok_def geom_ok_def)
     (simp add: sample_kfs_def sample_bitmap_def)

theorem bitmap_inode_find_correct_witness:
  "\<exists>r. bitmap_inode_find 2 sample_kfs = Some r \<and>
    (if r = 0 then \<forall>n. 1 \<le> n \<and> n \<le> n_groups (sb sample_kfs) * ipg (sb sample_kfs) \<longrightarrow>
       inode_bit sample_kfs n
     else unat r \<le> n_groups (sb sample_kfs) * ipg (sb sample_kfs) \<and>
       \<not> inode_bit sample_kfs (unat r))"
  by (rule bitmap_inode_find_correct) simp_all

text \<open>C34: When the parent lies in the last group and that group is full, \<open>bitmap_inode_find\<close> starts
  its second loop at the index one past the last group and reads outside the bitmap array, even
  if another group has free inodes.\<close>

theorem bitmap_inode_find_last_group_full:
  assumes "bitmaps_ok s" and "Suc (unat p div ipg (sb s)) = n_groups (sb s)"
    and "inode_group_full s (unat p div ipg (sb s))"
  shows "bitmap_inode_find p s = None"
proof -
  have gm: "geom_ok (sb s)" using assms(1) by (simp add: bitmaps_ok_def)
  let ?gi = "p div s_inodes_per_group (sb s)"
  have gi: "Suc (unat ?gi) = n_groups (sb s)" using assms(2) by (simp add: unat_div)
  then have gi1: "unat (?gi + 1) = n_groups (sb s)"
    using geom_okD(3) [OF gm] by (simp add: unat_word_ariths)
  have "inode_scan s ?gi = Some None"
    using inode_scan_eq [OF assms(1), of ?gi] gi assms(3)
    by (simp add: find_upt_None inode_group_full_def unat_div)
  moreover have "inode_scan s (?gi + 1) = None"
    using gi1 assms(1) by (simp add: inode_scan_def bitmaps_ok_def index_def)
  moreover have "?gi + 1 \<noteq> ?gi" by simp
  ultimately have "search_groups (inode_scan s) ?gi gn (?gi + 1) = None" for gn
    by (subst search_groups.simps) simp
  then show ?thesis
    using \<open>inode_scan s ?gi = Some None\<close> geom_okD [OF gm] gi
    by (simp add: bitmap_inode_find_def word_less_nat_alt)
qed

definition sample_full_kfs :: kfs where
  "sample_full_kfs = sample_kfs\<lparr>i_bitmap := sample_bitmap [[0x07], [0xff]]\<rparr>"

lemma sample_full_ok [simp]: "bitmaps_ok sample_full_kfs" "sb sample_full_kfs = sb sample_kfs"
    "inode_group_full sample_full_kfs (Suc 0)"
proof -
  show sb: "sb sample_full_kfs = sb sample_kfs" by (simp add: sample_full_kfs_def)
  show "bitmaps_ok sample_full_kfs"
    by (simp add: bitmaps_ok_def geom_ok_def sb)
       (simp add: sample_full_kfs_def sample_kfs_def sample_bitmap_def)
  have "bit (0xff :: u8) i" if "i < 8" for i
  proof -
    have "(0xff :: u8) = mask 8" by (simp add: mask_eq_exp_minus_1)
    then show ?thesis using that by (simp only: bit_mask_iff) simp
  qed
  then show "inode_group_full sample_full_kfs (Suc 0)"
    by (simp add: inode_group_full_def sb bit_of_def)
       (simp add: sample_full_kfs_def sample_bitmap_def)
qed

theorem bitmap_inode_find_last_group_full_witness:
  "bitmap_inode_find 8 sample_full_kfs = None \<and> \<not> inode_bit sample_full_kfs 4"
proof
  show "bitmap_inode_find 8 sample_full_kfs = None"
    by (rule bitmap_inode_find_last_group_full) simp_all
  show "\<not> inode_bit sample_full_kfs 4"
    by (simp add: inode_bit_def bit_of_def)
       (simp add: sample_full_kfs_def sample_bitmap_def bit_numeral_rec)
qed

text \<open>C20: Allocating an inode marks exactly that inode: \<open>bitmap_inode_set\<close> on a number in range
  returns, sets its bit to \<open>is_used\<close> and marks its group dirty. It leaves every other inode bit, the
  position of the group on the disk, every other group, the block bitmap and all other globals as
  they were, and keeps the shape of the bitmaps.\<close>

theorem bitmap_inode_set_correct:
  assumes "bitmaps_ok s" and "1 \<le> unat n" and "unat n \<le> n_groups (sb s) * ipg (sb s)"
  shows "\<exists>s' bm. bitmap_inode_set n is_used s = Some s' \<and> bitmaps_ok s' \<and>
    s' = s\<lparr>i_bitmap := i_bitmap s'\<rparr> \<and>
    i_bitmap s' = (i_bitmap s)\<lparr>bm_groups := (bm_groups (i_bitmap s))[(unat n - 1) div ipg (sb s) :=
      (bm_groups (i_bitmap s) ! ((unat n - 1) div ipg (sb s)))\<lparr>bg_bitmap := bm, bg_dirty := True\<rparr>]\<rparr> \<and>
    (\<forall>m. 1 \<le> m \<and> m \<le> n_groups (sb s) * ipg (sb s) \<longrightarrow>
      inode_bit s' m = (if m = unat n then is_used else inode_bit s m))"
proof -
  have gm: "geom_ok (sb s)" using assms(1) by (simp add: bitmaps_ok_def)
  obtain g i where n: "n = inode_no (sb s) g i" "unat g < n_groups (sb s)" "i < ipg (sb s)"
      "unat g = (unat n - 1) div ipg (sb s)" "i = (unat n - 1) mod ipg (sb s)"
    using inode_no_surj [OF gm assms(2,3)] .
  obtain s' where s': "bitmap_inode_set n is_used s = Some s'" "bitmaps_ok s'"
      "s' = s\<lparr>i_bitmap := i_bitmap s'\<rparr>" and bits:
      "\<forall>g' i'. g' < n_groups (sb s) \<longrightarrow> i' < ipg (sb s) \<longrightarrow>
        i_bits s' g' i' = (if (g', i') = (unat g, i) then is_used else i_bits s g' i')"
    using bitmap_inode_set_bits [OF assms(1) n(2,3)] n(1) by blast
  have sb: "sb s' = sb s" using arg_cong [OF s'(3), of sb] by simp
  have "inode_bit s' m = (if m = unat n then is_used else inode_bit s m)"
    if "1 \<le> m" "m \<le> n_groups (sb s) * ipg (sb s)" for m
  proof -
    have "(m - 1) div ipg (sb s) < n_groups (sb s)"
      using that geom_okD(5) [OF gm] by (simp add: div_less_iff_less_mult)
    moreover have "m = unat n"
      if "(m - 1) div ipg (sb s) = unat g" "(m - 1) mod ipg (sb s) = i"
    proof -
      have "m - 1 = unat n - 1" using that n(4,5) by (metis div_mult_mod_eq)
      then show ?thesis using \<open>1 \<le> m\<close> assms(2) by simp
    qed
    ultimately show ?thesis
      using bits n(4,5) geom_okD(5) [OF gm] by (auto simp: inode_bit_def sb)
  qed
  then show ?thesis using s' bitmap_inode_set_frame [OF s'(1)] assms(2) by auto
qed

theorem bitmap_inode_set_correct_witness:
  "\<exists>s'. bitmap_inode_set 12 True sample_kfs = Some s' \<and> bitmaps_ok s' \<and>
    s' = sample_kfs\<lparr>i_bitmap := i_bitmap s'\<rparr> \<and>
    (\<forall>m. 1 \<le> m \<and> m \<le> n_groups (sb sample_kfs) * ipg (sb sample_kfs) \<longrightarrow>
      inode_bit s' m = (if m = unat (12 :: u32) then True else inode_bit sample_kfs m))"
  using bitmap_inode_set_correct [of sample_kfs 12 True] by auto

text \<open>C19: Two inodes allocated one after the other (\<open>bitmap_inode_find\<close>, then
  \<open>bitmap_inode_set\<close>, then \<open>bitmap_inode_find\<close> again, from any two parents) are different.\<close>

theorem inode_alloc_distinct:
  assumes "bitmaps_ok s" and "unat p div ipg (sb s) < n_groups (sb s)"
    and "Suc (unat p div ipg (sb s)) < n_groups (sb s) \<or>
      \<not> inode_group_full s (unat p div ipg (sb s))"
    and "bitmap_inode_find p s = Some r" and "r \<noteq> 0" and "bitmap_inode_set r True s = Some s'"
    and "unat q div ipg (sb s) < n_groups (sb s)"
    and "Suc (unat q div ipg (sb s)) < n_groups (sb s) \<or>
      \<not> inode_group_full s' (unat q div ipg (sb s))"
    and "bitmap_inode_find q s' = Some r'" and "r' \<noteq> 0"
  shows "r' \<noteq> r"
proof -
  have gm: "geom_ok (sb s)" using assms(1) by (simp add: bitmaps_ok_def)
  obtain g i where "r = inode_no (sb s) g i" "unat g < n_groups (sb s)" "i < ipg (sb s)"
    using inode_alloc.find_then_mark [of s p r] assms(1-5)
    by (auto simp: bitmap_inode_find_unit inode_group_free_iff)
  then have "sb s' = sb s"
    using inode_alloc.mark [OF assms(1)] assms(6) by fastforce
  then show ?thesis
    using inode_alloc.alloc_distinct [of s p r s' q r'] assms inode_group_free_iff [of s']
    by (simp add: bitmap_inode_find_unit inode_group_free_iff)
qed

lemma scan_examples:
  "scan (BIT1 [255]) 0 8 = Some None" "scan (BIT1 [7]) 0 8 = Some (Some 3)"
  "scan (BIT4 [255, 255]) 0 4 = Some None" "scan (BIT4 [15, 0]) 0 4 = Some (Some 1)"
  by code_simp+

lemma sample_scans:
  "inode_scan sample_kfs 0 = Some None" "inode_scan sample_kfs 1 = Some (Some 3)"
  "pblock_scan sample_kfs 0 = Some None" "pblock_scan sample_kfs 1 = Some (Some 1)"
  by (simp_all add: inode_scan_def pblock_scan_def sample_kfs_def sample_sb_def sample_bitmap_def
      index_def EXT4_INODE_PBLOCK_NUM_def scan_examples)

lemma sample_inode_find: "bitmap_inode_find 2 sample_kfs = Some 12"
proof -
  have "search_groups (inode_scan sample_kfs) 0 2 1 = Some (Some (1, 3))"
    by (rule search_groups_found) (simp_all add: sample_scans)
  then show ?thesis
    using sample_scans geom_okD(1) [of "sb sample_kfs"] sample_bitmaps_ok
    by (simp add: bitmap_inode_find_def bitmaps_ok_def) (simp add: sample_kfs_def sample_sb_def)
qed

definition sample_alloc_kfs :: kfs where
  "sample_alloc_kfs = sample_kfs\<lparr>i_bitmap := (i_bitmap sample_kfs)\<lparr>bm_groups :=
     [bm_groups (i_bitmap sample_kfs) ! 0,
      \<lparr>bg_bitmap = [0x0f], bg_off = 0, bg_dirty = True\<rparr>]\<rparr>\<rparr>"

lemma sample_inode_set: "bitmap_inode_set 12 True sample_kfs = Some sample_alloc_kfs"
  using geom_okD(1) [of "sb sample_kfs"] sample_bitmaps_ok
  by (simp add: bitmap_inode_set_def bitmaps_ok_def sample_alloc_kfs_def)
    (simp add: sample_kfs_def sample_sb_def sample_bitmap_def index_def SET_BIT1_def)

lemma sample_alloc_ok [simp]: "bitmaps_ok sample_alloc_kfs" "sb sample_alloc_kfs = sb sample_kfs"
  by (simp_all add: bitmaps_ok_def geom_ok_def sample_alloc_kfs_def)
    (simp_all add: sample_kfs_def sample_bitmap_def)

theorem inode_alloc_distinct_witness:
  "\<exists>r r' s'. bitmap_inode_find 2 sample_kfs = Some r \<and> bitmap_inode_set r True sample_kfs = Some s' \<and>
     bitmap_inode_find 3 s' = Some r' \<and> r' \<noteq> r"
proof -
  have scans: "inode_scan sample_alloc_kfs 0 = Some None" "inode_scan sample_alloc_kfs 1 = Some (Some 4)"
  proof -
    have "scan (BIT1 [15]) 0 8 = Some (Some 4)" by code_simp
    then show "inode_scan sample_alloc_kfs 0 = Some None" "inode_scan sample_alloc_kfs 1 = Some (Some 4)"
      by (simp_all add: inode_scan_def sample_alloc_kfs_def sample_kfs_def sample_sb_def
          sample_bitmap_def index_def scan_examples)
  qed
  have "search_groups (inode_scan sample_alloc_kfs) 0 2 1 = Some (Some (1, 4))"
    by (rule search_groups_found) (simp_all add: scans)
  then have 13: "bitmap_inode_find 3 sample_alloc_kfs = Some 13"
    using scans geom_okD(1) [of "sb sample_kfs"] sample_bitmaps_ok
    by (simp add: bitmap_inode_find_def bitmaps_ok_def) (simp add: sample_kfs_def sample_sb_def)
  have "(13 :: u32) \<noteq> 12"
    by (rule inode_alloc_distinct [OF _ _ _ sample_inode_find _ sample_inode_set _ _ 13]) simp_all
  then show ?thesis using sample_inode_find sample_inode_set 13 by blast
qed

lemma pblock_find_last_group_full:
  assumes "bitmaps_ok s" and "Suc (unat p div ipg (sb s)) = n_groups (sb s)"
    and "block_group_full s (unat p div ipg (sb s))"
  shows "bitmap_pblock_find p s = None"
proof -
  have gm: "geom_ok (sb s)" using assms(1) by (simp add: bitmaps_ok_def)
  let ?gi = "p div s_inodes_per_group (sb s)"
  have gi: "Suc (unat ?gi) = n_groups (sb s)" using assms(2) by (simp add: unat_div)
  then have gi1: "unat (?gi + 1) = n_groups (sb s)"
    using geom_okD(3) [OF gm] by (simp add: unat_word_ariths)
  have "pblock_scan s ?gi = Some None"
    using pblock_scan_eq [OF assms(1), of ?gi] gi assms(3)
    by (simp add: find_upt_None block_group_full_def unat_div)
  moreover have "pblock_scan s (?gi + 1) = None"
    using gi1 assms(1) by (simp add: pblock_scan_def bitmaps_ok_def index_def)
  moreover have "?gi + 1 \<noteq> ?gi" by simp
  ultimately have "search_groups (pblock_scan s) ?gi gn (?gi + 1) = None" for gn
    by (subst search_groups.simps) simp
  then show ?thesis
    using \<open>pblock_scan s ?gi = Some None\<close> geom_okD [OF gm] gi
    by (simp add: bitmap_pblock_find_def word_less_nat_alt)
qed

lemma pblock_find_sound_complete:
  assumes "bitmaps_ok s" and "unat p div ipg (sb s) < n_groups (sb s)"
    and "Suc (unat p div ipg (sb s)) < n_groups (sb s) \<or>
      \<not> block_group_full s (unat p div ipg (sb s))"
  shows "\<exists>r. bitmap_pblock_find p s = Some r \<and>
    (if r = - 1 then \<forall>g < n_groups (sb s). block_group_full s g
     else unat r mod 4 = 0 \<and> unat r + 4 \<le> n_groups (sb s) * bpg (sb s) \<and>
       (\<forall>k<4. \<not> block_bit s (unat r + k)))"
proof -
  have gm: "geom_ok (sb s)" using assms(1) by (simp add: bitmaps_ok_def)
  have "(\<exists>g c. bitmap_pblock_find p s = Some (pblock_no (sb s) g c) \<and> unat g < n_groups (sb s) \<and>
        c < bpg (sb s) div 4 \<and> cluster_free (bg_bitmap (bm_groups (d_bitmap s) ! unat g)) c) \<or>
      bitmap_pblock_find p s = Some (- 1) \<and> (\<forall>g < n_groups (sb s). block_group_full s g)"
    using pblock_alloc.find_unit_spec [OF assms(1,2)] assms(3)
    by (simp add: bitmap_pblock_find_unit block_group_free_iff) (auto simp: block_group_full_def)
  then show ?thesis
  proof (elim disjE exE conjE)
    fix g c
    assume r: "bitmap_pblock_find p s = Some (pblock_no (sb s) g c)"
      and gc: "unat g < n_groups (sb s)" "c < bpg (sb s) div 4"
      and free: "cluster_free (bg_bitmap (bm_groups (d_bitmap s) ! unat g)) c"
    have "8 dvd bpg (sb s)" using gm by (simp add: geom_ok_def)
    then have "(unat g * bpg (sb s) + 4 * c) mod 4 = 0" by (auto simp: dvd_def)
    then show ?thesis
      using r free cluster_free_block_bits [OF gm gc] pblock_no_eq(1) [OF gm gc]
        block_number(2) [OF gm gc] pblock_alloc.number_none [OF gm gc] by simp
  qed simp
qed

text \<open>C21: \<open>bitmap_pblock_find\<close>, for a parent inside the block groups. If the group of the parent is the
  last one and has no free cluster, the search reads outside the array of groups. In every other
  case it returns. The result is \<open>UINT64_MAX\<close> exactly when no group has a free cluster. Otherwise it
  is the first block of a cluster of four blocks that lies inside the block groups and is free in all
  four bits. The number of blocks of the image is not consulted, so a cluster of the last group
  may lie behind it.\<close>

theorem bitmap_pblock_find_correct:
  assumes "bitmaps_ok s" and "unat p div ipg (sb s) < n_groups (sb s)"
  shows "if Suc (unat p div ipg (sb s)) = n_groups (sb s) \<and> block_group_full s (unat p div ipg (sb s))
    then bitmap_pblock_find p s = None
    else \<exists>r. bitmap_pblock_find p s = Some r \<and>
      (if r = - 1 then \<forall>g < n_groups (sb s). block_group_full s g
       else unat r mod 4 = 0 \<and> unat r + 4 \<le> n_groups (sb s) * bpg (sb s) \<and>
         (\<forall>k<4. \<not> block_bit s (unat r + k)))"
proof (cases "Suc (unat p div ipg (sb s)) = n_groups (sb s) \<and> block_group_full s (unat p div ipg (sb s))")
  case True
  then show ?thesis using pblock_find_last_group_full [OF assms(1)] by simp
next
  case False
  then have "Suc (unat p div ipg (sb s)) < n_groups (sb s) \<or> \<not> block_group_full s (unat p div ipg (sb s))"
    using assms(2) by linarith
  from pblock_find_sound_complete [OF assms this] False show ?thesis by (simp only: if_False)
qed

definition sample_full_blocks :: kfs where
  "sample_full_blocks = sample_kfs\<lparr>d_bitmap := sample_bitmap [[0x0f, 0], [0xff, 0xff]]\<rparr>"

lemma sample_full_blocks_ok:
  "bitmaps_ok sample_full_blocks" "sb sample_full_blocks = sb sample_kfs"
  "block_group_full sample_full_blocks (Suc 0)"
proof -
  show sb: "sb sample_full_blocks = sb sample_kfs" by (simp add: sample_full_blocks_def)
  show "bitmaps_ok sample_full_blocks"
    using sample_bitmaps_ok unfolding bitmaps_ok_def geom_ok_def sb
    by (simp add: sample_full_blocks_def) (simp add: sample_kfs_def sample_bitmap_def)
  have m: "(0xff :: u8) = mask 8" by (simp add: mask_eq_exp_minus_1)
  have "bit_of [0xff, 0xff] (4 * c)" if "c < 4" for c
  proof -
    have "4 * c div 8 = 0 \<or> 4 * c div 8 = 1" using that by linarith
    then have "[0xff, 0xff :: u8] ! (4 * c div 8) = 0xff" by (elim disjE) (simp_all only: nth_Cons_0 One_nat_def nth_Cons_Suc)
    then show ?thesis unfolding bit_of_def m by (simp add: bit_mask_iff)
  qed
  then have "\<not> cluster_free [0xff, 0xff] c" if "c < 4" for c
    using that unfolding cluster_free_def by (metis add.right_neutral zero_less_numeral)
  then show "block_group_full sample_full_blocks (Suc 0)"
    by (simp add: block_group_full_def sb) (simp add: sample_full_blocks_def sample_bitmap_def)
qed

theorem bitmap_pblock_find_correct_witness:
  "(\<exists>r. bitmap_pblock_find 2 sample_kfs = Some r \<and>
    (if r = - 1 then \<forall>g < n_groups (sb sample_kfs). block_group_full sample_kfs g
     else unat r mod 4 = 0 \<and> unat r + 4 \<le> n_groups (sb sample_kfs) * bpg (sb sample_kfs) \<and>
       (\<forall>k<4. \<not> block_bit sample_kfs (unat r + k)))) \<and>
   bitmap_pblock_find 8 sample_full_blocks = None"
  using bitmap_pblock_find_correct [of sample_kfs 2] bitmap_pblock_find_correct [of sample_full_blocks 8]
    sample_full_blocks_ok by simp

lemma cluster_same:
  fixes m b n :: nat
  assumes "8 dvd n" and "0 < n"
  shows "m div 4 = b div 4 \<longleftrightarrow> m div n = b div n \<and> m mod n div 4 = b mod n div 4"
proof -
  have "(4 :: nat) dvd 8" by simp
  then obtain k where k: "n = 4 * k" using dvd_trans [OF _ assms(1)] by (blast elim: dvdE)
  have "x mod n div 4 = x div 4 mod k" for x :: nat
    by (simp add: k mod_mult2_eq)
  moreover have "x div n = x div 4 div k" for x :: nat
    by (simp only: k div_mult2_eq)
  ultimately show ?thesis by (metis div_mult_mod_eq)
qed

text \<open>C22: \<open>bitmap_pblock_set\<close> with the cluster length 4 on a block inside the block groups sets the bits
  of exactly the four blocks of the cluster the block belongs to and marks the group of the block
  dirty. Every other bit, the position of the group on the disk, every other group and all other
  globals stay as they were.\<close>

theorem bitmap_pblock_set_correct:
  assumes "bitmaps_ok s" and "unat b < n_groups (sb s) * bpg (sb s)"
  shows "\<exists>s' bm. bitmap_pblock_set b 4 is_used s = Some s' \<and> bitmaps_ok s' \<and>
    s' = s\<lparr>d_bitmap := d_bitmap s'\<rparr> \<and>
    d_bitmap s' = (d_bitmap s)\<lparr>bm_groups := (bm_groups (d_bitmap s))[unat b div bpg (sb s) :=
      (bm_groups (d_bitmap s) ! (unat b div bpg (sb s)))\<lparr>bg_bitmap := bm, bg_dirty := True\<rparr>]\<rparr> \<and>
    (\<forall>m < n_groups (sb s) * bpg (sb s).
      block_bit s' m = (if m div 4 = unat b div 4 then is_used else block_bit s m))"
proof -
  have gm: "geom_ok (sb s)" using assms(1) by (simp add: bitmaps_ok_def)
  have bpg: "0 < bpg (sb s)" using assms(2) by (cases "bpg (sb s)") auto
  have b8: "8 dvd bpg (sb s)" using gm by (simp add: geom_ok_def)
  let ?g = "word_of_nat (unat b div bpg (sb s)) :: u32" and ?i = "unat b mod bpg (sb s)"
  have lt: "unat b div bpg (sb s) < n_groups (sb s)"
    using assms(2) bpg by (simp add: div_less_iff_less_mult)
  then have g: "unat ?g = unat b div bpg (sb s)"
    using geom_okD(3) [OF gm] by (simp add: unat_of_nat)
  obtain s' where s': "bitmap_pblock_set b 4 is_used s = Some s'" "bitmaps_ok s'"
      "s' = s\<lparr>d_bitmap := d_bitmap s'\<rparr>" and bits:
      "\<forall>g' i'. g' < n_groups (sb s) \<longrightarrow> i' < bpg (sb s) \<longrightarrow>
        d_bits s' g' i' = (if (g', i' div 4) = (unat b div bpg (sb s), ?i div 4) then is_used
                           else d_bits s g' i')"
    using bitmap_pblock_set_bits [OF assms(1), of ?g ?i b is_used] g lt bpg
    by (auto simp: div_mult_mod_eq)
  have sb: "sb s' = sb s" using arg_cong [OF s'(3), of sb] by simp
  have "block_bit s' m = (if m div 4 = unat b div 4 then is_used else block_bit s m)"
    if "m < n_groups (sb s) * bpg (sb s)" for m
  proof -
    have "m div bpg (sb s) < n_groups (sb s)"
      using that bpg by (simp add: div_less_iff_less_mult)
    then show ?thesis
      using bits bpg cluster_same [OF b8 bpg, of m "unat b"] by (simp add: block_bit_def sb)
  qed
  then show ?thesis using s' bitmap_pblock_set_frame [OF s'(1)] lt geom_okD(3) [OF gm] by auto
qed

theorem bitmap_pblock_set_correct_witness:
  "\<exists>s'. bitmap_pblock_set 20 4 True sample_kfs = Some s' \<and> bitmaps_ok s' \<and>
    s' = sample_kfs\<lparr>d_bitmap := d_bitmap s'\<rparr> \<and> bg_dirty (bm_groups (d_bitmap s') ! 1) \<and>
    bm_groups (d_bitmap s') ! 0 = bm_groups (d_bitmap sample_kfs) ! 0 \<and>
    (\<forall>m < n_groups (sb sample_kfs) * bpg (sb sample_kfs).
      block_bit s' m = (if m div 4 = unat (20 :: u64) div 4 then True else block_bit sample_kfs m))"
proof -
  have two: "length (bm_groups (d_bitmap sample_kfs)) = 2"
    by (simp add: sample_kfs_def sample_bitmap_def)
  obtain s' bm where s': "bitmap_pblock_set 20 4 True sample_kfs = Some s'" "bitmaps_ok s'"
      "s' = sample_kfs\<lparr>d_bitmap := d_bitmap s'\<rparr>"
      "\<forall>m < n_groups (sb sample_kfs) * bpg (sb sample_kfs).
        block_bit s' m = (if m div 4 = unat (20 :: u64) div 4 then True else block_bit sample_kfs m)"
    and fr: "d_bitmap s' = (d_bitmap sample_kfs)\<lparr>bm_groups := (bm_groups (d_bitmap sample_kfs))[1 :=
      (bm_groups (d_bitmap sample_kfs) ! 1)\<lparr>bg_bitmap := bm, bg_dirty := True\<rparr>]\<rparr>"
    using bitmap_pblock_set_correct [of sample_kfs 20 True] by auto
  have "bg_dirty (bm_groups (d_bitmap s') ! 1)"
    "bm_groups (d_bitmap s') ! 0 = bm_groups (d_bitmap sample_kfs) ! 0"
    using two by (simp_all add: fr)
  then show ?thesis using s' by blast
qed

text \<open>C36: \<open>bitmap_pblock_free\<close> cannot free anything: it calls \<open>bitmap_pblock_set\<close> with length 1,
  which that function rejects by \<open>ASSERT(0)\<close>, so freeing a list with a non-empty range aborts
  in every state.\<close>

theorem bitmap_pblock_free_aborts:
  "(\<exists>r \<in> set rs. pr_len r \<noteq> 0) \<longleftrightarrow> bitmap_pblock_free rs s = None"
proof (induction rs)
  case (Cons r rs)
  have set1: "bitmap_pblock_set b 1 False s = None" for b
    by (simp add: bitmap_pblock_set_def Let_def bind_eq_None_conv)
  show ?case
  proof (cases "unat (pr_len r)")
    case 0
    then show ?thesis using Cons by (simp add: unat_eq_0)
  next
    case (Suc k)
    then have "pr_len r \<noteq> 0" by auto
    then show ?thesis using Suc set1 by simp
  qed
qed simp

section \<open>Counters\<close>

definition bitmap_bits :: "bitmap_t \<Rightarrow> nat \<Rightarrow> bool list" where
  "bitmap_bits bm per = concat (map (\<lambda>g. map (bit_of (bg_bitmap g)) [0..<per]) (bm_groups bm))"

lemma count_bits_eq:
  assumes "j + k \<le> 8 * length bm"
  shows "count_bits bm j k (a, b) =
    Some (a + word_of_nat (count_list (map (bit_of bm) [j..<j + k]) False),
          b + word_of_nat (count_list (map (bit_of bm) [j..<j + k]) True))"
  using assms
proof (induction k arbitrary: j a b)
  case (Suc k)
  have "[j..<j + Suc k] = j # [Suc j..<Suc j + k]" by (simp add: upt_rec)
  then show ?case
    using Suc.IH [of "Suc j"] Suc.prems by (auto simp: BIT1_eq add.assoc)
qed simp

lemma count_groups_eq:
  assumes "\<forall>g \<in> set gs. per \<le> 8 * length (bg_bitmap g)"
  shows "count_groups gs (length gs) per (a, b) =
    Some (a + word_of_nat (count_list (concat (map (\<lambda>g. map (bit_of (bg_bitmap g)) [0..<per]) gs)) False),
          b + word_of_nat (count_list (concat (map (\<lambda>g. map (bit_of (bg_bitmap g)) [0..<per]) gs)) True))"
  using assms
proof (induction gs arbitrary: a b)
  case (Cons g gs)
  then show ?case
    using count_bits_eq [of 0 per "bg_bitmap g" a b] by (simp add: add.assoc)
qed simp

lemma n_groups_unat: "geom_ok sp \<Longrightarrow> unat (word_of_nat (n_groups sp) :: u64) = n_groups sp"
  using geom_okD(3) [of sp] by (simp add: unat_of_nat)

text \<open>\<open>bitmap_inode_count\<close> and \<open>bitmap_pblock_count\<close> return the number of 0 bits, the free
  inodes or blocks, in the counter their callers read as \<open>used\<close>, and the number of 1 bits, the
  used ones, in the counter read as \<open>free\<close>: the two results are exchanged.\<close>

theorem bitmap_counts_swapped:
  assumes "bitmaps_ok s"
  shows "bitmap_inode_count s =
      Some (word_of_nat (count_list (bitmap_bits (i_bitmap s) (ipg (sb s))) False),
            word_of_nat (count_list (bitmap_bits (i_bitmap s) (ipg (sb s))) True)) \<and>
    bitmap_pblock_count s =
      Some (word_of_nat (count_list (bitmap_bits (d_bitmap s) (bpg (sb s))) False),
            word_of_nat (count_list (bitmap_bits (d_bitmap s) (bpg (sb s))) True))"
proof -
  have gm: "geom_ok (sb s)" using assms by (simp add: bitmaps_ok_def)
  have "count_groups (bm_groups (i_bitmap s)) (n_groups (sb s)) (ipg (sb s)) (0, 0) =
      Some (word_of_nat (count_list (bitmap_bits (i_bitmap s) (ipg (sb s))) False),
            word_of_nat (count_list (bitmap_bits (i_bitmap s) (ipg (sb s))) True))"
    using count_groups_eq [of "bm_groups (i_bitmap s)" "ipg (sb s)" 0 0] assms
    by (simp add: bitmaps_ok_def bitmap_bits_def)
  moreover have "count_groups (bm_groups (d_bitmap s)) (n_groups (sb s)) (bpg (sb s)) (0, 0) =
      Some (word_of_nat (count_list (bitmap_bits (d_bitmap s) (bpg (sb s))) False),
            word_of_nat (count_list (bitmap_bits (d_bitmap s) (bpg (sb s))) True))"
    using count_groups_eq [of "bm_groups (d_bitmap s)" "bpg (sb s)" 0 0] assms
    by (simp add: bitmaps_ok_def bitmap_bits_def)
  ultimately show ?thesis
    by (simp add: bitmap_inode_count_def bitmap_pblock_count_def geom_okD(1) [OF gm] n_groups_unat [OF gm])
qed

theorem bitmap_counts_swapped_witness:
  "bitmap_inode_count sample_kfs =
      Some (word_of_nat (count_list (bitmap_bits (i_bitmap sample_kfs) (ipg (sb sample_kfs))) False),
            word_of_nat (count_list (bitmap_bits (i_bitmap sample_kfs) (ipg (sb sample_kfs))) True)) \<and>
    bitmap_pblock_count sample_kfs =
      Some (word_of_nat (count_list (bitmap_bits (d_bitmap sample_kfs) (bpg (sb sample_kfs))) False),
            word_of_nat (count_list (bitmap_bits (d_bitmap sample_kfs) (bpg (sb sample_kfs))) True))"
  by (rule bitmap_counts_swapped) simp

lemma gdt_dec_correct:
  assumes "wf_group_desc g"
  shows "wf_group_desc (gdt_dec g)"
    "EXT4_GDT_FREE_BLOCKS (gdt_dec g) = EXT4_GDT_FREE_BLOCKS g - 1"
    "EXT4_GDT_FREE_INODES (gdt_dec g) = EXT4_GDT_FREE_INODES g - 1"
    "EXT4_GDT_ITABLE_UNUSED (gdt_dec g) = EXT4_GDT_ITABLE_UNUSED g - 1"
    "EXT4_GDT_USED_DIRS (gdt_dec g) = (if EXT4_GDT_USED_DIRS g = EXT4_GDT_MAX_USED_DIRS
       then EXT4_GDT_MAX_USED_DIRS else EXT4_GDT_USED_DIRS g + 1)"
    "EXT4_GDT_DIRTY_FLAG (gdt_dec g) = 1"
proof -
  have flds: "EXT4_GDT_FREE_BLOCKS (EXT4_GDT_SET_DIRTY h) = EXT4_GDT_FREE_BLOCKS h"
    "EXT4_GDT_FREE_INODES (EXT4_GDT_SET_DIRTY h) = EXT4_GDT_FREE_INODES h"
    "EXT4_GDT_ITABLE_UNUSED (EXT4_GDT_SET_DIRTY h) = EXT4_GDT_ITABLE_UNUSED h"
    "EXT4_GDT_USED_DIRS (EXT4_GDT_SET_DIRTY h) = EXT4_GDT_USED_DIRS h" for h
    by (simp_all add: EXT4_GDT_FREE_BLOCKS_def EXT4_GDT_FREE_INODES_def EXT4_GDT_ITABLE_UNUSED_def
        EXT4_GDT_USED_DIRS_def EXT4_GDT_SET_DIRTY_def)
  show "EXT4_GDT_FREE_BLOCKS (gdt_dec g) = EXT4_GDT_FREE_BLOCKS g - 1"
    by (simp only: gdt_dec_def Let_def flds) (simp add: EXT4_GDT_FREE_BLOCKS_def [of "_\<lparr>bg_itable_unused_hi := _\<rparr>"] join_halves_32)
  show "EXT4_GDT_FREE_INODES (gdt_dec g) = EXT4_GDT_FREE_INODES g - 1"
    by (simp only: gdt_dec_def Let_def flds) (simp add: EXT4_GDT_FREE_INODES_def [of "_\<lparr>bg_itable_unused_hi := _\<rparr>"] join_halves_32)
  show "EXT4_GDT_ITABLE_UNUSED (gdt_dec g) = EXT4_GDT_ITABLE_UNUSED g - 1"
    by (simp only: gdt_dec_def Let_def flds) (simp add: EXT4_GDT_ITABLE_UNUSED_def [of "_\<lparr>bg_itable_unused_hi := _\<rparr>"] join_halves_32)
  show "EXT4_GDT_USED_DIRS (gdt_dec g) = (if EXT4_GDT_USED_DIRS g = EXT4_GDT_MAX_USED_DIRS
       then EXT4_GDT_MAX_USED_DIRS else EXT4_GDT_USED_DIRS g + 1)"
    by (simp only: gdt_dec_def Let_def flds) (simp add: EXT4_GDT_USED_DIRS_def [of "_\<lparr>bg_itable_unused_hi := _\<rparr>"] join_halves_32)
  show "wf_group_desc (gdt_dec g)" "EXT4_GDT_DIRTY_FLAG (gdt_dec g) = 1"
    using assms by (simp_all add: gdt_dec_def Let_def EXT4_GDT_SET_DIRTY_def wf_group_desc_def
        EXT4_GDT_DIRTY_FLAG_def get_splice_same)
qed

text \<open>C23: \<open>gdt_update\<close> counts one allocation in the group descriptor of the inode: each 32-bit
  counter split in two 16-bit halves reads back as its old value minus one (free blocks, free
  inodes, unused inodes) or plus one (used directories, unless it is at its maximum), the dirty
  mark is set, and the other descriptors stay as they are.\<close>

theorem gdt_update_counts_correct:
  assumes "s_inodes_per_group (sb s) \<noteq> 0"
    and "unat n div ipg (sb s) < length (gdt s)" and "\<forall>g \<in> set (gdt s). wf_group_desc g"
  shows "\<exists>s'. gdt_update_counts n s = Some s' \<and> s' = s\<lparr>gdt := gdt s'\<rparr> \<and> length (gdt s') = length (gdt s) \<and>
    (\<forall>k < length (gdt s). let g = gdt s ! k; g' = gdt s' ! k in
       wf_group_desc g' \<and>
       (if k = unat n div ipg (sb s) then
         EXT4_GDT_FREE_BLOCKS g' = EXT4_GDT_FREE_BLOCKS g - 1 \<and>
         EXT4_GDT_FREE_INODES g' = EXT4_GDT_FREE_INODES g - 1 \<and>
         EXT4_GDT_ITABLE_UNUSED g' = EXT4_GDT_ITABLE_UNUSED g - 1 \<and>
         EXT4_GDT_USED_DIRS g' = (if EXT4_GDT_USED_DIRS g = EXT4_GDT_MAX_USED_DIRS
           then EXT4_GDT_MAX_USED_DIRS else EXT4_GDT_USED_DIRS g + 1) \<and>
         EXT4_GDT_DIRTY_FLAG g' = 1
        else g' = g))"
proof -
  let ?k = "unat n div ipg (sb s)"
  let ?s = "s\<lparr>gdt := (gdt s)[?k := gdt_dec (gdt s ! ?k)]\<rparr>"
  have "gdt_update_counts n s = Some ?s"
    using assms(1,2) by (simp add: gdt_update_counts_def unat_div)
  moreover have "wf_group_desc (gdt s ! ?k)" using assms(2,3) by auto
  ultimately show ?thesis
    using assms(2,3) gdt_dec_correct [of "gdt s ! ?k"]
    by (intro exI [of _ ?s]) (auto simp: Let_def nth_list_update)
qed

theorem gdt_update_counts_correct_witness:
  "\<exists>s'. gdt_update_counts 9 sample_kfs = Some s' \<and> EXT4_GDT_FREE_INODES (gdt s' ! 1) = - 1 \<and>
     EXT4_GDT_DIRTY_FLAG (gdt s' ! 1) = 1 \<and> gdt s' ! 0 = gdt sample_kfs ! 0"
proof -
  have len: "length (gdt sample_kfs) = 2" by (simp add: sample_kfs_def)
  have wf: "\<forall>g \<in> set (gdt sample_kfs). wf_group_desc g"
    using wf_dec_group_desc [of "replicate 64 0"]
    by (simp add: sample_kfs_def sample_gd_def wf_group_desc_def)
  have z: "EXT4_GDT_FREE_INODES (gdt sample_kfs ! 1) = 0"
  proof -
    have "EXT4_GDT_FREE_INODES (sample_gd 20) = 0" by code_simp
    then show ?thesis by (simp add: sample_kfs_def)
  qed
  obtain s' where "gdt_update_counts 9 sample_kfs = Some s'" and *:
    "\<forall>k < length (gdt sample_kfs). let g = gdt sample_kfs ! k; g' = gdt s' ! k in
       wf_group_desc g' \<and>
       (if k = unat (9 :: u32) div ipg (sb sample_kfs) then
         EXT4_GDT_FREE_BLOCKS g' = EXT4_GDT_FREE_BLOCKS g - 1 \<and>
         EXT4_GDT_FREE_INODES g' = EXT4_GDT_FREE_INODES g - 1 \<and>
         EXT4_GDT_ITABLE_UNUSED g' = EXT4_GDT_ITABLE_UNUSED g - 1 \<and>
         EXT4_GDT_USED_DIRS g' = (if EXT4_GDT_USED_DIRS g = EXT4_GDT_MAX_USED_DIRS
           then EXT4_GDT_MAX_USED_DIRS else EXT4_GDT_USED_DIRS g + 1) \<and>
         EXT4_GDT_DIRTY_FLAG g' = 1
        else g' = g)"
    using gdt_update_counts_correct [of sample_kfs 9] len wf
    by (auto simp: sample_kfs_def sample_sb_def)
  with * [rule_format, of 0] * [rule_format, of 1] len z show ?thesis
    by (auto simp: Let_def)
qed

end
