(* ===== verification/Extents.thy ===== *)
theory Extents
  imports Sample
begin

text \<open>
  The extent tree, \<open>src/extents.c\<close>: from a logical block of a file to a physical block of the
  image. A node is a byte buffer, the 60 bytes of \<open>i_block\<close> or the bytes read from an index
  block: a header followed by 12-byte records. The operations return the physical block and
  what they store in \<open>*extent_len\<close>, \<open>None\<close> if they leave it as it is.
\<close>

section \<open>Operations\<close>

text \<open>The record \<open>i\<close> after the header.\<close>

definition ext_record :: "u8 list \<Rightarrow> nat \<Rightarrow> u8 list option" where
  "ext_record node i = do {
     VALID (12 + 12 * i + 12 \<le> length node);
     Some (slice (12 + 12 * i) 12 node)
   }"

fun extent_get_block_from_ees ::
  "u8 list \<Rightarrow> nat \<Rightarrow> nat \<Rightarrow> u32 \<Rightarrow> (u64 \<times> u32 option) option" where
  "extent_get_block_from_ees node i 0 lblock = Some (0, None)"
| "extent_get_block_from_ees node i (Suc k) lblock = do {
     r \<leftarrow> ext_record node i;
     let ee = dec_extent r;
     if ee_block ee + ucast (ee_len ee) > lblock
     then Some (EXT4_EXT_GET_PADDR ee + ucast (lblock - ee_block ee), Some (ucast (ee_len ee)))
     else extent_get_block_from_ees node (Suc i) k lblock
   }"

text \<open>The block number is passed as a \<open>uint32_t\<close>.\<close>

definition extent_get_extents_in_block :: "u32 \<Rightarrow> kfs \<Rightarrow> u8 list option" where
  "extent_get_extents_in_block pblock s = do {
     h \<leftarrow> k_read (BLOCKS2BYTES (sb s) (ucast pblock)) 12 s;
     let eh = dec_extent_header h;
     ASSERT (eh_magic eh = EXT4_EXT_MAGIC);
     ASSERT (ucast (eh_max eh) \<le> EXT4_EXT_EH_MAX (BLOCK_SIZE s));
     let extents_len = (ucast (eh_entries eh) * 12 :: u32);
     r \<leftarrow> k_read (BLOCKS2BYTES (sb s) (ucast pblock) + 12) (ucast extents_len) s;
     Some (h @ r)
   }"

text \<open>The loop over the index records keeps the last one that starts at or before \<open>lblock\<close>.\<close>

fun ei_select :: "u8 list \<Rightarrow> nat \<Rightarrow> nat \<Rightarrow> u32 \<Rightarrow> ext4_extent_idx option \<Rightarrow>
    ext4_extent_idx option option" where
  "ei_select node i 0 lblock recurse_ei = Some recurse_ei"
| "ei_select node i (Suc k) lblock recurse_ei = do {
     r \<leftarrow> ext_record node i;
     let ei = dec_extent_idx r;
     if ei_block ei > lblock then Some recurse_ei
     else ei_select node (Suc i) k lblock (Some ei)
   }"

partial_function (option) extent_get_pblock ::
  "kfs \<Rightarrow> u8 list \<Rightarrow> u32 \<Rightarrow> (u64 \<times> u32 option) option" where
  "extent_get_pblock s extents lblock = do {
     VALID (12 \<le> length extents);
     let eh = dec_extent_header (slice 0 12 extents);
     ASSERT (eh_magic eh = EXT4_EXT_MAGIC);
     ASSERT (eh_max eh \<le> EXT4_EXT_LEAF_EH_MAX);
     if eh_depth eh = 0
     then extent_get_block_from_ees extents 0 (unat (eh_entries eh)) lblock
     else do {
       recurse_ei \<leftarrow> ei_select extents 0 (unat (eh_entries eh)) lblock None;
       ei \<leftarrow> recurse_ei;
       leaf_extents \<leftarrow> extent_get_extents_in_block (ucast (EXT4_EXT_LEAF_ADDR ei)) s;
       extent_get_pblock s leaf_extents lblock
     }
   }"

section \<open>Leaves\<close>

definition ee_records :: "u8 list \<Rightarrow> ext4_extent list \<Rightarrow> bool" where
  "ee_records node ees \<longleftrightarrow> 12 + 12 * length ees \<le> length node \<and>
     (\<forall>i < length ees. dec_extent (slice (12 + 12 * i) 12 node) = ees ! i)"

text \<open>The extents of a leaf are sorted, do not overlap and end inside the 32-bit range.\<close>

definition covers :: "ext4_extent \<Rightarrow> u32 \<Rightarrow> bool" where
  "covers e l \<longleftrightarrow> unat (ee_block e) \<le> unat l \<and> unat l < unat (ee_block e) + unat (ee_len e)"

definition wf_extents :: "ext4_extent list \<Rightarrow> bool" where
  "wf_extents ees \<longleftrightarrow> (\<forall>e \<in> set ees. unat (ee_block e) + unat (ee_len e) < 2 ^ 32) \<and>
     sorted_wrt (\<lambda>e f. unat (ee_block e) + unat (ee_len e) \<le> unat (ee_block f)) ees"

text \<open>What a leaf maps a block to, on the natural numbers: the first extent that ends after the
  block, and its first physical block moved by the distance of the block from the start of the
  extent. The distance is taken modulo \<open>2 ^ 32\<close> if the block lies before the extent.\<close>

definition ee_start :: "ext4_extent \<Rightarrow> nat" where
  "ee_start e = 2 ^ 32 * unat (ee_start_hi e) + unat (ee_start_lo e)"

definition ee_distance :: "ext4_extent \<Rightarrow> nat \<Rightarrow> nat" where
  "ee_distance e l =
     (if unat (ee_block e) \<le> l then l - unat (ee_block e) else 2 ^ 32 - (unat (ee_block e) - l))"

definition ee_find :: "ext4_extent list \<Rightarrow> nat \<Rightarrow> nat \<times> nat option" where
  "ee_find ees l = (case List.find (\<lambda>e. l < unat (ee_block e) + unat (ee_len e)) ees of
     Some e \<Rightarrow> (ee_start e + ee_distance e l, Some (unat (ee_len e)))
   | None \<Rightarrow> (0, None))"

text \<open>The numbers the machine words of a result stand for.\<close>

definition pblock_nat :: "(u64 \<times> u32 option) option \<Rightarrow> (nat \<times> nat option) option" where
  "pblock_nat = map_option (map_prod unat (map_option unat))"

lemma pblock_nat_simps [simp]:
  "pblock_nat None = None" "pblock_nat (Some (b, n)) = Some (unat b, map_option unat n)"
  by (simp_all add: pblock_nat_def)

lemma pblock_nat_inject: "pblock_nat r = pblock_nat r' \<longleftrightarrow> r = r'"
proof -
  have "inj (unat :: u64 \<Rightarrow> nat)" "inj (unat :: u32 \<Rightarrow> nat)" by (auto intro!: injI unsigned_word_eqI)
  then have "inj pblock_nat"
    unfolding pblock_nat_def by (intro option.inj_map prod.inj_map)
  then show ?thesis by (simp add: inj_eq)
qed

lemma unat_GET_PADDR: "unat (EXT4_EXT_GET_PADDR e) = ee_start e"
proof -
  let ?hi = "ucast (ee_start_hi e) :: u64" and ?lo = "ucast (ee_start_lo e) :: u64"
  have "push_bit 32 ?hi AND ?lo = 0"
    by (rule bit_word_eqI) (auto simp: bit_simps dest: bit_imp_le_length)
  then have "EXT4_EXT_GET_PADDR e = push_bit 32 ?hi + ?lo"
    by (simp add: EXT4_EXT_GET_PADDR_def disjunctive_add_eq_or)
  moreover have "unat (push_bit 32 ?hi) = 2 ^ 32 * unat (ee_start_hi e)"
    using unsigned_less [of "ee_start_hi e", where ?'a = nat]
    by (simp add: push_bit_eq_mult unat_mult_nowrap unat_ucast_wider)
  moreover have "unat ?lo = unat (ee_start_lo e)" by (simp add: unat_ucast_wider)
  ultimately show ?thesis
    using unsigned_less [of "ee_start_hi e", where ?'a = nat] unsigned_less [of "ee_start_lo e", where ?'a = nat]
    by (simp add: ee_start_def unat_add_nowrap)
qed

lemma unat_distance: "unat (l - ee_block e) = ee_distance e (unat l)"
  using unat_less_2p32 [of "ee_block e"] unat_less_2p32 [of l]
  by (auto simp: ee_distance_def unat_sub_if' word_le_nat_alt)

lemma unat_target:
  "unat (EXT4_EXT_GET_PADDR e + ucast (l - ee_block e)) = ee_start e + ee_distance e (unat l)"
proof -
  have "unat (ucast (l - ee_block e) :: u64) = ee_distance e (unat l)"
    by (simp add: unat_ucast_wider unat_distance)
  moreover have "ee_distance e (unat l) < 2 ^ 32"
    using unat_less_2p32 [of "l - ee_block e"] by (simp add: unat_distance)
  moreover have "ee_start e < 2 ^ 48"
    using unsigned_less [of "ee_start_hi e", where ?'a = nat] unsigned_less [of "ee_start_lo e", where ?'a = nat]
    by (simp add: ee_start_def)
  ultimately show ?thesis by (simp add: unat_add_nowrap unat_GET_PADDR)
qed

lemma ee_end:
  assumes "unat (ee_block e) + unat (ee_len e) < 2 ^ 32"
  shows "ee_block e + ucast (ee_len e) > l \<longleftrightarrow> unat l < unat (ee_block e) + unat (ee_len e)"
  using assms by (simp add: word_less_nat_alt unat_add_nowrap unat_ucast_wider)

lemma block_from_ees_eq:
  assumes "ee_records node ees" and "\<forall>e \<in> set ees. unat (ee_block e) + unat (ee_len e) < 2 ^ 32"
    and "i + k = length ees"
  shows "pblock_nat (extent_get_block_from_ees node i k l) = Some (ee_find (drop i ees) (unat l))"
  using assms(3)
proof (induction k arbitrary: i)
  case 0
  then show ?case by (simp add: ee_find_def)
next
  case (Suc k)
  have "drop i ees = ees ! i # drop (Suc i) ees"
    using Suc.prems by (simp add: Cons_nth_drop_Suc)
  moreover have "ext_record node i = Some (slice (12 + 12 * i) 12 node)"
    "dec_extent (slice (12 + 12 * i) 12 node) = ees ! i"
    using assms(1) Suc.prems by (auto simp: ext_record_def ee_records_def)
  moreover have "ee_block (ees ! i) + ucast (ee_len (ees ! i)) > l \<longleftrightarrow>
      unat l < unat (ee_block (ees ! i)) + unat (ee_len (ees ! i))"
    using assms(2) Suc.prems by (intro ee_end) simp
  ultimately show ?case
    using Suc.IH [of "Suc i"] Suc.prems
    by (simp add: ee_find_def Let_def unat_target unat_ucast_wider)
qed

lemma ee_find_first:
  assumes "\<forall>f \<in> set us. unat (ee_block f) + unat (ee_len f) \<le> l"
    and "l < unat (ee_block e) + unat (ee_len e)"
  shows "ee_find (us @ e # vs) l = (ee_start e + ee_distance e l, Some (unat (ee_len e)))"
proof -
  have "List.find (\<lambda>e. l < unat (ee_block e) + unat (ee_len e)) (us @ e # vs) = Some e"
    using assms by (induction us) auto
  then show ?thesis by (simp add: ee_find_def)
qed

lemma ee_find_covered:
  assumes "wf_extents ees" and "e \<in> set ees" and "covers e l"
  shows "ee_find ees (unat l) =
    (ee_start e + (unat l - unat (ee_block e)), Some (unat (ee_len e)))"
proof -
  obtain us vs where ees: "ees = us @ e # vs" using assms(2) by (auto simp: in_set_conv_decomp)
  have "\<forall>f \<in> set us. unat (ee_block f) + unat (ee_len f) \<le> unat l"
    using assms(1,3) by (fastforce simp: wf_extents_def ees sorted_wrt_append covers_def)
  from ee_find_first [OF this, of e vs] assms(3) show ?thesis
    by (simp add: ees covers_def ee_distance_def)
qed

text \<open>Nodes written record by record.\<close>

lemma dec_header_enc: "dec_extent_header (slice 0 12 (enc_extent_header h @ r)) = h"
  by (simp add: slice_append_here eh_codec.length_enc eh_codec.dec_enc)

lemma slice_records:
  "i < length ees \<Longrightarrow> slice (12 * i) 12 (concat (map enc_extent ees) @ r) = enc_extent (ees ! i)"
proof (induction ees arbitrary: i)
  case (Cons e ees)
  then show ?case
    by (cases i) (auto simp: slice_append_skip slice_append_here ee_codec.length_enc)
qed simp

lemma length_records: "length (concat (map enc_extent ees)) = 12 * length ees"
  by (induction ees) (auto simp: ee_codec.length_enc)

lemma ee_records_enc: "ee_records (enc_extent_header h @ concat (map enc_extent ees) @ r) ees"
  by (auto simp: ee_records_def length_records slice_append_skip eh_codec.length_enc
      slice_records ee_codec.dec_enc)

section \<open>Trees\<close>

text \<open>The abstract view of an extent tree: a leaf holds extents, an index node its subtrees, each
  with the first logical block it covers.\<close>

datatype ext_tree = Leaf "ext4_extent list" | Node "(u32 \<times> ext_tree) list"

text \<open>The subtree a lookup descends into: the last one of the leading subtrees that start at or
  before the block.\<close>

definition ei_child :: "(u32 \<times> ext_tree) list \<Rightarrow> nat \<Rightarrow> ext_tree option" where
  "ei_child ks l = (let ts = takeWhile (\<lambda>k. unat (fst k) \<le> l) ks in
     if ts = [] then None else Some (snd (last ts)))"

lemma ei_child_in: "ei_child ks l = Some t \<Longrightarrow> t \<in> snd ` set ks"
  by (auto simp: ei_child_def Let_def split: if_splits) (meson image_eqI last_in_set set_takeWhileD)

function ext_lookup :: "ext_tree \<Rightarrow> nat \<Rightarrow> (nat \<times> nat option) option" where
  "ext_lookup (Leaf ees) l = Some (ee_find ees l)"
| "ext_lookup (Node ks) l = (case ei_child ks l of None \<Rightarrow> None | Some t \<Rightarrow> ext_lookup t l)"
  by pat_completeness auto
termination
proof (relation "measure (\<lambda>(t, l). size t)")
  fix ks l t
  assume "ei_child ks l = Some t"
  then obtain k where "(k, t) \<in> set ks" using ei_child_in by fastforce
  then have "size t \<le> size_prod (\<lambda>_. 0) size (k, t)" "size_prod (\<lambda>_. 0) size (k, t) \<le>
      size_list (size_prod (\<lambda>_. 0) size) ks"
    by (simp_all add: size_list_estimation')
  then show "((t, l), (Node ks, l)) \<in> measure (\<lambda>(t, l). size t)" by simp
qed simp

text \<open>The header every node needs: in the inode and in an index block alike the lookup accepts
  at most four records.\<close>

definition eh_ok :: "u8 list \<Rightarrow> nat \<Rightarrow> bool \<Rightarrow> bool" where
  "eh_ok node n leaf \<longleftrightarrow> 12 \<le> length node \<and>
     (let eh = dec_extent_header (slice 0 12 node) in
        eh_magic eh = EXT4_EXT_MAGIC \<and> eh_max eh \<le> EXT4_EXT_LEAF_EH_MAX \<and>
        unat (eh_entries eh) = n \<and> (eh_depth eh = 0 \<longleftrightarrow> leaf))"

lemma eh_ok_enc:
  "eh_ok (enc_extent_header h @ r) n leaf \<longleftrightarrow> eh_magic h = EXT4_EXT_MAGIC \<and>
     eh_max h \<le> EXT4_EXT_LEAF_EH_MAX \<and> unat (eh_entries h) = n \<and> (eh_depth h = 0 \<longleftrightarrow> leaf)"
  by (simp add: eh_ok_def dec_header_enc eh_codec.length_enc)

text \<open>A node with \<open>n\<close> records on block \<open>b\<close> of the image: the bytes from the start of the block
  to the end of the last record. They lie on the image, and a block has room for the tail and
  for as many records as the header admits.\<close>

definition node_at :: "kfs \<Rightarrow> nat \<Rightarrow> nat \<Rightarrow> u8 list" where
  "node_at s b n = d_slice (image s) (b * unat (BLOCK_SIZE s)) (12 + 12 * n)"

definition node_on_image :: "kfs \<Rightarrow> nat \<Rightarrow> nat \<Rightarrow> bool" where
  "node_on_image s b n \<longleftrightarrow>
     d_size (image s) < 2 ^ 63 \<and> in_disk (image s) (b * unat (BLOCK_SIZE s)) (12 + 12 * n) \<and>
     16 + 12 * unat (eh_max (dec_extent_header (slice 0 12 (node_at s b n)))) \<le> unat (BLOCK_SIZE s)"

fun records_of :: "ext_tree \<Rightarrow> nat" where
  "records_of (Leaf ees) = length ees"
| "records_of (Node ks) = length ks"

text \<open>\<open>ext_rep s node t\<close>: the bytes \<open>node\<close>, with the blocks their index records name on the
  image, represent the tree \<open>t\<close>. The extents of a leaf end inside the 32-bit range and index
  records name blocks below \<open>2 ^ 32\<close>.\<close>

inductive ext_rep :: "kfs \<Rightarrow> u8 list \<Rightarrow> ext_tree \<Rightarrow> bool" for s where
  leaf: "eh_ok node (length ees) True \<Longrightarrow> ee_records node ees \<Longrightarrow>
    \<forall>e \<in> set ees. unat (ee_block e) + unat (ee_len e) < 2 ^ 32 \<Longrightarrow> ext_rep s node (Leaf ees)"
| node: "eh_ok node (length ks) False \<Longrightarrow> 12 + 12 * length ks \<le> length node \<Longrightarrow>
    (\<And>i. i < length ks \<Longrightarrow>
       ei_block (dec_extent_idx (slice (12 + 12 * i) 12 node)) = fst (ks ! i)) \<Longrightarrow>
    (\<And>i. i < length ks \<Longrightarrow> ei_leaf_hi (dec_extent_idx (slice (12 + 12 * i) 12 node)) = 0) \<Longrightarrow>
    (\<And>i. i < length ks \<Longrightarrow>
       node_on_image s (unat (ei_leaf_lo (dec_extent_idx (slice (12 + 12 * i) 12 node))))
         (records_of (snd (ks ! i)))) \<Longrightarrow>
    (\<And>i. i < length ks \<Longrightarrow>
       ext_rep s (node_at s (unat (ei_leaf_lo (dec_extent_idx (slice (12 + 12 * i) 12 node))))
         (records_of (snd (ks ! i)))) (snd (ks ! i))) \<Longrightarrow>
    ext_rep s node (Node ks)"

lemma ext_rep_header: "ext_rep s node t \<Longrightarrow> \<exists>leaf. eh_ok node (records_of t) leaf"
  by (cases rule: ext_rep.cases) auto

lemma extents_in_block_read:
  assumes on: "node_on_image s (unat p) n" and ok: "eh_ok (node_at s (unat p) n) n leaf"
  shows "extent_get_extents_in_block p s = Some (node_at s (unat p) n)"
proof -
  let ?o = "unat p * unat (BLOCK_SIZE s)" and ?node = "node_at s (unat p) n"
  let ?eh = "dec_extent_header (slice 0 12 ?node)"
  have disk: "in_disk (image s) ?o (12 + 12 * n)" "d_size (image s) < 2 ^ 63"
    using on by (simp_all add: node_on_image_def)
  then have lt: "?o + 12 + 12 * n < 2 ^ 63" by (simp add: in_disk_def)
  have off: "unat (BLOCKS2BYTES (sb s) (ucast p)) = ?o"
    using lt by (simp add: BLOCKS2BYTES_def unat_mult_nowrap unat_ucast_wider)
  have off2: "unat (BLOCKS2BYTES (sb s) (ucast p) + 12) = ?o + 12"
    using lt off by (simp add: unat_add_nowrap)
  have eh: "eh_magic ?eh = EXT4_EXT_MAGIC" "unat (eh_entries ?eh) = n" "unat (eh_max ?eh) \<le> 4"
    using ok by (simp_all add: eh_ok_def Let_def EXT4_EXT_LEAF_EH_MAX_def word_le_nat_alt)
  have len: "unat (ucast (ucast (eh_entries ?eh) * 12 :: u32) :: u64) = 12 * n"
    using eh(2) unsigned_less [of "eh_entries ?eh", where ?'a = nat]
    by (simp add: unat_ucast_wider unat_mult_nowrap)
  have max: "ucast (eh_max ?eh) \<le> EXT4_EXT_EH_MAX (BLOCK_SIZE s)"
  proof -
    have "16 + 12 * unat (eh_max ?eh) \<le> unat (BLOCK_SIZE s)" using on by (simp add: node_on_image_def)
    moreover have "unat (BLOCK_SIZE s - 12 - 4) = unat (BLOCK_SIZE s) - 16"
      using calculation by (simp add: unat_sub_if' word_le_nat_alt)
    ultimately have "unat (eh_max ?eh) \<le> unat ((BLOCK_SIZE s - 12 - 4) div 12)"
      by (simp add: unat_div_distrib less_eq_div_iff_mult_less_eq)
    then show ?thesis by (simp add: EXT4_EXT_EH_MAX_def word_le_nat_alt unat_ucast_wider)
  qed
  have h: "k_read (BLOCKS2BYTES (sb s) (ucast p)) 12 s = Some (slice 0 12 ?node)"
    using disk(1) by (simp add: k_read_def disk_read_in_disk off in_disk_def node_at_def slice_d_slice)
  have rest: "in_disk (image s) (?o + 12) (12 * n)"
    "slice 12 (12 * n) ?node = d_slice (image s) (?o + 12) (12 * n)"
    using disk(1) lt by (simp_all add: in_disk_def node_at_def slice_d_slice)
  have r: "k_read (BLOCKS2BYTES (sb s) (ucast p) + 12) (ucast (ucast (eh_entries ?eh) * 12 :: u32)) s =
      Some (slice 12 (12 * n) ?node)"
    using rest by (simp add: k_read_def disk_read_in_disk off2 len)
  have "slice 0 12 ?node @ slice 12 (12 * n) ?node = ?node"
    by (simp add: slice_join node_at_def)
  then show ?thesis
    using h r eh(1) max by (simp add: extent_get_extents_in_block_def Let_def)
qed

lemma ei_select_eq:
  assumes "12 + 12 * length ks \<le> length node" and "i + k = length ks"
    and "\<And>j. j < length ks \<Longrightarrow>
      ei_block (dec_extent_idx (slice (12 + 12 * j) 12 node)) = fst (ks ! j)"
  shows "ei_select node i k l r = Some (
    let n = length (takeWhile (\<lambda>k. unat (fst k) \<le> unat l) (drop i ks)) in
      if n = 0 then r else Some (dec_extent_idx (slice (12 + 12 * (i + n - 1)) 12 node)))"
  using assms(2)
proof (induction k arbitrary: i r)
  case (Suc k)
  have i: "i < length ks" using Suc.prems by simp
  then have d: "drop i ks = ks ! i # drop (Suc i) ks" by (simp add: Cons_nth_drop_Suc)
  have r: "ext_record node i = Some (slice (12 + 12 * i) 12 node)"
    using assms(1) i by (simp add: ext_record_def)
  show ?case
  proof (cases "unat (fst (ks ! i)) \<le> unat l")
    case True
    then have "\<not> l < fst (ks ! i)" by (simp add: word_less_nat_alt)
    then show ?thesis
      using Suc.IH [of "Suc i"] Suc.prems r assms(3) [OF i] d True by (simp add: Let_def)
  next
    case False
    then have "l < fst (ks ! i)" by (simp add: word_less_nat_alt)
    then show ?thesis using r assms(3) [OF i] d False by (simp add: Let_def)
  qed
qed simp

lemma ei_child_nth:
  "ei_child ks l = (let n = length (takeWhile (\<lambda>k. unat (fst k) \<le> l) ks) in
     if n = 0 then None else Some (snd (ks ! (n - 1))))"
proof -
  have "last ts = ks ! (length ts - 1)" if "ts = takeWhile P ks" "ts \<noteq> []" for ts P
    using that takeWhile_nth [of "length ts - 1" P ks] by (simp add: last_conv_nth)
  then show ?thesis by (auto simp: ei_child_def Let_def)
qed

lemma extent_get_pblock_leaf:
  assumes "eh_ok node n True"
  shows "extent_get_pblock s node l = extent_get_block_from_ees node 0 n l"
  using assms by (subst extent_get_pblock.simps) (simp add: eh_ok_def Let_def)

lemma extent_get_pblock_node:
  assumes "eh_ok node n False"
  shows "extent_get_pblock s node l = do {
       recurse_ei \<leftarrow> ei_select node 0 n l None;
       ei \<leftarrow> recurse_ei;
       leaf_extents \<leftarrow> extent_get_extents_in_block (ucast (EXT4_EXT_LEAF_ADDR ei)) s;
       extent_get_pblock s leaf_extents l
     }"
  using assms by (subst extent_get_pblock.simps) (simp add: eh_ok_def Let_def)

lemma LEAF_ADDR_low: "ei_leaf_hi ei = 0 \<Longrightarrow> ucast (EXT4_EXT_LEAF_ADDR ei) = ei_leaf_lo ei"
  by (rule bit_word_eqI) (simp add: EXT4_EXT_LEAF_ADDR_def bit_simps)

lemma extent_get_pblock_tree:
  "ext_rep s node t \<Longrightarrow> pblock_nat (extent_get_pblock s node l) = ext_lookup t (unat l)"
proof (induction rule: ext_rep.induct)
  case (leaf node ees)
  then show ?case
    using block_from_ees_eq [of node ees 0 "length ees" l] by (simp add: extent_get_pblock_leaf)
next
  case (node node ks)
  let ?n = "length (takeWhile (\<lambda>k. unat (fst k) \<le> unat l) ks)"
  let ?ei = "dec_extent_idx (slice (12 + 12 * (?n - 1)) 12 node)"
  have sel: "ei_select node 0 (length ks) l None = Some (if ?n = 0 then None else Some ?ei)"
    using ei_select_eq [of ks node 0 "length ks" l None] node.hyps(2,3) by (simp add: Let_def)
  show ?case
  proof (cases "?n = 0")
    case True
    then show ?thesis
      using sel node.hyps(1) by (simp add: extent_get_pblock_node ei_child_nth)
  next
    case False
    then have n: "?n - 1 < length ks"
      using length_takeWhile_le [of "\<lambda>k. unat (fst k) \<le> unat l" ks] by linarith
    let ?sub = "node_at s (unat (ei_leaf_lo ?ei)) (records_of (snd (ks ! (?n - 1))))"
    have "extent_get_extents_in_block (ucast (EXT4_EXT_LEAF_ADDR ?ei)) s = Some ?sub"
      using ext_rep_header [OF node.hyps(6) [OF n]] extents_in_block_read [OF node.hyps(5) [OF n]]
      unfolding LEAF_ADDR_low [OF node.hyps(4) [OF n]] by blast
    then show ?thesis
      using sel node.hyps(1) False node.IH [OF n]
      by (simp add: extent_get_pblock_node ei_child_nth Let_def)
  qed
qed

text \<open>A tree whose nodes keep the blocks below them inside their range: \<open>wf_tree lo hi t\<close>.\<close>

inductive wf_tree :: "nat \<Rightarrow> nat \<Rightarrow> ext_tree \<Rightarrow> bool" where
  "wf_extents ees \<Longrightarrow>
     (\<forall>e \<in> set ees. lo \<le> unat (ee_block e) \<and> unat (ee_block e) + unat (ee_len e) \<le> hi) \<Longrightarrow>
     wf_tree lo hi (Leaf ees)"
| "(\<forall>i < length ks. lo \<le> unat (fst (ks ! i)) \<and> unat (fst (ks ! i)) \<le> hi) \<Longrightarrow>
     sorted_wrt (\<lambda>j k. fst j < fst k) ks \<Longrightarrow>
     (\<And>i. i < length ks \<Longrightarrow> wf_tree (unat (fst (ks ! i)))
        (if Suc i < length ks then unat (fst (ks ! Suc i)) else hi) (snd (ks ! i))) \<Longrightarrow>
     wf_tree lo hi (Node ks)"

inductive tree_extent :: "ext_tree \<Rightarrow> ext4_extent \<Rightarrow> bool" where
  "e \<in> set ees \<Longrightarrow> tree_extent (Leaf ees) e"
| "i < length ks \<Longrightarrow> tree_extent (snd (ks ! i)) e \<Longrightarrow> tree_extent (Node ks) e"

inductive_cases tree_extent_LeafE [elim!]: "tree_extent (Leaf ees) e"
inductive_cases tree_extent_NodeE [elim!]: "tree_extent (Node ks) e"

lemma wf_tree_range:
  "wf_tree lo hi t \<Longrightarrow> tree_extent t e \<Longrightarrow>
     lo \<le> unat (ee_block e) \<and> unat (ee_block e) + unat (ee_len e) \<le> hi"
proof (induction arbitrary: e rule: wf_tree.induct)
  case (2 ks lo hi)
  from 2(5) obtain i where i: "i < length ks" "tree_extent (snd (ks ! i)) e" by auto
  have "unat (fst (ks ! i)) \<le> unat (ee_block e)" "unat (ee_block e) + unat (ee_len e) \<le>
      (if Suc i < length ks then unat (fst (ks ! Suc i)) else hi)"
    using 2(4) [OF i] by blast+
  moreover have "lo \<le> unat (fst (ks ! i))" "Suc i < length ks \<Longrightarrow> unat (fst (ks ! Suc i)) \<le> hi"
    using 2(1) i(1) by auto
  ultimately show ?case by (auto split: if_splits)
qed auto

lemma takeWhile_length_eq:
  assumes "i < length ks" and "\<And>j. j \<le> i \<Longrightarrow> P (ks ! j)" and "Suc i < length ks \<Longrightarrow> \<not> P (ks ! Suc i)"
  shows "length (takeWhile P ks) = Suc i"
proof (cases "Suc i < length ks")
  case True
  then have "takeWhile P ks = take (Suc i) ks"
    using assms by (intro takeWhile_eq_take_P_nth) auto
  then show ?thesis using True by simp
next
  case False
  then have "length ks = Suc i" using assms(1) by simp
  moreover have "takeWhile P ks = ks"
    using assms(2) \<open>length ks = Suc i\<close>
    by (intro takeWhile_eq_all_conv [THEN iffD2]) (auto simp: in_set_conv_nth less_Suc_eq_le)
  ultimately show ?thesis by (simp only:)
qed

lemma ext_lookup_covered:
  "wf_tree lo hi t \<Longrightarrow> tree_extent t e \<Longrightarrow> covers e l \<Longrightarrow>
     ext_lookup t (unat l) = Some (ee_start e + (unat l - unat (ee_block e)), Some (unat (ee_len e)))"
proof (induction arbitrary: e rule: wf_tree.induct)
  case (1 ees lo hi)
  then show ?case by (auto simp: ee_find_covered)
next
  case (2 ks lo hi)
  from 2(5) obtain i where i: "i < length ks" "tree_extent (snd (ks ! i)) e" by auto
  have rng: "unat (fst (ks ! i)) \<le> unat (ee_block e)" "unat (ee_block e) + unat (ee_len e) \<le>
      (if Suc i < length ks then unat (fst (ks ! Suc i)) else hi)"
    using wf_tree_range [OF 2(3) [OF i(1)] i(2)] by blast+
  have "unat (fst (ks ! j)) \<le> unat l" if "j \<le> i" for j
  proof -
    have "fst (ks ! j) \<le> fst (ks ! i)"
      using that i(1) 2(2) by (cases "j = i") (auto simp: sorted_wrt_iff_nth_less less_le)
    moreover have "fst (ks ! i) \<le> l"
      using rng(1) 2(6) by (simp add: word_le_nat_alt covers_def)
    ultimately show ?thesis by (simp add: word_le_nat_alt)
  qed
  moreover have "\<not> unat (fst (ks ! Suc i)) \<le> unat l" if "Suc i < length ks"
    using rng(2) 2(6) that by (simp add: word_le_nat_alt covers_def)
  ultimately have "length (takeWhile (\<lambda>k. unat (fst k) \<le> unat l) ks) = Suc i"
    using i(1) by (intro takeWhile_length_eq)
  then show ?case using 2(4) [OF i 2(6)] by (simp add: ei_child_nth)
qed

section \<open>A concrete tree\<close>

text \<open>Two extents, blocks 0 to 3 and 8 to 11 of the file, in a leaf that is block 5 of the image
  and is reached from an index node.\<close>

definition sample_ees :: "ext4_extent list" where
  "sample_ees = [\<lparr>ee_block = 0, ee_len = 4, ee_start_hi = 0, ee_start_lo = 100\<rparr>,
                 \<lparr>ee_block = 8, ee_len = 4, ee_start_hi = 0, ee_start_lo = 200\<rparr>]"

definition sample_leaf :: "u8 list" where
  "sample_leaf = enc_extent_header \<lparr>eh_magic = EXT4_EXT_MAGIC, eh_entries = 2, eh_max = 4,
       eh_depth = 0, eh_generation = 0\<rparr> @ concat (map enc_extent sample_ees)"

definition sample_index :: "u8 list" where
  "sample_index = enc_extent_header \<lparr>eh_magic = EXT4_EXT_MAGIC, eh_entries = 1, eh_max = 4,
       eh_depth = 1, eh_generation = 0\<rparr> @
     enc_extent_idx \<lparr>ei_block = 0, ei_leaf_lo = 5, ei_leaf_hi = 0, ei_unused = 0\<rparr>"

definition sample_ext_kfs :: kfs where
  "sample_ext_kfs = sample_kfs\<lparr>image := (image sample_kfs)\<lparr>d_bytes :=
     (\<lambda>i. if 5120 \<le> i \<and> i < 5120 + length sample_leaf then sample_leaf ! (i - 5120) else 0)\<rparr>\<rparr>"

definition sample_tree :: ext_tree where
  "sample_tree = Node [(0, Leaf sample_ees)]"

lemma length_sample_leaf: "length sample_leaf = 36"
  by (simp add: sample_leaf_def sample_ees_def enc_extent_header_def enc_extent_def)

lemma sample_leaf_rep:
  "eh_ok sample_leaf (length sample_ees) True" "ee_records sample_leaf sample_ees"
  unfolding sample_leaf_def
  by (simp add: eh_ok_enc sample_ees_def EXT4_EXT_LEAF_EH_MAX_def)
    (use ee_records_enc [of _ sample_ees "[]"] in simp)

lemma sample_wf_extents: "wf_extents sample_ees"
  by (simp add: wf_extents_def sample_ees_def)

lemma sample_leaf_on_image:
  "node_at sample_ext_kfs 5 2 = sample_leaf" "node_on_image sample_ext_kfs 5 2"
proof -
  have bsz: "unat (BLOCK_SIZE sample_ext_kfs) = 1024"
    by (simp add: sample_ext_kfs_def sample_kfs_def sample_sb_def EXT4_BLOCK_SIZE_def)
  show at: "node_at sample_ext_kfs 5 2 = sample_leaf"
    unfolding node_at_def bsz
    by (intro nth_equalityI) (auto simp: nth_d_slice length_sample_leaf sample_ext_kfs_def)
  have "dec_extent_header (slice 0 12 sample_leaf) = \<lparr>eh_magic = EXT4_EXT_MAGIC, eh_entries = 2,
      eh_max = 4, eh_depth = 0, eh_generation = 0\<rparr>"
    by (simp add: sample_leaf_def dec_header_enc)
  then show "node_on_image sample_ext_kfs 5 2"
    unfolding node_on_image_def at bsz
    by (simp add: in_disk_def MAX_RW_COUNT_def sample_ext_kfs_def sample_kfs_def)
qed

lemma sample_tree_rep: "ext_rep sample_ext_kfs sample_index sample_tree"
  unfolding sample_tree_def
proof (rule ext_rep.node)
  show "eh_ok sample_index (length [(0, Leaf sample_ees)]) False"
    by (simp add: sample_index_def eh_ok_enc EXT4_EXT_LEAF_EH_MAX_def)
  show "12 + 12 * length [(0, Leaf sample_ees)] \<le> length sample_index"
    by (simp add: sample_index_def eh_codec.length_enc ei_codec.length_enc)
  fix i assume i: "i < length [(0 :: u32, Leaf sample_ees)]"
  have ei: "dec_extent_idx (slice 12 12 sample_index) =
      \<lparr>ei_block = 0, ei_leaf_lo = 5, ei_leaf_hi = 0, ei_unused = 0\<rparr>"
    by (simp add: sample_index_def slice_append_skip eh_codec.length_enc ei_codec.length_enc ei_codec.dec_enc)
  then show "ei_block (dec_extent_idx (slice (12 + 12 * i) 12 sample_index)) =
        fst ([(0, Leaf sample_ees)] ! i)"
    "ei_leaf_hi (dec_extent_idx (slice (12 + 12 * i) 12 sample_index)) = 0"
    using i by simp_all
  have two: "length sample_ees = 2" by (simp add: sample_ees_def)
  show "node_on_image sample_ext_kfs
      (unat (ei_leaf_lo (dec_extent_idx (slice (12 + 12 * i) 12 sample_index))))
      (records_of (snd ([(0, Leaf sample_ees)] ! i)))"
    using i ei sample_leaf_on_image(2) by (simp add: two)
  have "ext_rep sample_ext_kfs sample_leaf (Leaf sample_ees)"
    using sample_wf_extents by (intro ext_rep.leaf [OF sample_leaf_rep]) (simp add: wf_extents_def)
  then show "ext_rep sample_ext_kfs (node_at sample_ext_kfs
        (unat (ei_leaf_lo (dec_extent_idx (slice (12 + 12 * i) 12 sample_index))))
        (records_of (snd ([(0, Leaf sample_ees)] ! i)))) (snd ([(0, Leaf sample_ees)] ! i))"
    using i ei sample_leaf_on_image(1) by (simp add: two)
qed

lemma sample_wf_tree: "wf_tree 0 12 sample_tree"
proof -
  have "wf_tree 0 12 (Leaf sample_ees)"
    by (rule wf_tree.intros(1) [OF sample_wf_extents]) (simp add: sample_ees_def)
  then show ?thesis
    unfolding sample_tree_def by (intro wf_tree.intros(2)) simp_all
qed

lemma sample_lookup_9: "ext_lookup sample_tree 9 = Some (201, Some 4)"
  by (simp add: sample_tree_def ei_child_def sample_ees_def ee_find_def ee_start_def ee_distance_def)

section \<open>Properties\<close>





text \<open>C37: A logical block in a hole before an extent of a leaf is not recognised as a hole: the
  lookup takes the following extent and adds a distance that wraps around below zero, so it
  returns a block about \<open>2 ^ 32\<close> blocks after that extent.\<close>

theorem extent_get_pblock_hole:
  assumes "eh_ok node (length (us @ e # vs)) True" and "ee_records node (us @ e # vs)"
    and "wf_extents (us @ e # vs)"
    and "\<forall>f \<in> set us. unat (ee_block f) + unat (ee_len f) \<le> unat l" and "unat l < unat (ee_block e)"
  shows "\<exists>d :: u32. extent_get_pblock s node l = Some (EXT4_EXT_GET_PADDR e + ucast d, Some (ucast (ee_len e))) \<and>
    unat d = 2 ^ 32 - (unat (ee_block e) - unat l)"
proof (intro exI conjI)
  have "ext_rep s node (Leaf (us @ e # vs))"
    using assms(3) by (intro ext_rep.leaf [OF assms(1,2)]) (simp add: wf_extents_def)
  then have "pblock_nat (extent_get_pblock s node l) =
      pblock_nat (Some (EXT4_EXT_GET_PADDR e + ucast (l - ee_block e), Some (ucast (ee_len e))))"
    using extent_get_pblock_tree [of s node "Leaf (us @ e # vs)" l]
      ee_find_first [OF assms(4), of e vs] assms(5)
    by (simp add: unat_target unat_ucast_wider)
  then show "extent_get_pblock s node l =
      Some (EXT4_EXT_GET_PADDR e + ucast (l - ee_block e), Some (ucast (ee_len e)))"
    by (simp only: pblock_nat_inject)
  show "unat (l - ee_block e) = 2 ^ 32 - (unat (ee_block e) - unat l)"
    using assms(5) by (simp add: unat_distance ee_distance_def)
qed

theorem extent_get_pblock_hole_witness:
  "\<exists>d :: u32. extent_get_pblock sample_kfs sample_leaf 6 = Some (200 + ucast d, Some 4) \<and>
     unat d = 2 ^ 32 - 2"
proof -
  have ees: "[sample_ees ! 0] @ sample_ees ! 1 # [] = sample_ees" by (simp add: sample_ees_def)
  have "\<exists>d :: u32. extent_get_pblock sample_kfs sample_leaf 6 =
      Some (EXT4_EXT_GET_PADDR (sample_ees ! 1) + ucast d, Some (ucast (ee_len (sample_ees ! 1)))) \<and>
    unat d = 2 ^ 32 - (unat (ee_block (sample_ees ! 1)) - unat (6 :: u32))"
    by (rule extent_get_pblock_hole [of _ "[sample_ees ! 0]" _ "[]"];
        (simp only: ees sample_leaf_rep sample_wf_extents)?)
      (simp_all add: sample_ees_def)
  then show ?thesis by (simp add: sample_ees_def EXT4_EXT_GET_PADDR_def)
qed

end
