(* ===== verification/Block_Map.thy ===== *)
theory Block_Map
  imports Extents Bitmap_Alloc
begin

text \<open>
  From an inode to the image, the first half of \<open>src/inode.c\<close>: the physical block of a logical
  block (by extents or by the direct, indirect, double and triple indirect blocks of ext2), the
  list of the physical blocks of an inode, and the place of an inode in the inode tables.
\<close>

section \<open>Operations\<close>

definition ADDRESSES_IN_IND_BLOCK :: "kfs \<Rightarrow> u64" where
  "ADDRESSES_IN_IND_BLOCK s = BLOCK_SIZE s div 4"

definition ADDRESSES_IN_DIND_BLOCK :: "kfs \<Rightarrow> u64" where
  "ADDRESSES_IN_DIND_BLOCK s = ADDRESSES_IN_IND_BLOCK s * ADDRESSES_IN_IND_BLOCK s"

definition ADDRESSES_IN_TIND_BLOCK :: "kfs \<Rightarrow> u64" where
  "ADDRESSES_IN_TIND_BLOCK s = ADDRESSES_IN_DIND_BLOCK s * ADDRESSES_IN_IND_BLOCK s"

definition MAX_IND_BLOCK :: "kfs \<Rightarrow> u64" where
  "MAX_IND_BLOCK s = ucast EXT4_NDIR_BLOCKS + ADDRESSES_IN_IND_BLOCK s"

definition MAX_DIND_BLOCK :: "kfs \<Rightarrow> u64" where
  "MAX_DIND_BLOCK s = MAX_IND_BLOCK s + ADDRESSES_IN_DIND_BLOCK s"

definition MAX_TIND_BLOCK :: "kfs \<Rightarrow> u64" where
  "MAX_TIND_BLOCK s = MAX_DIND_BLOCK s + ADDRESSES_IN_TIND_BLOCK s"

definition k_read_u32 :: "u64 \<Rightarrow> kfs \<Rightarrow> u32 option" where
  "k_read_u32 off s = disk_read_u32 off (image s)"

definition inode_get_data_pblock_ind :: "u32 \<Rightarrow> u32 \<Rightarrow> kfs \<Rightarrow> u32 option" where
  "inode_get_data_pblock_ind lblock index_block s = do {
     ASSERT (ucast lblock < ADDRESSES_IN_IND_BLOCK s);
     k_read_u32 (BLOCKS2BYTES (sb s) (ucast index_block) + ucast lblock * 4) s
   }"

definition inode_get_data_pblock_dind :: "u32 \<Rightarrow> u32 \<Rightarrow> kfs \<Rightarrow> u32 option" where
  "inode_get_data_pblock_dind lblock dindex_block s = do {
     ASSERT (ucast lblock < ADDRESSES_IN_DIND_BLOCK s);
     q \<leftarrow> cdiv (ucast lblock) (ADDRESSES_IN_IND_BLOCK s);
     r \<leftarrow> cmod (ucast lblock) (ADDRESSES_IN_IND_BLOCK s);
     let index_block_offset_in_dindex = (ucast (q * 4) :: u32);
     let lblock = (ucast r :: u32);
     index_block \<leftarrow> k_read_u32 (BLOCKS2BYTES (sb s) (ucast dindex_block) +
                                    ucast index_block_offset_in_dindex) s;
     inode_get_data_pblock_ind lblock index_block s
   }"

definition inode_get_data_pblock_tind :: "u32 \<Rightarrow> u32 \<Rightarrow> kfs \<Rightarrow> u32 option" where
  "inode_get_data_pblock_tind lblock tindex_block s = do {
     ASSERT (ucast lblock < ADDRESSES_IN_TIND_BLOCK s);
     q \<leftarrow> cdiv (ucast lblock) (ADDRESSES_IN_DIND_BLOCK s);
     r \<leftarrow> cmod (ucast lblock) (ADDRESSES_IN_DIND_BLOCK s);
     let dindex_block_offset_in_tindex = (ucast (q * 4) :: u32);
     let lblock = (ucast r :: u32);
     dindex_block \<leftarrow> k_read_u32 (BLOCKS2BYTES (sb s) (ucast tindex_block) +
                                     ucast dindex_block_offset_in_tindex) s;
     inode_get_data_pblock_dind lblock dindex_block s
   }"

text \<open>The result is the physical block and what is stored in \<open>*extent_len\<close>, as in
  \<open>extent_get_pblock\<close>.\<close>

definition inode_get_data_pblock :: "ext4_inode \<Rightarrow> u32 \<Rightarrow> kfs \<Rightarrow> (u64 \<times> u32 option) option" where
  "inode_get_data_pblock inode lblock s =
     (if i_flags inode AND EXT4_EXTENTS_FL \<noteq> 0
      then extent_get_pblock s (i_block inode) lblock
      else do {
        ASSERT (ucast lblock \<le> BYTES2BLOCKS (sb s) (EXT4_INODE_GET_SIZE inode));
        if lblock < EXT4_NDIR_BLOCKS
        then Some (ucast (get32 (i_block inode) (4 * unat lblock)), None)
        else if ucast lblock < MAX_IND_BLOCK s
        then do {
          let index_block = get32 (i_block inode) (4 * unat EXT4_IND_BLOCK);
          b \<leftarrow> inode_get_data_pblock_ind (lblock - EXT4_NDIR_BLOCKS) index_block s;
          Some (ucast b, None)
        }
        else if ucast lblock < MAX_DIND_BLOCK s
        then do {
          let dindex_block = get32 (i_block inode) (4 * unat EXT4_DIND_BLOCK);
          b \<leftarrow> inode_get_data_pblock_dind (ucast (ucast lblock - MAX_IND_BLOCK s)) dindex_block s;
          Some (ucast b, None)
        }
        else if ucast lblock < MAX_TIND_BLOCK s
        then do {
          let tindex_block = get32 (i_block inode) (4 * unat EXT4_TIND_BLOCK);
          b \<leftarrow> inode_get_data_pblock_tind (ucast (ucast lblock - MAX_DIND_BLOCK s)) tindex_block s;
          Some (ucast b, None)
        }
        else do { ASSERT False; Some (0, None) }
      })"

text \<open>The loop of \<open>inode_get_all_pblocks\<close> over the extents in the inode.\<close>

fun all_pblocks_loop :: "u8 list \<Rightarrow> nat \<Rightarrow> nat \<Rightarrow> pblock_range list option" where
  "all_pblocks_loop node i 0 = Some []"
| "all_pblocks_loop node i (Suc k) = do {
     r \<leftarrow> ext_record node i;
     let ee = dec_extent r;
     rs \<leftarrow> all_pblocks_loop node (Suc i) k;
     Some (\<lparr>pr_pblock = EXT4_EXT_GET_PADDR ee, pr_len = ee_len ee\<rparr> # rs)
   }"

definition inode_get_all_pblocks :: "ext4_inode \<Rightarrow> pblock_range list option" where
  "inode_get_all_pblocks inode =
     (if i_flags inode AND EXT4_EXTENTS_FL \<noteq> 0
      then let eh = dec_extent_header (slice 0 12 (i_block inode)) in
        if eh_depth eh = 0
        then if eh_entries eh = 0 then Some []
             else do {
               ASSERT (eh_magic eh = EXT4_EXT_MAGIC);
               all_pblocks_loop (i_block inode) 0 (unat (eh_entries eh))
             }
        else do { ASSERT False; Some [] }
      else do { ASSERT False; Some [] })"

text \<open>The offset inside the table is computed in 32 bits.\<close>

definition inode_get_offset :: "u32 \<Rightarrow> kfs \<Rightarrow> u64 option" where
  "inode_get_offset inode_idx s = do {
     ASSERT (inode_idx \<noteq> 0);
     let inode_idx = inode_idx - 1;
     group_idx \<leftarrow> cdiv inode_idx (s_inodes_per_group (sb s));
     n \<leftarrow> EXT4_N_BLOCK_GROUPS (sb s);
     ASSERT (ucast group_idx < n);
     g \<leftarrow> index (gdt s) (unat group_idx);
     i \<leftarrow> cmod inode_idx (s_inodes_per_group (sb s));
     Some (BLOCKS2BYTES (sb s) (EXT4_DESC_INODE_TABLE g) + ucast (i * ucast (s_inode_size (sb s)) :: u32))
   }"

section \<open>The block map of ext2\<close>

text \<open>Block sizes from 1 KiB to 64 KiB, an open image below the limit of \<open>off_t\<close>.\<close>

definition blocks_ok :: "kfs \<Rightarrow> bool" where
  "blocks_ok s \<longleftrightarrow> s_log_block_size (sb s) \<le> 6 \<and> disk_fd (image s) \<ge> 0 \<and> d_size (image s) < 2 ^ 63"

abbreviation bsize :: "kfs \<Rightarrow> nat" where "bsize s \<equiv> unat (BLOCK_SIZE s)"

definition block_in :: "kfs \<Rightarrow> nat \<Rightarrow> bool" where
  "block_in s b \<longleftrightarrow> (b + 1) * bsize s \<le> d_size (image s)"

text \<open>The 32-bit entry \<open>k\<close> of the block \<open>b\<close>.\<close>

definition block_u32 :: "kfs \<Rightarrow> u32 \<Rightarrow> nat \<Rightarrow> u32" where
  "block_u32 s b k = get32 (d_slice (image s) (unat b * bsize s + 4 * k) 4) 0"

lemma bsize_eq:
  assumes "blocks_ok s"
  shows "bsize s = 2 ^ (unat (s_log_block_size (sb s)) + 10)"
    and "1024 \<le> bsize s" and "bsize s \<le> 65536" and "4 dvd bsize s" and "bsize s \<noteq> 0"
proof -
  let ?k = "unat (s_log_block_size (sb s))"
  have k: "?k \<le> 6" using assms by (simp add: blocks_ok_def word_le_nat_alt)
  then have u: "unat (s_log_block_size (sb s) + 10) = ?k + 10"
    by (subst unat_add_nowrap) simp_all
  have "(2 :: nat) ^ (?k + 10) < 2 ^ 64" using k by (intro power_strict_increasing) simp_all
  then have "unat (word_of_nat (2 ^ (?k + 10)) :: u64) = 2 ^ (?k + 10)"
    by (simp add: unat_of_nat del: of_nat_power power_add)
  then show eq: "bsize s = 2 ^ (?k + 10)"
    by (simp add: EXT4_BLOCK_SIZE_def u push_bit_of_1)
  have "(2 :: nat) ^ 10 \<le> 2 ^ (?k + 10)" "(2 :: nat) ^ (?k + 10) \<le> 2 ^ 16"
    using k by (intro power_increasing; simp)+
  then show "1024 \<le> bsize s" "bsize s \<le> 65536" "bsize s \<noteq> 0" using eq by simp_all
  show "4 dvd bsize s" using le_imp_power_dvd [of 2 "?k + 10" "2 :: nat"] by (simp add: eq)
qed

lemma BLOCKS2BYTES_eq:
  assumes "blocks_ok s" and "block_in s (unat b)"
  shows "unat (BLOCKS2BYTES (sb s) b) = unat b * bsize s"
    and "unat b * bsize s + bsize s \<le> d_size (image s)"
proof -
  show le: "unat b * bsize s + bsize s \<le> d_size (image s)"
    using assms(2) by (simp add: block_in_def)
  then have "unat b * bsize s < 2 ^ 64"
    using assms(1) bsize_eq(2) [OF assms(1)] by (simp add: blocks_ok_def)
  then show "unat (BLOCKS2BYTES (sb s) b) = unat b * bsize s"
    by (simp add: BLOCKS2BYTES_def unat_mult_nowrap)
qed

lemma k_read_in_block:
  fixes b :: u64
  assumes "blocks_ok s" and "block_in s (unat b)" and "o' + n \<le> bsize s"
    and "unat off = unat b * bsize s + o'" and "unat m = n"
  shows "k_read off m s = Some (d_slice (image s) (unat b * bsize s + o') n)"
proof -
  have "in_disk (image s) (unat off) (unat m)"
    using assms BLOCKS2BYTES_eq [OF assms(1,2)] bsize_eq(3) [OF assms(1)]
    by (auto simp: in_disk_def blocks_ok_def MAX_RW_COUNT_def)
  then show ?thesis using assms(4,5) by (simp add: k_read_def disk_read_in_disk)
qed

lemma k_read_u32_eq:
  assumes "blocks_ok s" and "block_in s (unat b)" and "4 * k < bsize s"
    and "unat (off :: u64) = 4 * k"
  shows "k_read_u32 (BLOCKS2BYTES (sb s) (ucast b) + off) s = Some (block_u32 s b k)"
proof -
  have k4: "4 * k + 4 \<le> bsize s" using assms(3) bsize_eq(4) [OF assms(1)] by (auto elim!: dvdE)
  have b: "block_in s (unat (ucast b :: u64))" using assms(2) by (simp add: unat_ucast_wider)
  note B = BLOCKS2BYTES_eq [OF assms(1) b]
  have "unat (BLOCKS2BYTES (sb s) (ucast b)) + unat off < 2 ^ 64"
    using B assms k4 by (simp add: blocks_ok_def)
  then have "unat (BLOCKS2BYTES (sb s) (ucast b) + off) = unat b * bsize s + 4 * k"
    using B(1) assms(4) by (simp add: unat_add_nowrap unat_ucast_wider)
  with k_read_in_block [OF assms(1) b k4, of _ 4] show ?thesis
    by (simp add: k_read_u32_def disk_read_u32_def block_u32_def k_read_def unat_ucast_wider)
qed

text \<open>The path from the inode to a block: an entry of \<open>i_block\<close>, then an entry of each index
  block on the way; \<open>A\<close> entries fit in a block.\<close>

definition ext2_path :: "nat \<Rightarrow> nat \<Rightarrow> nat list" where
  "ext2_path A l =
     (if l < 12 then [l]
      else if l < 12 + A then [12, l - 12]
      else if l < 12 + A + A * A then let m = l - 12 - A in [13, m div A, m mod A]
      else let m = l - 12 - A - A * A in [14, m div (A * A), m div A mod A, m mod A])"

fun ext2_walk :: "kfs \<Rightarrow> u32 \<Rightarrow> nat list \<Rightarrow> u32 option" where
  "ext2_walk s b [] = Some b"
| "ext2_walk s b (k # ks) = (if block_in s (unat b) then ext2_walk s (block_u32 s b k) ks else None)"

lemma addresses_eq:
  assumes "blocks_ok s"
  defines "A \<equiv> bsize s div 4"
  shows "unat (ADDRESSES_IN_IND_BLOCK s) = A" "unat (ADDRESSES_IN_DIND_BLOCK s) = A * A"
    "unat (ADDRESSES_IN_TIND_BLOCK s) = A * A * A" "unat (MAX_IND_BLOCK s) = 12 + A"
    "unat (MAX_DIND_BLOCK s) = 12 + A + A * A" "unat (MAX_TIND_BLOCK s) = 12 + A + A * A + A * A * A"
    "0 < A" "A \<le> 2 ^ 14" "bsize s = 4 * A"
proof -
  have A: "0 < A" "A \<le> 2 ^ 14" "bsize s = 4 * A"
    using bsize_eq [OF assms(1)] by (auto simp: A_def)
  then have A2: "A * A \<le> 2 ^ 28" using mult_le_mono [of A "2 ^ 14" A "2 ^ 14"] by simp
  then have A3: "A * A * A \<le> 2 ^ 42" using mult_le_mono [of "A * A" "2 ^ 28" A "2 ^ 14"] A by simp
  show 1: "unat (ADDRESSES_IN_IND_BLOCK s) = A"
    by (simp add: ADDRESSES_IN_IND_BLOCK_def unat_div A_def)
  then show 2: "unat (ADDRESSES_IN_DIND_BLOCK s) = A * A"
    using A2 by (simp add: ADDRESSES_IN_DIND_BLOCK_def unat_mult_nowrap)
  then show 3: "unat (ADDRESSES_IN_TIND_BLOCK s) = A * A * A"
    using 1 A3 by (simp add: ADDRESSES_IN_TIND_BLOCK_def unat_mult_nowrap)
  show 4: "unat (MAX_IND_BLOCK s) = 12 + A"
    using 1 A by (simp add: MAX_IND_BLOCK_def EXT4_NDIR_BLOCKS_def unat_add_nowrap)
  then show 5: "unat (MAX_DIND_BLOCK s) = 12 + A + A * A"
    using 2 A A2 by (simp add: MAX_DIND_BLOCK_def unat_add_nowrap)
  then show 6: "unat (MAX_TIND_BLOCK s) = 12 + A + A * A + A * A * A"
    using 3 A A2 A3 by (simp add: MAX_TIND_BLOCK_def unat_add_nowrap)
qed (use bsize_eq [OF assms(1)] in \<open>auto simp: A_def\<close>)

lemma data_pblock_ind:
  assumes "blocks_ok s" and "unat l < bsize s div 4" and "ext2_walk s b [unat l] = Some r"
  shows "inode_get_data_pblock_ind l b s = Some r"
proof -
  note A = addresses_eq [OF assms(1)]
  have b: "block_in s (unat b)" "block_u32 s b (unat l) = r"
    using assms(3) by (auto split: if_splits)
  have "unat (ucast l * 4 :: u64) = 4 * unat l"
    using unat_less_2p32 [of l] by (simp add: unat_mult_nowrap unat_ucast_wider)
  then show ?thesis
    using assms(2) b A(1) k_read_u32_eq [OF assms(1) b(1), of "unat l" "ucast l * 4"]
    by (simp add: inode_get_data_pblock_ind_def word_less_nat_alt unat_ucast_wider)
qed

lemma div_mod_split:
  fixes m A :: nat
  shows "m div (A * A) = m div A div A" "m mod (A * A) div A = m div A mod A" "m mod (A * A) mod A = m mod A"
  by (cases "A = 0"; simp add: div_mult2_eq mod_mult2_eq)+

lemma data_pblock_dind:
  assumes "blocks_ok s" and "unat l < (bsize s div 4) * (bsize s div 4)"
    and "ext2_walk s b [unat l div (bsize s div 4), unat l mod (bsize s div 4)] = Some r"
  shows "inode_get_data_pblock_dind l b s = Some r"
proof -
  let ?A = "bsize s div 4"
  note A = addresses_eq [OF assms(1)]
  let ?q = "ucast l div ADDRESSES_IN_IND_BLOCK s" and ?r = "ucast l mod ADDRESSES_IN_IND_BLOCK s"
  have q: "unat ?q = unat l div ?A" and r: "unat ?r = unat l mod ?A"
    using A(1) by (simp_all add: unat_div unat_mod unat_ucast_wider)
  have lt: "unat l div ?A < ?A" "unat l mod ?A < ?A"
    using assms(2) A(7) by (simp_all add: less_mult_imp_div_less)
  have uq: "unat (ucast (ucast (?q * 4) :: u32) :: u64) = 4 * (unat l div ?A)"
  proof -
    have "unat (?q * 4) = 4 * (unat l div ?A)"
      using q lt A(8) by (simp add: unat_mult_nowrap)
    then show ?thesis
      using lt A(8) by (simp add: unat_ucast_wider unat_ucast_narrow)
  qed
  have b: "block_in s (unat b)"
    and w: "ext2_walk s (block_u32 s b (unat l div ?A)) [unat l mod ?A] = Some r"
    using assms(3) by (auto split: if_splits)
  have "unat ?r < 2 ^ 32"
    unfolding r by (rule le_less_trans [OF mod_less_eq_dividend unat_less_2p32])
  then have ur: "unat (ucast ?r :: u32) = unat l mod ?A"
    by (rule trans [OF unat_ucast_narrow r])
  have "k_read_u32 (BLOCKS2BYTES (sb s) (ucast b) + ucast (ucast (?q * 4) :: u32)) s =
      Some (block_u32 s b (unat l div ?A))"
    using lt A(9) uq by (intro k_read_u32_eq [OF assms(1) b]) simp_all
  moreover have "inode_get_data_pblock_ind (ucast ?r) (block_u32 s b (unat l div ?A)) s = Some r"
    by (rule data_pblock_ind [OF assms(1)]; simp only: ur lt w)
  moreover have "ADDRESSES_IN_IND_BLOCK s \<noteq> 0" using A(1,7) by auto
  ultimately show ?thesis
    using assms(2) A(2) by (simp add: inode_get_data_pblock_dind_def word_less_nat_alt unat_ucast_wider)
qed

lemma data_pblock_tind:
  assumes "blocks_ok s" and "unat l < (bsize s div 4) * (bsize s div 4) * (bsize s div 4)"
    and "ext2_walk s b [unat l div ((bsize s div 4) * (bsize s div 4)),
      unat l div (bsize s div 4) mod (bsize s div 4), unat l mod (bsize s div 4)] = Some r"
  shows "inode_get_data_pblock_tind l b s = Some r"
proof -
  let ?A = "bsize s div 4"
  note A = addresses_eq [OF assms(1)]
  let ?q = "ucast l div ADDRESSES_IN_DIND_BLOCK s" and ?r = "ucast l mod ADDRESSES_IN_DIND_BLOCK s"
  have q: "unat ?q = unat l div (?A * ?A)" and r: "unat ?r = unat l mod (?A * ?A)"
    using A(2) by (simp_all add: unat_div unat_mod unat_ucast_wider)
  have lt: "unat l div (?A * ?A) < ?A"
    using assms(2) by (intro less_mult_imp_div_less) (simp only: ac_simps)
  have lt2: "unat l mod (?A * ?A) < ?A * ?A"
    using A(7) by (intro mod_less_divisor) simp
  have uq: "unat (ucast (ucast (?q * 4) :: u32) :: u64) = 4 * (unat l div (?A * ?A))"
  proof -
    have "unat (?q * 4) = 4 * (unat l div (?A * ?A))"
      using q lt A(8) by (simp add: unat_mult_nowrap)
    then show ?thesis
      using lt A(8) by (simp add: unat_ucast_wider unat_ucast_narrow)
  qed
  have b: "block_in s (unat b)"
    and w: "ext2_walk s (block_u32 s b (unat l div (?A * ?A)))
      [unat l div ?A mod ?A, unat l mod ?A] = Some r"
    using assms(3) by (auto split: if_splits)
  have "unat ?r < 2 ^ 32"
    unfolding r by (rule le_less_trans [OF mod_less_eq_dividend unat_less_2p32])
  then have ur: "unat (ucast ?r :: u32) = unat l mod (?A * ?A)"
    by (rule trans [OF unat_ucast_narrow r])
  have "k_read_u32 (BLOCKS2BYTES (sb s) (ucast b) + ucast (ucast (?q * 4) :: u32)) s =
      Some (block_u32 s b (unat l div (?A * ?A)))"
    using lt A(9) uq by (intro k_read_u32_eq [OF assms(1) b]) simp_all
  moreover have "inode_get_data_pblock_dind (ucast ?r) (block_u32 s b (unat l div (?A * ?A))) s = Some r"
    by (rule data_pblock_dind [OF assms(1)]; simp only: ur lt2 w div_mod_split(2,3))
  moreover have "ADDRESSES_IN_DIND_BLOCK s \<noteq> 0" using A(2,7) by auto
  ultimately show ?thesis
    using assms(2) A(3) by (simp add: inode_get_data_pblock_tind_def word_less_nat_alt unat_ucast_wider)
qed

text \<open>C9: For an inode without extents, \<open>inode_get_data_pblock\<close> follows the ext2 block map: blocks
  0 to 11 directly, then through one, two or three levels of index blocks, with the entry at each
  level given by the digits of the logical block in base \<open>block size / 4\<close>.\<close>

theorem inode_get_data_pblock_ext2:
  assumes "blocks_ok s" and "i_flags inode AND EXT4_EXTENTS_FL = 0"
    and "ucast l \<le> BYTES2BLOCKS (sb s) (EXT4_INODE_GET_SIZE inode)"
    and "A = bsize s div 4" and "unat l < 12 + A + A * A + A * A * A"
    and "ext2_walk s (get32 (i_block inode) (4 * hd (ext2_path A (unat l)))) (tl (ext2_path A (unat l))) = Some b"
  shows "inode_get_data_pblock inode l s = Some (ucast b, None)"
proof -
  note A = addresses_eq [OF assms(1), folded assms(4)]
  have ul: "unat (ucast l :: u64) = unat l" by (simp add: unat_ucast_wider)
  have small: "12 + A + A * A < 2 ^ 32"
    using A(8) mult_le_mono [of A "2 ^ 14" A "2 ^ 14"] by simp
  consider "unat l < 12" | "12 \<le> unat l" "unat l < 12 + A"
    | "12 + A \<le> unat l" "unat l < 12 + A + A * A" | "12 + A + A * A \<le> unat l" by linarith
  then show ?thesis
  proof cases
    case 1
    then show ?thesis
      using assms(2,3,6) by (simp add: inode_get_data_pblock_def ext2_path_def word_less_nat_alt EXT4_NDIR_BLOCKS_def)
  next
    case 2
    have "unat (l - EXT4_NDIR_BLOCKS) = unat l - 12"
      using 2 by (simp add: EXT4_NDIR_BLOCKS_def unat_sub word_le_nat_alt)
    then have "inode_get_data_pblock_ind (l - EXT4_NDIR_BLOCKS) (get32 (i_block inode) 48) s = Some b"
      using 2 assms(4,6) by (intro data_pblock_ind [OF assms(1)]) (simp_all add: ext2_path_def)
    then show ?thesis
      using 2 assms(2,3) A ul
      by (simp add: inode_get_data_pblock_def word_less_nat_alt EXT4_NDIR_BLOCKS_def EXT4_IND_BLOCK_def)
  next
    case 3
    let ?m = "ucast (ucast l - MAX_IND_BLOCK s) :: u32"
    have "unat (ucast l - MAX_IND_BLOCK s) = unat l - 12 - A"
      using 3 A ul by (simp add: unat_sub word_le_nat_alt)
    then have m: "unat ?m = unat l - 12 - A"
      using unat_less_2p32 [of l] by (simp add: unat_ucast_narrow)
    have "inode_get_data_pblock_dind ?m (get32 (i_block inode) 52) s = Some b"
      using 3 assms(6) m by (intro data_pblock_dind [OF assms(1)])
        (simp_all add: ext2_path_def Let_def flip: assms(4))
    then show ?thesis
      using 3 assms(2,3) A ul
      by (simp add: inode_get_data_pblock_def word_less_nat_alt EXT4_NDIR_BLOCKS_def EXT4_DIND_BLOCK_def)
  next
    case 4
    let ?m = "ucast (ucast l - MAX_DIND_BLOCK s) :: u32"
    have "unat (ucast l - MAX_DIND_BLOCK s) = unat l - 12 - A - A * A"
      using 4 A ul by (simp add: unat_sub word_le_nat_alt)
    then have m: "unat ?m = unat l - 12 - A - A * A"
      using unat_less_2p32 [of l] by (simp add: unat_ucast_narrow)
    have "inode_get_data_pblock_tind ?m (get32 (i_block inode) 56) s = Some b"
      using 4 assms(5,6) m by (intro data_pblock_tind [OF assms(1)])
        (simp_all add: ext2_path_def Let_def flip: assms(4))
    then show ?thesis
      using 4 assms(2,3,5) A ul
      by (simp add: inode_get_data_pblock_def word_less_nat_alt EXT4_NDIR_BLOCKS_def EXT4_TIND_BLOCK_def)
  qed
qed

definition sample_ind_kfs :: kfs where
  "sample_ind_kfs = sample_kfs\<lparr>image := (image sample_kfs)\<lparr>d_bytes :=
     (\<lambda>i. if 7200 \<le> i \<and> i < 7204 then put32 99 ! (i - 7200) else 0)\<rparr>\<rparr>"

definition sample_ind_inode :: ext4_inode where
  "sample_ind_inode = (dec_inode (replicate 160 0))\<lparr>i_flags := 0, i_size_lo := 65536,
     i_size_high := 0, i_block := splice 48 (put32 7) (replicate 60 0)\<rparr>"

theorem inode_get_data_pblock_ext2_witness:
  "inode_get_data_pblock sample_ind_inode 20 sample_ind_kfs = Some (99, None)"
proof -
  have bs: "BLOCK_SIZE sample_ind_kfs = 1024"
    by (simp add: sample_ind_kfs_def sample_kfs_def sample_sb_def EXT4_BLOCK_SIZE_def)
  have ok: "blocks_ok sample_ind_kfs"
    by (simp add: blocks_ok_def sample_ind_kfs_def sample_kfs_def sample_sb_def)
  have "d_slice (image sample_ind_kfs) 7200 4 = put32 99"
    by (intro nth_equalityI) (auto simp: nth_d_slice sample_ind_kfs_def)
  then have "block_u32 sample_ind_kfs 7 8 = 99"
    by (simp add: block_u32_def bs get_put)
  moreover have "block_in sample_ind_kfs 7"
    by (simp add: block_in_def bs) (simp add: sample_ind_kfs_def sample_kfs_def)
  moreover have "get32 (i_block sample_ind_inode) 48 = 7"
    by (simp add: sample_ind_inode_def get_splice_same)
  ultimately have "ext2_walk sample_ind_kfs
      (get32 (i_block sample_ind_inode) (4 * hd (ext2_path 256 (unat (20 :: u32)))))
      (tl (ext2_path 256 (unat (20 :: u32)))) = Some 99"
    by (simp add: ext2_path_def)
  moreover have "EXT4_INODE_GET_SIZE sample_ind_inode = 65536"
    by (simp add: sample_ind_inode_def EXT4_INODE_GET_SIZE_def)
  then have "ucast (20 :: u32) \<le> BYTES2BLOCKS (sb sample_ind_kfs) (EXT4_INODE_GET_SIZE sample_ind_inode)"
    by (simp add: BYTES2BLOCKS_def bs)
  ultimately have "inode_get_data_pblock sample_ind_inode 20 sample_ind_kfs = Some (ucast (99 :: u32), None)"
    by (intro inode_get_data_pblock_ext2 [OF ok, where A = 256])
      (simp_all add: bs sample_ind_inode_def)
  then show ?thesis by simp
qed

section \<open>The inode tables\<close>

text \<open>The place of inode \<open>n\<close>, counted from 1, in the table of its group. The tables of different
  groups do not overlap and lie inside the image, and a slot holds at least an inode.\<close>

definition table_off :: "kfs \<Rightarrow> nat \<Rightarrow> nat" where
  "table_off s g = unat (EXT4_DESC_INODE_TABLE (gdt s ! g)) * bsize s"

definition inode_slot :: "kfs \<Rightarrow> nat \<Rightarrow> nat" where
  "inode_slot s n = table_off s ((n - 1) div ipg (sb s)) + (n - 1) mod ipg (sb s) * unat (s_inode_size (sb s))"

definition itable_ok :: "kfs \<Rightarrow> bool" where
  "itable_ok s \<longleftrightarrow> geom_ok (sb s) \<and> blocks_ok s \<and> length (gdt s) = n_groups (sb s) \<and>
     160 \<le> unat (s_inode_size (sb s)) \<and> ipg (sb s) * unat (s_inode_size (sb s)) < 2 ^ 32 \<and>
     (\<forall>g < n_groups (sb s). table_off s g + ipg (sb s) * unat (s_inode_size (sb s)) \<le> d_size (image s)) \<and>
     (\<forall>g < n_groups (sb s). \<forall>h < n_groups (sb s). g \<noteq> h \<longrightarrow>
        table_off s g + ipg (sb s) * unat (s_inode_size (sb s)) \<le> table_off s h \<or>
        table_off s h + ipg (sb s) * unat (s_inode_size (sb s)) \<le> table_off s g)"

definition inode_ok :: "kfs \<Rightarrow> u32 \<Rightarrow> bool" where
  "inode_ok s n \<longleftrightarrow> 1 \<le> unat n \<and> unat n \<le> n_groups (sb s) * ipg (sb s)"

lemma inode_okD:
  assumes "itable_ok s" and "inode_ok s n"
  shows "(unat n - 1) div ipg (sb s) < n_groups (sb s)" and "(unat n - 1) mod ipg (sb s) < ipg (sb s)"
  using assms by (auto simp: itable_ok_def inode_ok_def geom_ok_def div_less_iff_less_mult)

lemma slot_in_table:
  fixes i per sz :: nat
  assumes "i < per"
  shows "i * sz + sz \<le> per * sz"
  using mult_le_mono1 [of "Suc i" per sz] assms by simp

lemma inode_slot_in:
  assumes "itable_ok s" and "inode_ok s n"
  shows "inode_slot s (unat n) + unat (s_inode_size (sb s)) \<le> d_size (image s)"
    and "inode_slot s (unat n) + 160 \<le> d_size (image s)"
    and "in_disk (image s) (inode_slot s (unat n)) 160"
proof -
  let ?g = "(unat n - 1) div ipg (sb s)" and ?i = "(unat n - 1) mod ipg (sb s)"
  have "table_off s ?g + ipg (sb s) * unat (s_inode_size (sb s)) \<le> d_size (image s)"
    using assms(1) inode_okD [OF assms] by (simp add: itable_ok_def)
  then show 1: "inode_slot s (unat n) + unat (s_inode_size (sb s)) \<le> d_size (image s)"
    using slot_in_table [OF inode_okD(2) [OF assms], of "unat (s_inode_size (sb s))"]
    by (simp add: inode_slot_def)
  then show 2: "inode_slot s (unat n) + 160 \<le> d_size (image s)"
    using assms(1) by (simp add: itable_ok_def)
  then show "in_disk (image s) (inode_slot s (unat n)) 160"
    using assms(1) by (auto simp: in_disk_def MAX_RW_COUNT_def itable_ok_def blocks_ok_def)
qed

lemma inode_get_offset_eq:
  assumes "itable_ok s" and "inode_ok s n"
  shows "\<exists>off. inode_get_offset n s = Some off \<and> unat off = inode_slot s (unat n)"
proof -
  have gm: "geom_ok (sb s)" and bk: "blocks_ok s" using assms(1) by (simp_all add: itable_ok_def)
  let ?g = "(unat n - 1) div ipg (sb s)" and ?i = "(unat n - 1) mod ipg (sb s)"
  let ?T = "EXT4_DESC_INODE_TABLE (gdt s ! ?g)" and ?z = "unat (s_inode_size (sb s))"
  have n0: "n \<noteq> 0" using assms(2) by (auto simp: inode_ok_def)
  then have n1: "unat (n - 1) = unat n - 1" by (simp add: unat_minus_one)
  have g: "unat ((n - 1) div s_inodes_per_group (sb s)) = ?g"
    and i: "unat ((n - 1) mod s_inodes_per_group (sb s)) = ?i"
    using n1 by (simp_all add: unat_div unat_mod)
  have lt: "?i * ?z < 2 ^ 32" "unat ?T * bsize s < 2 ^ 64" "unat ?T * bsize s + ?i * ?z < 2 ^ 64"
  proof -
    have "?i * ?z \<le> ipg (sb s) * ?z" using inode_okD(2) [OF assms] by (intro mult_le_mono1) simp
    also have "\<dots> < 2 ^ 32" using assms(1) by (simp add: itable_ok_def)
    finally show "?i * ?z < 2 ^ 32" .
    have "inode_slot s (unat n) < 2 ^ 63"
      using inode_slot_in(3) [OF assms] by (simp add: in_disk_def)
    then show "unat ?T * bsize s < 2 ^ 64" "unat ?T * bsize s + ?i * ?z < 2 ^ 64"
      by (simp_all add: inode_slot_def table_off_def)
  qed
  let ?o = "BLOCKS2BYTES (sb s) ?T + ucast ((n - 1) mod s_inodes_per_group (sb s) * ucast (s_inode_size (sb s)) :: u32)"
  have "unat (BLOCKS2BYTES (sb s) ?T) = unat ?T * bsize s"
    using lt(2) by (simp add: BLOCKS2BYTES_def unat_mult_nowrap)
  moreover have "unat ((n - 1) mod s_inodes_per_group (sb s) * ucast (s_inode_size (sb s)) :: u32) = ?i * ?z"
    using lt(1) i by (simp add: unat_mult_nowrap unat_ucast_wider)
  ultimately have "unat ?o = inode_slot s (unat n)"
    using lt(3) by (simp add: unat_add_nowrap unat_ucast_wider inode_slot_def table_off_def)
  moreover have "inode_get_offset n s = Some ?o"
  proof -
    have "unat (word_of_nat (n_groups (sb s)) :: u64) = n_groups (sb s)"
      using geom_okD(3) [OF gm] by (simp add: unat_of_nat)
    then show ?thesis
      using n0 g inode_okD(1) [OF assms] geom_okD(1,4) [OF gm] assms(1)
      by (simp add: inode_get_offset_def word_less_nat_alt unat_ucast_wider itable_ok_def)
  qed
  ultimately show ?thesis by blast
qed

lemma slots_apart:
  fixes tm tn i j per z :: nat
  assumes "160 \<le> z" and "i < per" and "j < per"
    and "tm = tn \<and> i \<noteq> j \<or> tm + per * z \<le> tn \<or> tn + per * z \<le> tm"
  shows "tm + i * z + 160 \<le> tn + j * z \<or> tn + j * z + 160 \<le> tm + i * z"
proof -
  have "i * z + z \<le> per * z" "j * z + z \<le> per * z"
    using assms(2,3) by (simp_all only: slot_in_table)
  moreover have "i * z + z \<le> j * z \<or> j * z + z \<le> i * z" if "i \<noteq> j"
    using that slot_in_table [of i j z] slot_in_table [of j i z] by (metis nat_neq_iff)
  ultimately show ?thesis using assms(1,4) by linarith
qed

lemma inode_slot_disjoint:
  assumes "itable_ok s" and "inode_ok s m" and "inode_ok s n" and "m \<noteq> n"
  shows "inode_slot s (unat m) + 160 \<le> inode_slot s (unat n) \<or>
    inode_slot s (unat n) + 160 \<le> inode_slot s (unat m)"
  unfolding inode_slot_def
proof (rule slots_apart)
  show "160 \<le> unat (s_inode_size (sb s))" using assms(1) by (simp add: itable_ok_def)
  show "(unat m - 1) mod ipg (sb s) < ipg (sb s)" "(unat n - 1) mod ipg (sb s) < ipg (sb s)"
    using inode_okD(2) [OF assms(1)] assms(2,3) by blast+
  let ?g = "\<lambda>n. (unat n - 1) div ipg (sb s)" and ?i = "\<lambda>n. (unat n - 1) mod ipg (sb s)"
  have "?i m \<noteq> ?i n" if g: "?g m = ?g n"
  proof
    assume "?i m = ?i n"
    with g have "unat m - 1 = unat n - 1" by (metis div_mult_mod_eq)
    then have "unat m = unat n" using assms(2,3) unfolding inode_ok_def by linarith
    then show False using assms(4) by (simp add: word_unat_eq_iff)
  qed
  moreover have "table_off s (?g m) + ipg (sb s) * unat (s_inode_size (sb s)) \<le> table_off s (?g n) \<or>
      table_off s (?g n) + ipg (sb s) * unat (s_inode_size (sb s)) \<le> table_off s (?g m)"
    if "?g m \<noteq> ?g n"
    using assms(1) inode_okD(1) [OF assms(1,2)] inode_okD(1) [OF assms(1,3)] that
    unfolding itable_ok_def by blast
  ultimately show "table_off s (?g m) = table_off s (?g n) \<and> ?i m \<noteq> ?i n \<or>
      table_off s (?g m) + ipg (sb s) * unat (s_inode_size (sb s)) \<le> table_off s (?g n) \<or>
      table_off s (?g n) + ipg (sb s) * unat (s_inode_size (sb s)) \<le> table_off s (?g m)"
    by (cases "?g m = ?g n") simp_all
qed

text \<open>C11: \<open>inode_get_offset\<close> returns, for every inode number of the image, an offset whose 160-byte
  slot lies inside the image, and the slots of different inodes do not overlap.\<close>

theorem inode_get_offset_disjoint:
  assumes "itable_ok s" and "inode_ok s m" and "inode_ok s n" and "m \<noteq> n"
  shows "\<exists>a b. inode_get_offset m s = Some a \<and> inode_get_offset n s = Some b \<and>
    unat a + 160 \<le> d_size (image s) \<and> unat b + 160 \<le> d_size (image s) \<and>
    (unat a + 160 \<le> unat b \<or> unat b + 160 \<le> unat a)"
  using inode_get_offset_eq [OF assms(1,2)] inode_get_offset_eq [OF assms(1,3)]
    inode_slot_in(2) [OF assms(1,2)] inode_slot_in(2) [OF assms(1,3)] inode_slot_disjoint [OF assms]
  by auto

lemma all_less_two: "(\<forall>g < (2 :: nat). P g) \<longleftrightarrow> P 0 \<and> P 1"
  by (auto simp: less_2_cases_iff)

lemma sample_itable_ok [simp]: "itable_ok sample_kfs"
proof -
  have bs: "BLOCK_SIZE sample_kfs = 1024"
    by (simp add: sample_kfs_def sample_sb_def EXT4_BLOCK_SIZE_def)
  have t: "table_off sample_kfs 0 = 4096" "table_off sample_kfs (Suc 0) = 20480"
    by (simp_all add: table_off_def bs)
       (simp_all add: sample_kfs_def sample_gd_def EXT4_DESC_INODE_TABLE_def)
  have z: "s_inode_size (sb sample_kfs) = 256" "d_size (image sample_kfs) = 32768"
    "length (gdt sample_kfs) = 2"
    by (simp_all add: sample_kfs_def sample_sb_def)
  have "blocks_ok sample_kfs" by (simp add: blocks_ok_def sample_kfs_def sample_sb_def)
  then show ?thesis
    using sample_bitmaps_ok unfolding itable_ok_def bitmaps_ok_def
    by (simp add: z t less_2_cases_iff all_less_two)
qed

theorem inode_get_offset_disjoint_witness:
  "\<exists>a b. inode_get_offset 2 sample_kfs = Some a \<and> inode_get_offset 9 sample_kfs = Some b \<and>
    unat a + 160 \<le> d_size (image sample_kfs) \<and> unat b + 160 \<le> d_size (image sample_kfs) \<and>
    (unat a + 160 \<le> unat b \<or> unat b + 160 \<le> unat a)"
  by (rule inode_get_offset_disjoint) (simp_all add: inode_ok_def)

end
