(* ===== verification/Icache.thy ===== *)
theory Icache
  imports Block_Map
begin

text \<open>
  The inode cache and the directory block buffer, \<open>src/cache.c\<close> and the macros of
  \<open>src/cache.h\<close>, with \<open>inode_get_by_number\<close> of \<open>src/inode.c\<close>. An inode pointer is the index of its entry.
\<close>

section \<open>Entries\<close>

definition ic_get :: "nat \<Rightarrow> kfs \<Rightarrow> icache_entry option" where
  "ic_get i s = index (ic_entries (icache s)) i"

definition ic_set :: "nat \<Rightarrow> icache_entry \<Rightarrow> kfs \<Rightarrow> kfs" where
  "ic_set i e s = s\<lparr>icache := (icache s)\<lparr>ic_entries := (ic_entries (icache s))[i := e]\<rparr>\<rparr>"

definition ic_upd :: "nat \<Rightarrow> (icache_entry \<Rightarrow> icache_entry) \<Rightarrow> kfs \<Rightarrow> kfs option" where
  "ic_upd i f s = do {
     e \<leftarrow> ic_get i s;
     Some (ic_set i (f e) s)
   }"

text \<open>Reading and updating \<open>*inode\<close>.\<close>

definition ino :: "nat \<Rightarrow> kfs \<Rightarrow> ext4_inode option" where
  "ino i s = do { e \<leftarrow> ic_get i s; Some (ic_inode e) }"

definition upd_ino :: "nat \<Rightarrow> (ext4_inode \<Rightarrow> ext4_inode) \<Rightarrow> kfs \<Rightarrow> kfs option" where
  "upd_ino i f = ic_upd i (\<lambda>e. e\<lparr>ic_inode := f (ic_inode e)\<rparr>)"

definition ICACHE_LRU_INC :: "nat \<Rightarrow> kfs \<Rightarrow> kfs option" where
  "ICACHE_LRU_INC i =
     ic_upd i (\<lambda>e. if ic_lru_count e < 0xffffffff then e\<lparr>ic_lru_count := ic_lru_count e + 1\<rparr> else e)"

definition ICACHE_SET_INVAL :: "nat \<Rightarrow> kfs \<Rightarrow> kfs option" where
  "ICACHE_SET_INVAL i = ic_upd i (\<lambda>e. e\<lparr>ic_status := ICACHE_S_INVAL\<rparr>)"

definition ICACHE_SET_DIRTY :: "nat \<Rightarrow> kfs \<Rightarrow> kfs option" where
  "ICACHE_SET_DIRTY i = ic_upd i (\<lambda>e. e\<lparr>ic_status := ICACHE_S_DIRTY\<rparr>)"

definition ICACHE_IS_VALID :: "nat \<Rightarrow> kfs \<Rightarrow> bool option" where
  "ICACHE_IS_VALID i s = do { e \<leftarrow> ic_get i s; Some (ic_status e \<noteq> ICACHE_S_INVAL) }"

definition ICACHE_CHECK_LAST_DE :: "nat \<Rightarrow> kfs \<Rightarrow> bool option" where
  "ICACHE_CHECK_LAST_DE i s = do {
     e \<leftarrow> ic_get i s;
     Some (ic_status e \<noteq> ICACHE_S_INVAL \<and> ic_last_de e \<noteq> None)
   }"

definition ICACHE_GET_LAST_DE :: "nat \<Rightarrow> kfs \<Rightarrow> nat option option" where
  "ICACHE_GET_LAST_DE i s = do { e \<leftarrow> ic_get i s; Some (ic_last_de e) }"

definition ICACHE_SET_LAST_DE :: "nat \<Rightarrow> nat option \<Rightarrow> kfs \<Rightarrow> kfs option" where
  "ICACHE_SET_LAST_DE i de = ic_upd i (\<lambda>e. e\<lparr>ic_last_de := de\<rparr>)"

section \<open>Lookup, replacement and insertion\<close>

text \<open>The loop of \<open>icache_find\<close> over the entries \<open>i, i + 1, ...\<close>; \<open>k\<close> of them are left.\<close>

fun icache_find_from :: "u32 \<Rightarrow> kfs \<Rightarrow> nat \<Rightarrow> nat \<Rightarrow> nat option option" where
  "icache_find_from inode_idx s i 0 = Some None"
| "icache_find_from inode_idx s i (Suc k) = do {
     e \<leftarrow> ic_get i s;
     if ic_status e \<noteq> ICACHE_S_INVAL \<and> ic_inode_idx e = inode_idx then Some (Some i)
     else icache_find_from inode_idx s (Suc i) k
   }"

definition icache_find :: "u32 \<Rightarrow> kfs \<Rightarrow> nat option option" where
  "icache_find inode_idx s = icache_find_from inode_idx s 0 (ic_count (icache s))"

definition icache_write_back :: "icache_entry \<Rightarrow> kfs \<Rightarrow> kfs option" where
  "icache_write_back e s = do {
     off \<leftarrow> inode_get_offset (ic_inode_idx e) s;
     k_write off (enc_inode (ic_inode e)) s
   }"

text \<open>Filling the entry \<open>i\<close>: the inode is read from its slot or left as it is.\<close>

definition icache_fill :: "nat \<Rightarrow> u32 \<Rightarrow> bool \<Rightarrow> kfs \<Rightarrow> kfs option" where
  "icache_fill i inode_idx read_from_disk s = do {
     e \<leftarrow> ic_get i s;
     inode \<leftarrow> (if read_from_disk then do {
                    off \<leftarrow> inode_get_offset inode_idx s;
                    bs \<leftarrow> k_read off SIZEOF_INODE s;
                    Some (dec_inode bs)
                  } else Some (ic_inode e));
     Some (ic_set i \<lparr>ic_inode = inode, ic_inode_idx = inode_idx, ic_lru_count = 0,
                     ic_status = ICACHE_S_VALID, ic_last_de = None\<rparr> s)
   }"

text \<open>The scan of \<open>icache_lru_replace\<close>: \<open>Inl i\<close> is an invalid entry, \<open>Inr\<close> the index of the
  least recently used one, \<open>None\<close> for the initial \<open>-1\<close>. The count is compared as an unsigned
  number with \<open>lru_count\<close>, initially \<open>INT_MAX\<close>.\<close>

fun lru_scan :: "kfs \<Rightarrow> nat \<Rightarrow> nat \<Rightarrow> nat option \<Rightarrow> u32 \<Rightarrow> (nat + nat option) option" where
  "lru_scan s i 0 lru_idx lru_count = Some (Inr lru_idx)"
| "lru_scan s i (Suc k) lru_idx lru_count = do {
     e \<leftarrow> ic_get i s;
     if ic_status e = ICACHE_S_INVAL then Some (Inl i)
     else if ic_lru_count e < lru_count then lru_scan s (Suc i) k (Some i) (ic_lru_count e)
     else lru_scan s (Suc i) k lru_idx lru_count
   }"

definition icache_lru_replace :: "u32 \<Rightarrow> bool \<Rightarrow> kfs \<Rightarrow> (nat \<times> kfs) option" where
  "icache_lru_replace inode_idx read_from_disk s = do {
     r \<leftarrow> lru_scan s 0 (ic_count (icache s)) None 0x7fffffff;
     case r of
       Inl i \<Rightarrow> do {
         s \<leftarrow> icache_fill i inode_idx read_from_disk s;
         Some (i, s)
       }
     | Inr lru_idx \<Rightarrow> do {
         i \<leftarrow> lru_idx;
         e \<leftarrow> ic_get i s;
         s \<leftarrow> (if ic_status e = ICACHE_S_DIRTY then icache_write_back e s else Some s);
         s \<leftarrow> icache_fill i inode_idx read_from_disk s;
         Some (i, s)
       }
   }"

definition icache_insert :: "u32 \<Rightarrow> bool \<Rightarrow> kfs \<Rightarrow> (nat \<times> kfs) option" where
  "icache_insert inode_idx read_from_disk s =
     (if ic_count (icache s) = ICACHE_MAX_COUNT
      then icache_lru_replace inode_idx read_from_disk s
      else do {
        let i = ic_count (icache s);
        s \<leftarrow> icache_fill i inode_idx read_from_disk s;
        Some (i, s\<lparr>icache := (icache s)\<lparr>ic_count := Suc i\<rparr>\<rparr>)
      })"

definition inode_get_by_number :: "u32 \<Rightarrow> kfs \<Rightarrow> ((errno + nat) \<times> kfs) option" where
  "inode_get_by_number inode_idx s =
     (if inode_idx = 0 then Some (Inl ENOENT, s)
      else do {
        ic_entry \<leftarrow> icache_find inode_idx s;
        (i, s) \<leftarrow> (case ic_entry of
            Some i \<Rightarrow> Some (i, s)
          | None \<Rightarrow> icache_insert inode_idx True s);
        s \<leftarrow> ICACHE_LRU_INC i s;
        Some (Inr i, s)
      })"

section \<open>The directory block buffer\<close>

definition dcache_load_lblock :: "nat \<Rightarrow> u32 \<Rightarrow> kfs \<Rightarrow> kfs option" where
  "dcache_load_lblock i lblock s = do {
     inode \<leftarrow> ino i s;
     (pblock, _) \<leftarrow> inode_get_data_pblock inode lblock s;
     buf \<leftarrow> disk_read_block pblock s;
     Some (s\<lparr>dcache := (dcache s)\<lparr>dc_buf := buf, dc_lblock := lblock, dc_pblock := ucast pblock\<rparr>\<rparr>)
   }"

definition dcache_init :: "nat \<Rightarrow> u32 \<Rightarrow> kfs \<Rightarrow> kfs option" where
  "dcache_init i inode_idx s = do {
     ASSERT (inode_idx \<noteq> 0);
     s \<leftarrow> ICACHE_LRU_INC i s;
     if dc_inode_idx (dcache s) = inode_idx \<and> dc_lblock (dcache s) = 0 then Some s
     else do {
       let s = s\<lparr>dcache := (dcache s)\<lparr>dc_inode_idx := inode_idx\<rparr>\<rparr>;
       dcache_load_lblock i 0 s
     }
   }"

definition dcache_write_back :: "kfs \<Rightarrow> kfs option" where
  "dcache_write_back s = disk_write_block (ucast (dc_pblock (dcache s))) (dc_buf (dcache s)) s"

section \<open>The contents of the cache\<close>

abbreviation ics :: "kfs \<Rightarrow> icache_entry list" where "ics s \<equiv> ic_entries (icache s)"
abbreviation icn :: "kfs \<Rightarrow> nat" where "icn s \<equiv> ic_count (icache s)"

text \<open>Entry \<open>i\<close> caches the inode \<open>n\<close>.\<close>

definition caches :: "kfs \<Rightarrow> nat \<Rightarrow> u32 \<Rightarrow> bool" where
  "caches s i n \<longleftrightarrow> i < icn s \<and> ic_status (ics s ! i) \<noteq> ICACHE_S_INVAL \<and> ic_inode_idx (ics s ! i) = n"

definition disk_inode :: "kfs \<Rightarrow> u32 \<Rightarrow> ext4_inode" where
  "disk_inode s n = dec_inode (d_slice (image s) (inode_slot s (unat n)) 160)"

text \<open>An inode is what the cache says of it, or else what its slot on the disk says.\<close>

definition inode_view :: "kfs \<Rightarrow> u32 \<Rightarrow> ext4_inode" where
  "inode_view s n = (case find (\<lambda>i. caches s i n) [0..<icn s] of
     Some i \<Rightarrow> ic_inode (ics s ! i) | None \<Rightarrow> disk_inode s n)"

text \<open>The invariant: no inode is cached twice, cached inodes exist, and an entry that is not dirty
  agrees with the disk.\<close>

definition icache_ok :: "kfs \<Rightarrow> bool" where
  "icache_ok s \<longleftrightarrow> itable_ok s \<and> length (ics s) = ICACHE_MAX_COUNT \<and> icn s \<le> ICACHE_MAX_COUNT \<and>
     (\<forall>i < ICACHE_MAX_COUNT. wf_inode (ic_inode (ics s ! i))) \<and>
     (\<forall>i < icn s. ic_status (ics s ! i) \<noteq> ICACHE_S_INVAL \<longrightarrow> inode_ok s (ic_inode_idx (ics s ! i))) \<and>
     (\<forall>i < icn s. \<forall>j < icn s. caches s i (ic_inode_idx (ics s ! j)) \<and> caches s j (ic_inode_idx (ics s ! j)) \<longrightarrow> i = j) \<and>
     (\<forall>i < icn s. ic_status (ics s ! i) = ICACHE_S_VALID \<longrightarrow> ic_inode (ics s ! i) = disk_inode s (ic_inode_idx (ics s ! i)))"

lemma icache_okD:
  assumes "icache_ok s"
  shows "itable_ok s" "length (ics s) = 64" "icn s \<le> 64"
    and "i < 64 \<Longrightarrow> wf_inode (ic_inode (ics s ! i))"
    and "caches s i n \<Longrightarrow> inode_ok s n"
    and "caches s i n \<Longrightarrow> caches s j n \<Longrightarrow> i = j"
    and "caches s i n \<Longrightarrow> ic_status (ics s ! i) \<noteq> ICACHE_S_DIRTY \<Longrightarrow> ic_inode (ics s ! i) = disk_inode s n"
proof -
  show "itable_ok s" "length (ics s) = 64" "icn s \<le> 64" "i < 64 \<Longrightarrow> wf_inode (ic_inode (ics s ! i))"
    using assms by (simp_all add: icache_ok_def ICACHE_MAX_COUNT_def)
  show "caches s i n \<Longrightarrow> inode_ok s n" using assms by (auto simp: icache_ok_def caches_def)
  show "caches s i n \<Longrightarrow> caches s j n \<Longrightarrow> i = j"
    using assms unfolding icache_ok_def by (metis caches_def)
  show "caches s i n \<Longrightarrow> ic_status (ics s ! i) \<noteq> ICACHE_S_DIRTY \<Longrightarrow> ic_inode (ics s ! i) = disk_inode s n"
    using assms by (cases "ic_status (ics s ! i)") (auto simp: icache_ok_def caches_def)
qed

lemma icache_okI:
  assumes "itable_ok s" "length (ics s) = 64" "icn s \<le> 64"
    and "\<And>i. i < 64 \<Longrightarrow> wf_inode (ic_inode (ics s ! i))"
    and "\<And>i n. caches s i n \<Longrightarrow> inode_ok s n"
    and "\<And>i j n. caches s i n \<Longrightarrow> caches s j n \<Longrightarrow> i = j"
    and "\<And>i n. caches s i n \<Longrightarrow> ic_status (ics s ! i) = ICACHE_S_VALID \<Longrightarrow> ic_inode (ics s ! i) = disk_inode s n"
  shows "icache_ok s"
  unfolding icache_ok_def ICACHE_MAX_COUNT_def
  using assms by (auto simp: caches_def)

lemma inode_view_cached: "icache_ok s \<Longrightarrow> caches s i n \<Longrightarrow> inode_view s n = ic_inode (ics s ! i)"
proof -
  assume ok: "icache_ok s" and c: "caches s i n"
  then have "i \<in> set [0..<icn s]" by (simp add: caches_def)
  with c obtain j where j: "find (\<lambda>i. caches s i n) [0..<icn s] = Some j"
    by (metis find_None_iff not_None_eq)
  then have "caches s j n" by (auto simp: find_Some_iff)
  then have "j = i" using icache_okD(6) [OF ok _ c] by blast
  with j show ?thesis by (simp add: inode_view_def)
qed

lemma inode_view_uncached: "\<nexists>i. caches s i n \<Longrightarrow> inode_view s n = disk_inode s n"
proof -
  assume "\<nexists>i. caches s i n"
  then have "find (\<lambda>i. caches s i n) [0..<icn s] = None" by (simp add: find_None_iff)
  then show ?thesis by (simp add: inode_view_def)
qed

lemma inode_view_eqI:
  assumes "icache_ok s'" and "\<And>i. caches s' i n \<Longrightarrow> ic_inode (ics s' ! i) = v"
    and "\<nexists>i. caches s' i n \<Longrightarrow> disk_inode s' n = v"
  shows "inode_view s' n = v"
  using assms by (metis inode_view_cached inode_view_uncached)

lemma icache_find_from_eq:
  assumes "i + k \<le> length (ics s)" "i + k \<le> icn s"
  shows "icache_find_from n s i k = Some (find (\<lambda>i. caches s i n) [i..<i + k])"
  using assms
proof (induction k arbitrary: i)
  case (Suc k)
  have "[i..<i + Suc k] = i # [Suc i..<Suc i + k]" using upt_conv_Cons [of i "i + Suc k"] by simp
  then show ?case using Suc by (simp add: ic_get_def caches_def)
qed simp

lemma icache_find_eq:
  assumes "icache_ok s"
  obtains i where "icache_find n s = Some (Some i)" "caches s i n"
  | "icache_find n s = Some None" "\<nexists>i. caches s i n"
proof -
  have eq: "icache_find n s = Some (find (\<lambda>i. caches s i n) [0..<icn s])"
    using icache_find_from_eq [of 0 "icn s" s n] icache_okD(2,3) [OF assms] by (simp add: icache_find_def)
  show ?thesis
  proof (cases "find (\<lambda>i. caches s i n) [0..<icn s]")
    case (Some i)
    then have "caches s i n" by (auto simp: find_Some_iff)
    with Some eq show ?thesis by (intro that(1)) simp_all
  next
    case None
    then have "\<nexists>i. caches s i n" by (auto simp: find_None_iff caches_def)
    with None eq show ?thesis by (intro that(2)) simp_all
  qed
qed

section \<open>Steps of the cache\<close>

text \<open>What reads only the super block, the descriptors and the image.\<close>

lemma icache_upd_simps [simp]:
  "itable_ok (s\<lparr>icache := c\<rparr>) = itable_ok s" "inode_ok (s\<lparr>icache := c\<rparr>) n = inode_ok s n"
  "disk_inode (s\<lparr>icache := c\<rparr>) n = disk_inode s n" "inode_slot (s\<lparr>icache := c\<rparr>) k = inode_slot s k"
  "inode_get_offset n (s\<lparr>icache := c\<rparr>) = inode_get_offset n s"
  by (simp_all add: itable_ok_def inode_ok_def blocks_ok_def table_off_def disk_inode_def inode_slot_def
      inode_get_offset_def)

lemma read_inode_slot:
  assumes "itable_ok s" "inode_ok s n" "inode_get_offset n s = Some off"
  shows "k_read off SIZEOF_INODE s = Some (d_slice (image s) (inode_slot s (unat n)) 160)"
proof -
  have "unat off = inode_slot s (unat n)" using inode_get_offset_eq [OF assms(1,2)] assms(3) by auto
  then show ?thesis
    using inode_slot_in(3) [OF assms(1,2)] disk_read_in_disk [of "image s" off SIZEOF_INODE]
    by (simp add: k_read_def SIZEOF_INODE_def)
qed

lemma icache_fill_eq:
  assumes "itable_ok s" "inode_ok s n" "i < length (ics s)"
  shows "icache_fill i n True s = Some (ic_set i \<lparr>ic_inode = disk_inode s n, ic_inode_idx = n, ic_lru_count = 0,
      ic_status = ICACHE_S_VALID, ic_last_de = None\<rparr> s)"
proof -
  obtain off where off: "inode_get_offset n s = Some off" using inode_get_offset_eq [OF assms(1,2)] by auto
  then show ?thesis
    using read_inode_slot [OF assms(1,2) off] assms(3)
    by (simp add: icache_fill_def ic_get_def disk_inode_def)
qed

text \<open>Writing one inode back changes its slot and no other.\<close>

lemma write_inode_slot:
  assumes "itable_ok s" "inode_ok s n" "wf_inode r" "inode_get_offset n s = Some off"
  obtains s' where "k_write off (enc_inode r) s = Some s'" "s' = s\<lparr>image := image s'\<rparr>" "itable_ok s'"
    "disk_inode s' n = r" "\<And>m. inode_ok s m \<Longrightarrow> m \<noteq> n \<Longrightarrow> disk_inode s' m = disk_inode s m"
proof -
  have u: "unat off = inode_slot s (unat n)" using inode_get_offset_eq [OF assms(1,2)] assms(4) by auto
  have l: "length (enc_inode r) = 160" by (rule length_enc_inode [OF assms(3)])
  have ind: "in_disk (image s) (unat off) (length (enc_inode r))" using inode_slot_in(3) [OF assms(1,2)] u l by simp
  obtain d where d: "disk_write off (enc_inode r) (image s) = Some d" using disk_write_in_disk [OF ind] by blast
  let ?s = "s\<lparr>image := d\<rparr>"
  have slot: "inode_slot ?s = inode_slot s" by (simp add: inode_slot_def table_off_def fun_eq_iff)
  show ?thesis
  proof (rule that [of ?s])
    show "k_write off (enc_inode r) s = Some ?s" using d by (simp add: k_write_def)
    show "itable_ok ?s"
      using assms(1) disk_write_size [OF ind d] disk_write_frame(1) [OF d]
      by (simp add: itable_ok_def blocks_ok_def table_off_def)
    show "disk_inode ?s n = r"
      using d_slice_write_same [OF d] u l dec_enc_inode [OF assms(3)] by (simp add: disk_inode_def slot)
    show "disk_inode ?s m = disk_inode s m" if "inode_ok s m" "m \<noteq> n" for m
      using d_slice_write_disjoint [OF d inode_slot_in(2) [OF assms(1) that(1)]] u l
        inode_slot_disjoint [OF assms(1) that(1) assms(2) that(2)]
      by (auto simp: disk_inode_def slot)
  qed simp
qed

lemma caches_image [simp]: "caches (s\<lparr>image := d\<rparr>) = caches s"
  by (simp add: caches_def fun_eq_iff)

lemma inode_ok_image [simp]: "inode_ok (s\<lparr>image := d\<rparr>) = inode_ok s"
  by (simp add: inode_ok_def fun_eq_iff)

text \<open>Two states show the same inodes.\<close>

definition same_view :: "kfs \<Rightarrow> kfs \<Rightarrow> bool" where
  "same_view s s' \<longleftrightarrow> sb s' = sb s \<and> gdt s' = gdt s \<and> (\<forall>n. inode_ok s n \<longrightarrow> inode_view s' n = inode_view s n)"

lemma icache_write_back_ok:
  assumes ok: "icache_ok s" and c: "caches s i n"
  obtains s' where "icache_write_back (ics s ! i) s = Some s'" "icache_ok s'" "same_view s s'"
    "s' = s\<lparr>image := image s'\<rparr>" "disk_inode s' n = ic_inode (ics s ! i)"
    "\<forall>m. inode_ok s m \<and> m \<noteq> n \<longrightarrow> disk_inode s' m = disk_inode s m"
proof -
  have it: "itable_ok s" "inode_ok s n" using icache_okD(1,5) [OF ok] c by blast+
  have i: "i < 64" using c icache_okD(3) [OF ok] by (simp add: caches_def)
  obtain off where off: "inode_get_offset n s = Some off" using inode_get_offset_eq [OF it] by auto
  obtain s' where s': "k_write off (enc_inode (ic_inode (ics s ! i))) s = Some s'" "s' = s\<lparr>image := image s'\<rparr>" "itable_ok s'"
    "disk_inode s' n = ic_inode (ics s ! i)" "\<And>m. inode_ok s m \<Longrightarrow> m \<noteq> n \<Longrightarrow> disk_inode s' m = disk_inode s m"
    using write_inode_slot [OF it icache_okD(4) [OF ok i] off] by metis
  have same: "ics s' = ics s" "icn s' = icn s" "caches s' = caches s" "inode_ok s' = inode_ok s" "sb s' = sb s" "gdt s' = gdt s"
    using s'(2) by (metis caches_image inode_ok_image kfs.select_convs kfs.update_convs(1) kfs.surjective)+
  have dn: "disk_inode s' m = ic_inode (ics s ! j)" if "caches s j m" "j = i \<or> ic_status (ics s ! j) = ICACHE_S_VALID" for j m
  proof (cases "m = n")
    case True
    with that c s'(4) icache_okD(6) [OF ok] show ?thesis by metis
  next
    case False
    with that c have "j \<noteq> i" by (auto simp: caches_def)
    then have "ic_inode (ics s ! j) = disk_inode s m" using that icache_okD(7) [OF ok that(1)] by auto
    with False s'(5) icache_okD(5) [OF ok that(1)] show ?thesis by simp
  qed
  have ok': "icache_ok s'"
    using icache_okD [OF ok] s'(3) dn by (intro icache_okI) (auto simp: same)
  have "inode_view s' m = inode_view s m" if "inode_ok s m" for m
  proof (rule inode_view_eqI [OF ok'])
    show "ic_inode (ics s' ! j) = inode_view s m" if "caches s' j m" for j
      using that inode_view_cached [OF ok] by (simp add: same)
    show "disk_inode s' m = inode_view s m" if "\<nexists>j. caches s' j m"
    proof -
      have "m \<noteq> n" using that c by (auto simp: same)
      then show ?thesis using that s'(5) [OF \<open>inode_ok s m\<close>] inode_view_uncached by (simp add: same)
    qed
  qed
  then have "same_view s s'" by (simp add: same_view_def same)
  moreover have "icache_write_back (ics s ! i) s = Some s'"
    using off s'(1) c by (simp add: icache_write_back_def caches_def)
  ultimately show ?thesis using that ok' s'(2,4,5) by blast
qed

text \<open>The entry that \<open>icache_fill\<close> makes, put in place of one that is unused, invalid or equal to
  the disk. \<open>c\<close> is the new count.\<close>

definition fresh_entry :: "kfs \<Rightarrow> u32 \<Rightarrow> icache_entry" where
  "fresh_entry s n = \<lparr>ic_inode = disk_inode s n, ic_inode_idx = n, ic_lru_count = 0,
     ic_status = ICACHE_S_VALID, ic_last_de = None\<rparr>"

definition install :: "kfs \<Rightarrow> nat \<Rightarrow> u32 \<Rightarrow> nat \<Rightarrow> kfs" where
  "install s i n c = s\<lparr>icache := \<lparr>ic_entries = (ics s)[i := fresh_entry s n], ic_count = c\<rparr>\<rparr>"

lemma caches_install:
  assumes "icache_ok s" "i < 64" "i < icn s \<and> c = icn s \<or> i = icn s \<and> c = Suc i"
  shows "caches (install s i n c) j m \<longleftrightarrow> (if j = i then m = n else caches s j m)"
  using assms icache_okD(2) [OF assms(1)]
  by (auto simp: caches_def install_def fresh_entry_def nth_list_update)

lemma install_ok:
  assumes ok: "icache_ok s" and i: "i < 64" "i < icn s \<and> c = icn s \<or> i = icn s \<and> c = Suc i"
    and n: "inode_ok s n" "\<nexists>i. caches s i n"
    and clean: "\<And>m. caches s i m \<Longrightarrow> ic_inode (ics s ! i) = disk_inode s m"
  shows "icache_ok (install s i n c)" "same_view s (install s i n c)" "caches (install s i n c) i n"
    "inode_view s n = ic_inode (ics (install s i n c) ! i)"
proof -
  let ?s = "install s i n c"
  note cs = caches_install [OF ok i, of n]
  have it: "itable_ok s" "length (ics s) = 64" "icn s \<le> 64" by (rule icache_okD [OF ok])+
  have simps: "ics ?s = (ics s)[i := fresh_entry s n]" "icn ?s = c" "disk_inode ?s = disk_inode s"
    "inode_ok ?s = inode_ok s" "itable_ok ?s = itable_ok s"
    by (simp_all add: install_def fun_eq_iff)
  have nth: "j < 64 \<Longrightarrow> ics ?s ! j = (if j = i then fresh_entry s n else ics s ! j)" for j
    using it(2) by (simp add: simps nth_list_update)
  have lt: "caches s j m \<Longrightarrow> j < 64" for j m using it(3) by (simp add: caches_def)
  have wf: "wf_inode (disk_inode s n)" unfolding disk_inode_def by (rule wf_dec_inode) simp
  show ok': "icache_ok ?s"
  proof (rule icache_okI)
    show "itable_ok ?s" "length (ics ?s) = 64" "icn ?s \<le> 64" using it i by (auto simp: simps)
    show "wf_inode (ic_inode (ics ?s ! j))" if "j < 64" for j
      using icache_okD(4) [OF ok that] nth [OF that] wf by (simp add: fresh_entry_def)
    show "inode_ok ?s m" if "caches ?s j m" for j m
      using that n(1) icache_okD(5) [OF ok] by (auto simp: cs simps split: if_splits)
    show "j = k" if "caches ?s j m" "caches ?s k m" for j k m
      using that n(2) icache_okD(6) [OF ok] by (auto simp: cs split: if_splits)
    show "ic_inode (ics ?s ! j) = disk_inode ?s m" if "caches ?s j m" "ic_status (ics ?s ! j) = ICACHE_S_VALID" for j m
    proof (cases "j = i")
      case True
      with that(1) nth [OF i(1)] show ?thesis by (simp add: cs simps fresh_entry_def)
    next
      case False
      with that have "caches s j m" by (simp add: cs)
      with that(2) False nth [OF lt] icache_okD(7) [OF ok] show ?thesis by (simp add: simps)
    qed
  qed
  show c: "caches ?s i n" by (simp add: cs)
  show nv: "inode_view s n = ic_inode (ics ?s ! i)"
    using inode_view_uncached [OF n(2)] nth [OF i(1)] by (simp add: fresh_entry_def)
  have "inode_view ?s m = inode_view s m" if "inode_ok s m" for m
  proof (rule inode_view_eqI [OF ok'])
    show "ic_inode (ics ?s ! j) = inode_view s m" if "caches ?s j m" for j
      using that nv inode_view_cached [OF ok] nth lt by (cases "j = i") (auto simp: cs)
    show "disk_inode ?s m = inode_view s m" if un: "\<nexists>j. caches ?s j m"
    proof (cases "caches s i m")
      case True
      then show ?thesis using clean inode_view_cached [OF ok True] by (simp add: simps)
    next
      case False
      with un have "\<nexists>j. caches s j m" by (metis cs)
      then show ?thesis using inode_view_uncached by (simp add: simps)
    qed
  qed
  then show "same_view s ?s" by (simp add: same_view_def install_def)
qed

text \<open>The scan for a victim over the entries from \<open>i\<close> on, \<open>k\<close> of them: \<open>r\<close> is the victim so far
  or one of the entries with the least count below \<open>cnt\<close>.\<close>

definition lru_found :: "kfs \<Rightarrow> nat \<Rightarrow> nat \<Rightarrow> nat option \<Rightarrow> u32 \<Rightarrow> nat option \<Rightarrow> bool" where
  "lru_found s i k idx cnt r \<longleftrightarrow>
     r = idx \<and> (\<forall>j \<in> {i..<i + k}. cnt \<le> ic_lru_count (ics s ! j)) \<or>
     (\<exists>j \<in> {i..<i + k}. r = Some j \<and> ic_lru_count (ics s ! j) < cnt \<and>
        (\<forall>j' \<in> {i..<i + k}. ic_lru_count (ics s ! j) \<le> ic_lru_count (ics s ! j')))"

lemma range_Suc: "{i..<i + Suc k} = insert i {Suc i..<Suc i + k}" by auto

lemma lru_found_less:
  assumes "lru_found s (Suc i) k (Some i) (ic_lru_count (ics s ! i)) r" "ic_lru_count (ics s ! i) < cnt"
  shows "lru_found s i (Suc k) idx cnt r"
  using assms(1) unfolding lru_found_def [of s "Suc i"]
proof
  assume "r = Some i \<and> (\<forall>j \<in> {Suc i..<Suc i + k}. ic_lru_count (ics s ! i) \<le> ic_lru_count (ics s ! j))"
  then show ?thesis unfolding lru_found_def range_Suc using assms(2) by blast
next
  assume "\<exists>j \<in> {Suc i..<Suc i + k}. r = Some j \<and> ic_lru_count (ics s ! j) < ic_lru_count (ics s ! i) \<and>
        (\<forall>j' \<in> {Suc i..<Suc i + k}. ic_lru_count (ics s ! j) \<le> ic_lru_count (ics s ! j'))"
  then obtain j where j: "j \<in> {Suc i..<Suc i + k}" "r = Some j" "ic_lru_count (ics s ! j) < ic_lru_count (ics s ! i)"
        "\<forall>j' \<in> {Suc i..<Suc i + k}. ic_lru_count (ics s ! j) \<le> ic_lru_count (ics s ! j')" by blast
  then have "ic_lru_count (ics s ! j) < cnt" "ic_lru_count (ics s ! j) \<le> ic_lru_count (ics s ! i)"
    using order.strict_trans [OF j(3) assms(2)] less_imp_le [OF j(3)] by blast+
  with j show ?thesis unfolding lru_found_def range_Suc by blast
qed

lemma lru_found_ge:
  assumes "lru_found s (Suc i) k idx cnt r" "cnt \<le> ic_lru_count (ics s ! i)"
  shows "lru_found s i (Suc k) idx cnt r"
  using assms(1) unfolding lru_found_def [of s "Suc i"]
proof
  assume "r = idx \<and> (\<forall>j \<in> {Suc i..<Suc i + k}. cnt \<le> ic_lru_count (ics s ! j))"
  then show ?thesis unfolding lru_found_def range_Suc using assms(2) by blast
next
  assume "\<exists>j \<in> {Suc i..<Suc i + k}. r = Some j \<and> ic_lru_count (ics s ! j) < cnt \<and>
        (\<forall>j' \<in> {Suc i..<Suc i + k}. ic_lru_count (ics s ! j) \<le> ic_lru_count (ics s ! j'))"
  then obtain j where j: "j \<in> {Suc i..<Suc i + k}" "r = Some j" "ic_lru_count (ics s ! j) < cnt"
        "\<forall>j' \<in> {Suc i..<Suc i + k}. ic_lru_count (ics s ! j) \<le> ic_lru_count (ics s ! j')" by blast
  then have "ic_lru_count (ics s ! j) \<le> ic_lru_count (ics s ! i)"
    using order.trans [OF less_imp_le [OF j(3)] assms(2)] by blast
  with j show ?thesis unfolding lru_found_def range_Suc by blast
qed

lemma lru_found_Suc:
  assumes "lru_found s (Suc i) k (if ic_lru_count (ics s ! i) < cnt then Some i else idx)
      (if ic_lru_count (ics s ! i) < cnt then ic_lru_count (ics s ! i) else cnt) r"
  shows "lru_found s i (Suc k) idx cnt r"
proof (cases "ic_lru_count (ics s ! i) < cnt")
  case True
  show ?thesis by (rule lru_found_less [OF _ True]) (use assms in \<open>simp only: if_P [OF True]\<close>)
next
  case False
  show ?thesis by (rule lru_found_ge) (use assms False in \<open>simp_all only: if_False linorder_not_less simp_thms\<close>)
qed

lemma lru_scan_cases:
  assumes "i + k \<le> length (ics s)"
  obtains j where "lru_scan s i k idx cnt = Some (Inl j)" "j \<in> {i..<i + k}" "ic_status (ics s ! j) = ICACHE_S_INVAL"
  | r where "lru_scan s i k idx cnt = Some (Inr r)" "\<forall>j \<in> {i..<i + k}. ic_status (ics s ! j) \<noteq> ICACHE_S_INVAL"
      "lru_found s i k idx cnt r"
  using assms
proof (induction k arbitrary: i idx cnt thesis)
  case 0
  show ?case by (rule 0(2) [of idx]) (simp_all add: lru_found_def)
next
  case (Suc k)
  let ?e = "ics s ! i"
  have i: "ic_get i s = Some ?e" using Suc.prems(3) by (simp add: ic_get_def)
  show ?case
  proof (cases "ic_status ?e = ICACHE_S_INVAL")
    case True
    show ?thesis by (rule Suc.prems(1) [of i]) (use True i in simp_all)
  next
    case False
    let ?idx = "if ic_lru_count ?e < cnt then Some i else idx" and ?cnt = "if ic_lru_count ?e < cnt then ic_lru_count ?e else cnt"
    have eq: "lru_scan s i (Suc k) idx cnt = lru_scan s (Suc i) k ?idx ?cnt" using i False by simp
    show ?thesis
    proof (rule Suc.IH [of "Suc i" ?idx ?cnt])
      show "thesis" if "lru_scan s (Suc i) k ?idx ?cnt = Some (Inl j)" "j \<in> {Suc i..<Suc i + k}"
          "ic_status (ics s ! j) = ICACHE_S_INVAL" for j
        by (rule Suc.prems(1) [of j]) (use that eq in simp_all)
      show "thesis" if "lru_scan s (Suc i) k ?idx ?cnt = Some (Inr r)"
          "\<forall>j \<in> {Suc i..<Suc i + k}. ic_status (ics s ! j) \<noteq> ICACHE_S_INVAL" "lru_found s (Suc i) k ?idx ?cnt r" for r
      proof (rule Suc.prems(2) [of r])
        show "lru_scan s i (Suc k) idx cnt = Some (Inr r)" using that(1) eq by simp
        show "\<forall>j \<in> {i..<i + Suc k}. ic_status (ics s ! j) \<noteq> ICACHE_S_INVAL" unfolding range_Suc using that(2) False by blast
        show "lru_found s i (Suc k) idx cnt r" by (rule lru_found_Suc [OF that(3)])
      qed
    qed (use Suc.prems(3) in simp)
  qed
qed

text \<open>A victim can be found: there is an unused or invalid entry, or one used less than
  \<open>INT_MAX\<close> times.\<close>

definition icache_ready :: "kfs \<Rightarrow> bool" where
  "icache_ready s \<longleftrightarrow> icn s < ICACHE_MAX_COUNT \<or>
     (\<exists>i < ICACHE_MAX_COUNT. ic_status (ics s ! i) = ICACHE_S_INVAL \<or> ic_lru_count (ics s ! i) < 0x7fffffff)"

lemma fill_install:
  assumes "icache_ok s" "inode_ok s n" "i < 64"
  shows "icache_fill i n True s = Some (install s i n (icn s))"
  using icache_fill_eq [OF icache_okD(1) [OF assms(1)] assms(2)] assms(3) icache_okD(2) [OF assms(1)]
  by (simp add: install_def fresh_entry_def ic_set_def)

text \<open>What happens to the entry that is replaced.\<close>

lemma evict_ok:
  assumes ok: "icache_ok s" and c: "caches s i m"
  shows "\<exists>s1. (if ic_status (ics s ! i) = ICACHE_S_DIRTY then icache_write_back (ics s ! i) s else Some s) = Some s1 \<and>
    icache_ok s1 \<and> same_view s s1 \<and> s1 = s\<lparr>image := image s1\<rparr> \<and> disk_inode s1 m = ic_inode (ics s ! i)"
proof (cases "ic_status (ics s ! i) = ICACHE_S_DIRTY")
  case True
  obtain s1 where "icache_write_back (ics s ! i) s = Some s1" "icache_ok s1" "same_view s s1"
    "s1 = s\<lparr>image := image s1\<rparr>" "disk_inode s1 m = ic_inode (ics s ! i)"
    by (rule icache_write_back_ok [OF ok c]) (rule that, assumption+)
  then show ?thesis unfolding if_P [OF True] by blast
next
  case False
  then show ?thesis using ok icache_okD(7) [OF ok c] by (auto simp: same_view_def)
qed

lemma same_image:
  assumes "s1 = s\<lparr>image := image s1\<rparr>"
  shows "ics s1 = ics s" "icn s1 = icn s" "caches s1 = caches s" "inode_ok s1 = inode_ok s" "sb s1 = sb s" "gdt s1 = gdt s"
  by (subst assms, simp)+

text \<open>The victim of the scan in a full cache without invalid entries.\<close>

lemma lru_victim:
  assumes ok: "icache_ok s" and full: "icn s = 64" and rdy: "icache_ready s"
  shows "\<exists>r i. lru_scan s 0 64 None 0x7fffffff = Some r \<and> i < 64 \<and>
    (r = Inl i \<and> ic_status (ics s ! i) = ICACHE_S_INVAL \<or> r = Inr (Some i) \<and> ic_status (ics s ! i) \<noteq> ICACHE_S_INVAL)"
proof (rule lru_scan_cases [of 0 64 s None "0x7fffffff"])
  show "0 + 64 \<le> length (ics s)" using icache_okD(2) [OF ok] by simp
next
  fix j
  assume "lru_scan s 0 64 None 0x7fffffff = Some (Inl j)" "j \<in> {0..<0 + 64}" "ic_status (ics s ! j) = ICACHE_S_INVAL"
  then show ?thesis by auto
next
  fix r
  assume r: "lru_scan s 0 64 None 0x7fffffff = Some (Inr r)" "\<forall>j \<in> {0..<0 + 64}. ic_status (ics s ! j) \<noteq> ICACHE_S_INVAL"
    "lru_found s 0 64 None 0x7fffffff r"
  obtain k where "k < 64" "ic_lru_count (ics s ! k) < 0x7fffffff"
    using rdy full r(2) unfolding icache_ready_def ICACHE_MAX_COUNT_def by auto
  then have "k \<in> {0..<0 + 64} \<and> \<not> 0x7fffffff \<le> ic_lru_count (ics s ! k)" by simp
  then obtain j where "j \<in> {0..<0 + 64}" "r = Some j" using r(3) unfolding lru_found_def by blast
  with r(1,2) show ?thesis by auto
qed

lemma icache_insert_ok:
  assumes ok: "icache_ok s" and n: "inode_ok s n" "\<nexists>i. caches s i n" and rdy: "icache_ready s"
  shows "\<exists>i s'. icache_insert n True s = Some (i, s') \<and> icache_ok s' \<and> same_view s s' \<and> caches s' i n"
proof (cases "icn s = 64")
  case False
  let ?i = "icn s"
  have i: "?i < 64" "?i < icn s \<and> Suc ?i = icn s \<or> ?i = icn s \<and> Suc ?i = Suc ?i"
    using False icache_okD(3) [OF ok] by simp_all
  have "icache_insert n True s = Some (?i, install s ?i n (Suc ?i))"
    using False fill_install [OF ok n(1) i(1)]
    by (simp add: icache_insert_def ICACHE_MAX_COUNT_def install_def Let_def)
  moreover have "ic_inode (ics s ! ?i) = disk_inode s m" if "caches s ?i m" for m
    using that by (simp add: caches_def)
  ultimately show ?thesis using install_ok(1-3) [OF ok i n] by blast
next
  case True
  obtain r i where r: "lru_scan s 0 64 None 0x7fffffff = Some r" "i < 64" and
    alt: "r = Inl i \<and> ic_status (ics s ! i) = ICACHE_S_INVAL \<or> r = Inr (Some i) \<and> ic_status (ics s ! i) \<noteq> ICACHE_S_INVAL"
    using lru_victim [OF ok True rdy] by blast
  have ins: "icache_insert n True s = icache_lru_replace n True s"
    using True by (simp add: icache_insert_def ICACHE_MAX_COUNT_def)
  have ii: "i < icn s \<and> icn s = icn s \<or> i = icn s \<and> icn s = Suc i" using r(2) True by simp
  from alt show ?thesis
  proof (elim disjE conjE)
    assume a: "r = Inl i" "ic_status (ics s ! i) = ICACHE_S_INVAL"
    have "icache_insert n True s = Some (i, install s i n (icn s))"
      using r a(1) True fill_install [OF ok n(1) r(2)] by (simp add: ins icache_lru_replace_def)
    moreover have "ic_inode (ics s ! i) = disk_inode s m" if "caches s i m" for m
      using that a(2) by (simp add: caches_def)
    ultimately show ?thesis using install_ok(1-3) [OF ok r(2) ii n] by blast
  next
    assume a: "r = Inr (Some i)" "ic_status (ics s ! i) \<noteq> ICACHE_S_INVAL"
    define m where "m = ic_inode_idx (ics s ! i)"
    have c: "caches s i m" using a r(2) True by (simp add: caches_def m_def)
    have e: "ic_get i s = Some (ics s ! i)" using r(2) icache_okD(2) [OF ok] by (simp add: ic_get_def)
    obtain s1 where s1: "(if ic_status (ics s ! i) = ICACHE_S_DIRTY then icache_write_back (ics s ! i) s else Some s) = Some s1"
      "icache_ok s1" "same_view s s1" "s1 = s\<lparr>image := image s1\<rparr>" "disk_inode s1 m = ic_inode (ics s ! i)"
      using evict_ok [OF ok c] by blast
    note same = same_image [OF s1(4)]
    have n1: "inode_ok s1 n" "\<nexists>i. caches s1 i n" using n by (simp_all add: same)
    have clean: "ic_inode (ics s1 ! i) = disk_inode s1 k" if "caches s1 i k" for k
      using that c s1(5) by (simp add: same caches_def)
    have "icache_insert n True s = Some (i, install s1 i n (icn s1))"
      using r a(1) True e s1(1) fill_install [OF s1(2) n1(1) r(2)]
      by (simp add: ins icache_lru_replace_def)
    moreover have "i < icn s1 \<and> icn s1 = icn s1 \<or> i = icn s1 \<and> icn s1 = Suc i" using r(2) True by (simp add: same)
    note inst = install_ok(1-3) [OF s1(2) r(2) this n1 clean]
    moreover have "same_view s (install s1 i n (icn s1))"
      using inst(2) s1(3) same(4) by (simp add: same_view_def)
    ultimately show ?thesis using inst by blast
  qed
qed

section \<open>Reading and changing an inode\<close>

text \<open>Updating a field of an entry that is not part of the inode.\<close>

lemma ic_upd_meta:
  assumes ok: "icache_ok s" and i: "i < 64"
    and f: "\<And>e. ic_inode (f e) = ic_inode e \<and> ic_inode_idx (f e) = ic_inode_idx e \<and> ic_status (f e) = ic_status e"
  obtains s' where "ic_upd i f s = Some s'" "icache_ok s'" "same_view s s'" "caches s' = caches s"
    "s' = s\<lparr>icache := icache s'\<rparr>"
proof -
  let ?s = "ic_set i (f (ics s ! i)) s"
  have l: "length (ics s) = 64" by (rule icache_okD(2) [OF ok])
  have nth: "ics ?s ! j = (if j = i then f (ics s ! i) else ics s ! j)" if "j < 64" for j
    using that l by (simp add: ic_set_def nth_list_update)
  have eqs: "ic_inode (ics ?s ! j) = ic_inode (ics s ! j)" "ic_status (ics ?s ! j) = ic_status (ics s ! j)"
    "ic_inode_idx (ics ?s ! j) = ic_inode_idx (ics s ! j)" if "j < 64" for j
    using nth [OF that] f by simp_all
  have n: "icn ?s = icn s" "length (ics ?s) = 64" using l by (simp_all add: ic_set_def)
  have cs: "caches ?s = caches s"
    using eqs icache_okD(3) [OF ok] by (fastforce simp: caches_def n fun_eq_iff)
  have d: "disk_inode ?s = disk_inode s" "inode_ok ?s = inode_ok s" "itable_ok ?s = itable_ok s" "sb ?s = sb s" "gdt ?s = gdt s"
    by (simp_all add: ic_set_def fun_eq_iff)
  have lt: "caches s j m \<Longrightarrow> j < 64" for j m using icache_okD(3) [OF ok] by (simp add: caches_def)
  have ok': "icache_ok ?s"
    using icache_okD [OF ok] by (intro icache_okI) (auto simp: cs d n eqs lt)
  have "inode_view ?s m = inode_view s m" for m
    using inode_view_cached [OF ok] inode_view_uncached [of s m] lt
    by (intro inode_view_eqI [OF ok']) (auto simp: cs d eqs)
  then have "same_view s ?s" by (simp add: same_view_def d)
  moreover have "ic_upd i f s = Some ?s" using i l by (simp add: ic_upd_def ic_get_def)
  ultimately show ?thesis using ok' cs by (intro that [of ?s]) (simp_all add: ic_set_def)
qed

lemma ICACHE_LRU_INC_ok:
  assumes "icache_ok s" "i < 64"
  obtains s' where "ICACHE_LRU_INC i s = Some s'" "icache_ok s'" "same_view s s'" "caches s' = caches s"
    "s' = s\<lparr>icache := icache s'\<rparr>"
  by (rule ic_upd_meta [OF assms, of "\<lambda>e. if ic_lru_count e < 0xffffffff then e\<lparr>ic_lru_count := ic_lru_count e + 1\<rparr> else e"])
    (simp, rule that, unfold ICACHE_LRU_INC_def, assumption+)

lemma inode_get_by_number_ok:
  assumes ok: "icache_ok s" and n: "inode_ok s n" and rdy: "icache_ready s"
  shows "\<exists>i s'. inode_get_by_number n s = Some (Inr i, s') \<and> icache_ok s' \<and> same_view s s' \<and> caches s' i n"
proof -
  obtain i s1 where s1: "(case the (icache_find n s) of Some i \<Rightarrow> Some (i, s) | None \<Rightarrow> icache_insert n True s) = Some (i, s1)"
    "icache_ok s1" "same_view s s1" "caches s1 i n"
  proof (rule icache_find_eq [OF ok, of n])
    fix i
    assume "icache_find n s = Some (Some i)" "caches s i n"
    then show thesis using that ok by (simp add: same_view_def)
  next
    assume "icache_find n s = Some None" "\<nexists>i. caches s i n"
    then show thesis using that icache_insert_ok [OF ok n _ rdy] by auto
  qed
  have i: "i < 64" using s1(4) icache_okD(3) [OF s1(2)] by (simp add: caches_def)
  obtain s2 where s2: "ICACHE_LRU_INC i s1 = Some s2" "icache_ok s2" "same_view s1 s2" "caches s2 = caches s1"
    by (rule ICACHE_LRU_INC_ok [OF s1(2) i])
  have "n \<noteq> 0" using n by (auto simp: inode_ok_def)
  moreover have "\<exists>r. icache_find n s = Some r" using icache_find_eq [OF ok, of n] by metis
  ultimately have "inode_get_by_number n s = Some (Inr i, s2)"
    using s1(1) s2(1) by (auto simp: inode_get_by_number_def)
  moreover have "same_view s s2"
    using s1(3) s2(3) by (auto simp: same_view_def inode_ok_def)
  ultimately show ?thesis using s2 s1(4) by auto
qed

text \<open>Changing the inode of an entry and marking it dirty.\<close>

lemma modify_ok:
  assumes ok: "icache_ok s" and c: "caches s i n" and f: "\<And>r. wf_inode r \<Longrightarrow> wf_inode (f r)"
  obtains s' where "(do { s \<leftarrow> upd_ino i f s; ICACHE_SET_DIRTY i s }) = Some s'" "icache_ok s'"
    "inode_view s' n = f (inode_view s n)" "\<And>m. m \<noteq> n \<Longrightarrow> inode_view s' m = inode_view s m"
    "caches s' = caches s" "s' = s\<lparr>icache := icache s'\<rparr>"
proof -
  let ?e = "ics s ! i"
  let ?s = "ic_set i (?e\<lparr>ic_inode := f (ic_inode ?e), ic_status := ICACHE_S_DIRTY\<rparr>) s"
  have l: "length (ics s) = 64" by (rule icache_okD(2) [OF ok])
  have i: "i < 64" using c icache_okD(3) [OF ok] by (simp add: caches_def)
  have nth: "ics ?s ! j = (if j = i then ?e\<lparr>ic_inode := f (ic_inode ?e), ic_status := ICACHE_S_DIRTY\<rparr> else ics s ! j)" if "j < 64" for j
    using that l by (simp add: ic_set_def nth_list_update)
  have n: "icn ?s = icn s" "length (ics ?s) = 64" using l by (simp_all add: ic_set_def)
  have cs: "caches ?s = caches s"
  proof (intro ext)
    fix j m
    show "caches ?s j m = caches s j m"
      using nth [of j] c icache_okD(3) [OF ok] by (cases "j = i"; cases "j < 64") (auto simp: caches_def n)
  qed
  have d: "disk_inode ?s = disk_inode s" "inode_ok ?s = inode_ok s" "itable_ok ?s = itable_ok s"
    by (simp_all add: ic_set_def fun_eq_iff)
  have lt: "caches s j m \<Longrightarrow> j < 64" for j m using icache_okD(3) [OF ok] by (simp add: caches_def)
  have ok': "icache_ok ?s"
    using icache_okD [OF ok] f i by (intro icache_okI) (auto simp: cs d n nth lt split: if_splits)
  show ?thesis
  proof (rule that [of ?s])
    show "(do { s \<leftarrow> upd_ino i f s; ICACHE_SET_DIRTY i s }) = Some ?s"
      using i l by (simp add: upd_ino_def ICACHE_SET_DIRTY_def ic_upd_def ic_get_def ic_set_def)
    show "inode_view ?s n = f (inode_view s n)"
      using inode_view_cached [OF ok' , of i n] inode_view_cached [OF ok c] c nth [OF i] by (simp add: cs)
    show "inode_view ?s m = inode_view s m" if "m \<noteq> n" for m
      using inode_view_cached [OF ok] inode_view_uncached [of s m] lt that c
      by (intro inode_view_eqI [OF ok']) (auto simp: cs d nth caches_def)
  qed (use ok' cs in \<open>simp_all add: ic_set_def\<close>)
qed

section \<open>The cache as a store of inodes\<close>

text \<open>What the callers of \<open>inode_get_by_number\<close> rely on: the call returns a handle that holds the
  inode and leaves every inode as it is, reading through the handle gives the inode, and an update through it
  changes this inode alone.\<close>

locale inode_store =
  fixes inv :: "'s \<Rightarrow> bool" and key :: "'s \<Rightarrow> 'k \<Rightarrow> bool" and ready :: "'s \<Rightarrow> bool" and good :: "'v \<Rightarrow> bool"
    and view :: "'s \<Rightarrow> 'k \<Rightarrow> 'v" and holds :: "'s \<Rightarrow> 'h \<Rightarrow> 'k \<Rightarrow> bool"
    and fetch :: "'k \<Rightarrow> 's \<Rightarrow> (('e + 'h) \<times> 's) option"
    and deref :: "'h \<Rightarrow> 's \<Rightarrow> 'v option"
    and modify :: "'h \<Rightarrow> ('v \<Rightarrow> 'v) \<Rightarrow> 's \<Rightarrow> 's option"
  assumes fetch_law: "inv s \<Longrightarrow> key s n \<Longrightarrow> ready s \<Longrightarrow>
      \<exists>h s'. fetch n s = Some (Inr h, s') \<and> inv s' \<and> holds s' h n \<and> key s' = key s \<and>
        (\<forall>m. key s m \<longrightarrow> view s' m = view s m)"
    and deref_law: "inv s \<Longrightarrow> holds s h n \<Longrightarrow> deref h s = Some (view s n)"
    and modify_law: "inv s \<Longrightarrow> holds s h n \<Longrightarrow> (\<And>v. good v \<Longrightarrow> good (f v)) \<Longrightarrow>
      \<exists>s'. modify h f s = Some s' \<and> inv s' \<and> key s' = key s \<and> view s' = (view s)(n := f (view s n))"
begin

text \<open>Fetching, reading and then updating, as the operations on attributes do.\<close>

lemma fetch_edit:
  assumes "inv s" "key s n" "ready s"
  obtains h s1 where "fetch n s = Some (Inr h, s1)" "deref h s1 = Some (view s n)" "inv s1"
    "\<forall>m. key s m \<longrightarrow> view s1 m = view s m"
    "\<And>f. (\<And>v. good v \<Longrightarrow> good (f v)) \<Longrightarrow> \<exists>s2. modify h f s1 = Some s2 \<and> inv s2 \<and>
       (\<forall>m. key s m \<longrightarrow> view s2 m = (if m = n then f (view s n) else view s m))"
proof -
  obtain h s1 where s1: "fetch n s = Some (Inr h, s1)" "inv s1" "holds s1 h n" "key s1 = key s"
    "\<forall>m. key s m \<longrightarrow> view s1 m = view s m" using fetch_law [OF assms] by blast
  show ?thesis
  proof (rule that [OF s1(1) _ s1(2) s1(5)])
    show "deref h s1 = Some (view s n)" using deref_law [OF s1(2,3)] s1(5) assms(2) by simp
    fix f :: "'v \<Rightarrow> 'v"
    assume f: "\<And>v. good v \<Longrightarrow> good (f v)"
    from modify_law [OF s1(2,3), of f] f obtain s2 where "modify h f s1 = Some s2" "inv s2"
      "view s2 = (view s1)(n := f (view s1 n))" by blast
    with s1(5) assms(2) show "\<exists>s2. modify h f s1 = Some s2 \<and> inv s2 \<and>
       (\<forall>m. key s m \<longrightarrow> view s2 m = (if m = n then f (view s n) else view s m))" by simp
  qed
qed

end

definition ic_modify :: "nat \<Rightarrow> (ext4_inode \<Rightarrow> ext4_inode) \<Rightarrow> kfs \<Rightarrow> kfs option" where
  "ic_modify i f s = do { s \<leftarrow> upd_ino i f s; ICACHE_SET_DIRTY i s }"

lemma inode_ok_cong: "sb s' = sb s \<Longrightarrow> inode_ok s' = inode_ok s"
  by (simp add: inode_ok_def fun_eq_iff)

interpretation icache_store: inode_store icache_ok inode_ok icache_ready wf_inode inode_view caches
    inode_get_by_number ino ic_modify
proof
  fix s n
  assume a: "icache_ok s" "inode_ok s n" "icache_ready s"
  obtain i s' where s': "inode_get_by_number n s = Some (Inr i, s')" "icache_ok s'" "same_view s s'" "caches s' i n"
    using inode_get_by_number_ok [OF a] by blast
  then have "inode_ok s' = inode_ok s" by (intro inode_ok_cong) (simp add: same_view_def)
  with s' show "\<exists>h s'. inode_get_by_number n s = Some (Inr h, s') \<and> icache_ok s' \<and> caches s' h n \<and>
      inode_ok s' = inode_ok s \<and> (\<forall>m. inode_ok s m \<longrightarrow> inode_view s' m = inode_view s m)"
    unfolding same_view_def by blast
next
  fix s i n
  assume a: "icache_ok s" "caches s i n"
  have "i < length (ics s)" using a(2) icache_okD(2,3) [OF a(1)] by (simp add: caches_def)
  then show "ino i s = Some (inode_view s n)"
    using inode_view_cached [OF a] by (simp add: ino_def ic_get_def)
next
  fix s i n and f :: "ext4_inode \<Rightarrow> ext4_inode"
  assume a: "icache_ok s" "caches s i n" "\<And>v. wf_inode v \<Longrightarrow> wf_inode (f v)"
  obtain s' where s': "ic_modify i f s = Some s'" "icache_ok s'" "inode_view s' n = f (inode_view s n)"
    "\<And>m. m \<noteq> n \<Longrightarrow> inode_view s' m = inode_view s m" "s' = s\<lparr>icache := icache s'\<rparr>"
    by (rule modify_ok [OF a(1,2), of f, folded ic_modify_def]) (erule a(3), rule that, assumption+)
  have "sb s' = sb s" by (subst s'(5)) simp
  then have "inode_ok s' = inode_ok s" by (rule inode_ok_cong)
  moreover have "inode_view s' = (inode_view s)(n := f (inode_view s n))" using s'(3,4) by (simp add: fun_eq_iff)
  ultimately show "\<exists>s'. ic_modify i f s = Some s' \<and> icache_ok s' \<and> inode_ok s' = inode_ok s \<and>
      inode_view s' = (inode_view s)(n := f (inode_view s n))"
    using s'(1,2) by blast
qed

section \<open>Properties of the cache\<close>

lemma sample_icache_ok: "icache_ok sample_kfs"
proof (rule icache_okI [OF sample_itable_ok])
  have w: "wf_inode (dec_inode (replicate 160 0))" by (simp add: wf_dec_inode)
  show "wf_inode (ic_inode (ics sample_kfs ! i))" if "i < 64" for i
    using w that by (simp add: sample_kfs_def sample_icache_entry_def)
qed (simp_all add: sample_kfs_def caches_def)

lemma sample_inode_ok: "inode_ok sample_kfs n \<longleftrightarrow> 1 \<le> unat n \<and> unat n \<le> 16"
  by (simp add: inode_ok_def)

lemma sample_icache_ready: "icache_ready sample_kfs"
  by (simp add: icache_ready_def sample_kfs_def ICACHE_MAX_COUNT_def)

text \<open>C1: Fetching an inode by its number never aborts while a victim can be found. It keeps the cache invariant (no
  inode cached twice, clean entries equal to their slots on the disk), it returns an entry that holds the requested inode, and
  neither the lookup nor the eviction and write-back of another entry loses or changes the contents of any inode of the file
  system.\<close>

theorem inode_get_by_number_refines:
  assumes "icache_ok s" "inode_ok s n" "icache_ready s"
  shows "\<exists>i s'. inode_get_by_number n s = Some (Inr i, s') \<and> icache_ok s' \<and> ino i s' = Some (inode_view s n) \<and>
    (\<forall>m. inode_ok s m \<longrightarrow> inode_view s' m = inode_view s m)"
  by (rule icache_store.fetch_edit [OF assms]) blast

theorem inode_get_by_number_refines_witness:
  "\<exists>i s'. inode_get_by_number 3 sample_kfs = Some (Inr i, s') \<and> icache_ok s' \<and>
    ino i s' = Some (inode_view sample_kfs 3) \<and> (\<forall>m. inode_ok sample_kfs m \<longrightarrow> inode_view s' m = inode_view sample_kfs m)"
  by (rule inode_get_by_number_refines [OF sample_icache_ok _ sample_icache_ready]) (simp add: sample_inode_ok)

text \<open>A cache with one changed inode.\<close>

definition sample_dirty_kfs :: kfs where
  "sample_dirty_kfs = sample_kfs\<lparr>icache := \<lparr>ic_entries = (replicate 64 sample_icache_entry)[0 :=
     sample_icache_entry\<lparr>ic_inode := (dec_inode (replicate 160 0))\<lparr>i_mode := 0x81a4\<rparr>, ic_inode_idx := 3, ic_status := ICACHE_S_DIRTY\<rparr>],
     ic_count = 1\<rparr>\<rparr>"

lemma sample_dirty:
  "icache_ok sample_dirty_kfs" "caches sample_dirty_kfs i n \<longleftrightarrow> i = 0 \<and> n = 3"
  "i_mode (ic_inode (ics sample_dirty_kfs ! 0)) = 0x81a4"
proof -
  have e: "itable_ok sample_dirty_kfs = itable_ok sample_kfs" "inode_ok sample_dirty_kfs n = inode_ok sample_kfs n" for n
    by (simp_all add: sample_dirty_kfs_def)
  have w: "wf_inode (dec_inode (replicate 160 0))" by (simp add: wf_dec_inode)
  show c: "caches sample_dirty_kfs i n \<longleftrightarrow> i = 0 \<and> n = 3" for i n
    by (auto simp: caches_def sample_dirty_kfs_def sample_icache_entry_def)
  show "icache_ok sample_dirty_kfs"
  proof (rule icache_okI)
    show "wf_inode (ic_inode (ics sample_dirty_kfs ! i))" if "i < 64" for i
      using w that by (cases i) (simp_all add: sample_dirty_kfs_def sample_icache_entry_def wf_inode_def)
  qed (auto simp: e c sample_inode_ok, simp_all add: sample_dirty_kfs_def)
qed (simp add: sample_dirty_kfs_def)

text \<open>Writing an entry back stores its inode in the slot of its number, where decoding the slot gives the same inode
  again. The slots of all other inodes keep their contents, and the cache stays consistent with the disk.\<close>

theorem icache_write_back_roundtrip:
  assumes "icache_ok s" "caches s i n"
  shows "\<exists>s'. icache_write_back (ics s ! i) s = Some s' \<and> icache_ok s' \<and> disk_inode s' n = ic_inode (ics s ! i) \<and>
    (\<forall>m. inode_ok s m \<and> m \<noteq> n \<longrightarrow> disk_inode s' m = disk_inode s m)"
  by (rule icache_write_back_ok [OF assms]) blast

theorem icache_write_back_roundtrip_witness:
  "\<exists>s'. icache_write_back (ics sample_dirty_kfs ! 0) sample_dirty_kfs = Some s' \<and> icache_ok s' \<and>
    disk_inode s' 3 = ic_inode (ics sample_dirty_kfs ! 0) \<and>
    (\<forall>m. inode_ok sample_dirty_kfs m \<and> m \<noteq> 3 \<longrightarrow> disk_inode s' m = disk_inode sample_dirty_kfs m)"
  by (rule icache_write_back_roundtrip [OF sample_dirty(1)]) (simp add: sample_dirty(2))

text \<open>When every entry is in use, the replaced one is an entry with the least use count, and a changed victim is
  written back before it is overwritten.\<close>

theorem icache_lru_replace_least:
  assumes "icn s \<le> length (ics s)" "\<forall>j < icn s. ic_status (ics s ! j) \<noteq> ICACHE_S_INVAL"
    and "\<exists>j < icn s. ic_lru_count (ics s ! j) < 0x7fffffff"
  shows "\<exists>i < icn s. (\<forall>j < icn s. ic_lru_count (ics s ! i) \<le> ic_lru_count (ics s ! j)) \<and>
    icache_lru_replace n b s = do {
      s' \<leftarrow> (if ic_status (ics s ! i) = ICACHE_S_DIRTY then icache_write_back (ics s ! i) s else Some s);
      s' \<leftarrow> icache_fill i n b s';
      Some (i, s')
    }"
proof (rule lru_scan_cases [of 0 "icn s" s None "0x7fffffff"])
  fix r
  assume r: "lru_scan s 0 (icn s) None 0x7fffffff = Some (Inr r)" "lru_found s 0 (icn s) None 0x7fffffff r"
  from assms(3) obtain k where "k < icn s" "\<not> 0x7fffffff \<le> ic_lru_count (ics s ! k)" by auto
  then have "k \<in> {0..<0 + icn s} \<and> \<not> 0x7fffffff \<le> ic_lru_count (ics s ! k)" by simp
  then obtain i where i: "i \<in> {0..<0 + icn s}" "r = Some i"
      "\<forall>j \<in> {0..<0 + icn s}. ic_lru_count (ics s ! i) \<le> ic_lru_count (ics s ! j)"
    using r(2) unfolding lru_found_def by blast
  then have "ic_get i s = Some (ics s ! i)" using assms(1) by (simp add: ic_get_def)
  with i r(1) show ?thesis by (intro exI [of _ i]) (simp add: icache_lru_replace_def)
qed (use assms in simp_all)

theorem icache_lru_replace_least_witness:
  "\<exists>i < icn sample_dirty_kfs. (\<forall>j < icn sample_dirty_kfs.
      ic_lru_count (ics sample_dirty_kfs ! i) \<le> ic_lru_count (ics sample_dirty_kfs ! j)) \<and>
    icache_lru_replace 5 True sample_dirty_kfs = do {
      s' \<leftarrow> (if ic_status (ics sample_dirty_kfs ! i) = ICACHE_S_DIRTY
             then icache_write_back (ics sample_dirty_kfs ! i) sample_dirty_kfs else Some sample_dirty_kfs);
      s' \<leftarrow> icache_fill i 5 True s';
      Some (i, s')
    }"
  by (rule icache_lru_replace_least) (simp_all add: sample_dirty_kfs_def sample_icache_entry_def)

text \<open>C38: When all 64 entries are in use and each has been used \<open>INT_MAX\<close> times or more, no victim is found, and the lookup
  of an inode that is not cached indexes the cache with -1: it has no defined result.\<close>

theorem icache_stuck:
  assumes "length (ics s) = ICACHE_MAX_COUNT" "icn s = ICACHE_MAX_COUNT" "n \<noteq> 0"
    and "\<forall>j < icn s. ic_status (ics s ! j) \<noteq> ICACHE_S_INVAL \<and> ic_inode_idx (ics s ! j) \<noteq> n \<and> 0x7fffffff \<le> ic_lru_count (ics s ! j)"
  shows "inode_get_by_number n s = None"
proof -
  have "\<not> caches s j n" for j using assms(4) by (simp add: caches_def)
  then have "icache_find n s = Some None"
    using icache_find_from_eq [of 0 "icn s" s n] assms(1,2) by (simp add: icache_find_def find_None_iff)
  moreover have "lru_scan s 0 (icn s) None 0x7fffffff = Some (Inr None)"
  proof (rule lru_scan_cases [of 0 "icn s" s None "0x7fffffff"])
    fix r
    assume r: "lru_scan s 0 (icn s) None 0x7fffffff = Some (Inr r)" "lru_found s 0 (icn s) None 0x7fffffff r"
    have "\<not> ic_lru_count (ics s ! j) < 0x7fffffff" if "j \<in> {0..<0 + icn s}" for j
      using assms(4) that by (simp add: linorder_not_less)
    with r show ?thesis unfolding lru_found_def by blast
  qed (use assms in auto)
  ultimately show ?thesis using assms(2,3)
    by (simp add: inode_get_by_number_def icache_insert_def icache_lru_replace_def)
qed

theorem icache_stuck_witness:
  "inode_get_by_number 5 (sample_kfs\<lparr>icache := \<lparr>ic_entries = replicate 64
     (sample_icache_entry\<lparr>ic_inode_idx := 3, ic_status := ICACHE_S_VALID, ic_lru_count := 0x7fffffff\<rparr>), ic_count = 64\<rparr>\<rparr>) = None"
  by (rule icache_stuck) (simp_all add: sample_icache_entry_def ICACHE_MAX_COUNT_def)

end
