(* ===== verification/Dentry.thy ===== *)
theory Dentry
  imports Icache
begin

text \<open>
  Directory entries, \<open>src/dentry.c\<close>: they are read and edited in \<open>dcache->buf\<close>, and an entry
  pointer is the offset of the entry in that buffer. An entry has the inode number in bytes 0 to
  3, \<open>rec_len\<close> in 4 and 5, \<open>name_len\<close> in 6, the file type in 7 and the name from 8 on; the tail of
  a block has the same shape, with \<open>det_reserved_ft\<close> in byte 7.
\<close>

section \<open>The fields of an entry\<close>

abbreviation dbuf :: "kfs \<Rightarrow> u8 list" where "dbuf s \<equiv> dc_buf (dcache s)"

definition set_dbuf :: "u8 list \<Rightarrow> kfs \<Rightarrow> kfs" where
  "set_dbuf buf s = s\<lparr>dcache := (dcache s)\<lparr>dc_buf := buf\<rparr>\<rparr>"

definition buf_write :: "nat \<Rightarrow> u8 list \<Rightarrow> kfs \<Rightarrow> kfs option" where
  "buf_write off bs s = do {
     VALID (off + length bs \<le> length (dbuf s));
     Some (set_dbuf (splice off bs (dbuf s)) s)
   }"

definition dent_inode_idx :: "u8 list \<Rightarrow> nat \<Rightarrow> u32" where "dent_inode_idx buf o' = get32 buf o'"
definition dent_rec_len :: "u8 list \<Rightarrow> nat \<Rightarrow> u16" where "dent_rec_len buf o' = get16 buf (o' + 4)"
definition dent_name_len :: "u8 list \<Rightarrow> nat \<Rightarrow> u8" where "dent_name_len buf o' = get8 buf (o' + 6)"
definition dent_file_type :: "u8 list \<Rightarrow> nat \<Rightarrow> u8" where "dent_file_type buf o' = get8 buf (o' + 7)"
definition dent_name :: "u8 list \<Rightarrow> nat \<Rightarrow> u8 list" where
  "dent_name buf o' = slice (o' + 8) (unat (dent_name_len buf o')) buf"

text \<open>Reading the eight bytes before the name.\<close>

definition dent_valid :: "nat \<Rightarrow> kfs \<Rightarrow> unit option" where
  "dent_valid o' s = VALID (o' + 8 \<le> length (dbuf s))"

definition DE_REAL_REC_LEN :: "u8 list \<Rightarrow> nat \<Rightarrow> u16" where
  "DE_REAL_REC_LEN buf o' = ucast (ALIGN_TO (ucast (dent_name_len buf o') + 8 :: u32) 4)"

definition DE_CALC_REC_LEN :: "u64 \<Rightarrow> u64" where
  "DE_CALC_REC_LEN n = ALIGN_TO (8 + n) 4"

section \<open>Walking a directory\<close>

text \<open>\<open>dentry_next\<close> returns the entry at a byte offset of the directory, and loads its block when
  another one is in the buffer. At the end of the directory it returns NULL, after counting
  allocated blocks into the size.\<close>

partial_function (option) dentry_next :: "nat \<Rightarrow> u32 \<Rightarrow> u64 \<Rightarrow> kfs \<Rightarrow> (nat option \<times> kfs) option" where
  "dentry_next i inode_idx offset s = do {
     lblock \<leftarrow> cdiv offset (BLOCK_SIZE s);
     blk_offset \<leftarrow> cmod offset (BLOCK_SIZE s);
     inode \<leftarrow> ino i s;
     let inode_size = EXT4_INODE_GET_SIZE inode;
     ASSERT (inode_size \<ge> offset);
     if inode_size = offset then
       (if EXT4_INODE_GET_BLOCKS inode * BLOCK_SIZE s > inode_size then do {
          s \<leftarrow> upd_ino i (EXT4_INODE_SET_SIZE (inode_size + BLOCK_SIZE s)) s;
          Some (None, s)
        } else Some (None, s))
     else if lblock = ucast (dc_lblock (dcache s)) then Some (Some (unat blk_offset), s)
     else do {
       s \<leftarrow> dcache_load_lblock i (ucast lblock) s;
       dentry_next i inode_idx offset s
     }
   }"

text \<open>The loop of \<open>dentry_find\<close>. \<open>name\<close> is \<open>None\<close> for NULL, which asks for the last entry; \<open>de\<close> is
  the entry before the current one. The result is the entry and the value stored in
  \<open>*de_before\<close>, if a name was found. Messages are left out: with debug output the one for the last
  entry prints the name of a null entry when the block holds nothing but its tail.\<close>

partial_function (option) dentry_find_from ::
  "nat \<Rightarrow> u32 \<Rightarrow> cstr option \<Rightarrow> nat option \<Rightarrow> u64 \<Rightarrow> kfs \<Rightarrow> ((nat \<times> nat option) option \<times> kfs) option" where
  "dentry_find_from i inode_idx name de offset s = do {
     (next, s) \<leftarrow> dentry_next i inode_idx offset s;
     case next of
       None \<Rightarrow> Some (None, s)
     | Some nde \<Rightarrow> do {
         dent_valid nde s;
         let buf = dbuf s;
         if dent_inode_idx buf nde = 0 \<and> dent_name_len buf nde = 0 then do {
           ASSERT (dent_file_type buf nde = EXT4_FT_DIR_CSUM);
           case name of
             None \<Rightarrow> do {
               s \<leftarrow> ICACHE_SET_LAST_DE i de s;
               Some (map_option (\<lambda>d. (d, None)) de, s)
             }
           | Some _ \<Rightarrow> Some (None, s)
         } else do {
           let offset = offset + ucast (dent_rec_len buf nde);
           let nm = (case name of None \<Rightarrow> [] | Some nm \<Rightarrow> nm);
           match \<leftarrow> (if length nm = unat (dent_name_len buf nde)
                      then strncmp_eq (drop (nde + 8) buf) nm (length nm) else Some False);
           if match then Some (Some (nde, de), s)
           else dentry_find_from i inode_idx name (Some nde) offset s
         }
       }
   }"

definition dentry_find :: "nat \<Rightarrow> u32 \<Rightarrow> cstr option \<Rightarrow> kfs \<Rightarrow> ((nat \<times> nat option) option \<times> kfs) option" where
  "dentry_find i inode_idx name s = do {
     s \<leftarrow> dcache_init i inode_idx s;
     dentry_find_from i inode_idx name None 0 s
   }"

definition dentry_last :: "nat \<Rightarrow> u32 \<Rightarrow> kfs \<Rightarrow> (nat option \<times> kfs) option" where
  "dentry_last i inode_idx s = do {
     s \<leftarrow> dcache_init i inode_idx s;
     c \<leftarrow> ICACHE_CHECK_LAST_DE i s;
     if c then do {
       de \<leftarrow> ICACHE_GET_LAST_DE i s;
       Some (de, s)
     } else do {
       (r, s) \<leftarrow> dentry_find i inode_idx None s;
       Some (map_option fst r, s)
     }
   }"

section \<open>Editing a directory block\<close>

text \<open>\<open>dentry_create\<close> shortens the entry \<open>de\<close> to its real length and writes the new entry into the
  space behind it; \<open>name_len\<close> is \<open>strlen(name)\<close> in eight bits.\<close>

definition dentry_create :: "nat \<Rightarrow> cstr \<Rightarrow> u32 \<Rightarrow> u8 \<Rightarrow> kfs \<Rightarrow> (nat \<times> kfs) option" where
  "dentry_create de name inode_idx file_type s = do {
     dent_valid de s;
     let left_space = dent_rec_len (dbuf s) de;
     let real = DE_REAL_REC_LEN (dbuf s) de;
     s \<leftarrow> buf_write (de + 4) (put16 real) s;
     let new_de = de + unat real;
     let name_len = (word_of_nat (length name) :: u8);
     s \<leftarrow> buf_write new_de (put32 inode_idx) s;
     s \<leftarrow> buf_write (new_de + 6) (put8 name_len) s;
     s \<leftarrow> buf_write (new_de + 4) (put16 (left_space - real)) s;
     s \<leftarrow> buf_write (new_de + 7) (put8 file_type) s;
     s \<leftarrow> buf_write (new_de + 8) (take (unat name_len) name) s;
     s \<leftarrow> buf_write (new_de + 8 + unat name_len) [0] s;
     Some (new_de, s)
   }"

definition dentry_init :: "u32 \<Rightarrow> u32 \<Rightarrow> kfs \<Rightarrow> kfs option" where
  "dentry_init parent_idx inode_idx s = do {
     let s = s\<lparr>dcache := (dcache s)\<lparr>dc_inode_idx := inode_idx, dc_lblock := 0\<rparr>\<rparr>;
     let tail = unat (BLOCK_SIZE s) - EXT4_DE_TAIL_SIZE;
     s \<leftarrow> buf_write tail (put32 0) s;
     s \<leftarrow> buf_write (tail + 4) (put16 (word_of_nat EXT4_DE_TAIL_SIZE)) s;
     s \<leftarrow> buf_write (tail + 6) (put8 0) s;
     s \<leftarrow> buf_write (tail + 7) (put8 EXT4_FT_DIR_CSUM) s;
     s \<leftarrow> buf_write (tail + 8) (put32 0) s;
     s \<leftarrow> buf_write 0 (put32 inode_idx) s;
     s \<leftarrow> buf_write 4 (put16 (word_of_nat EXT4_DE_DOT_SIZE)) s;
     s \<leftarrow> buf_write 6 (put8 1) s;
     s \<leftarrow> buf_write 7 (put8 EXT4_FT_DIR) s;
     s \<leftarrow> buf_write 8 (str ''.'') s;
     s \<leftarrow> buf_write 9 [0] s;
     let dot2 = EXT4_DE_DOT_SIZE;
     s \<leftarrow> buf_write dot2 (put32 parent_idx) s;
     s \<leftarrow> buf_write (dot2 + 4) (put16 (ucast (BLOCK_SIZE s - word_of_nat EXT4_DE_DOT_SIZE
                                                       - word_of_nat EXT4_DE_TAIL_SIZE))) s;
     s \<leftarrow> buf_write (dot2 + 6) (put8 2) s;
     s \<leftarrow> buf_write (dot2 + 7) (put8 EXT4_FT_DIR) s;
     s \<leftarrow> buf_write (dot2 + 8) (str ''..'') s;
     buf_write (dot2 + 10) [0] s
   }"

definition dentry_delete :: "nat \<Rightarrow> u32 \<Rightarrow> cstr \<Rightarrow> kfs \<Rightarrow> kfs option" where
  "dentry_delete i inode_idx name s = do {
     s \<leftarrow> dcache_init i inode_idx s;
     (r, s) \<leftarrow> dentry_find i inode_idx (Some name) s;
     ASSERT (r \<noteq> None);
     (de, before) \<leftarrow> r;
     de_before \<leftarrow> before;
     dent_valid de_before s;
     dent_valid de s;
     s \<leftarrow> buf_write (de_before + 4)
           (put16 (dent_rec_len (dbuf s) de_before + dent_rec_len (dbuf s) de)) s;
     last_de \<leftarrow> ICACHE_GET_LAST_DE i s;
     if last_de = Some de then ICACHE_SET_LAST_DE i (Some de_before) s else Some s
   }"

definition dentry_has_enough_space :: "nat \<Rightarrow> u64 \<Rightarrow> kfs \<Rightarrow> (errno + unit) option" where
  "dentry_has_enough_space de name_len s = do {
     let rec_len = (ucast (DE_CALC_REC_LEN name_len) :: u16);
     dent_valid de s;
     let left_space = dent_rec_len (dbuf s) de - DE_REAL_REC_LEN (dbuf s) de;
     if left_space < rec_len then Some (Inl ENOSPC) else Some (Inr ())
   }"

end
