(* ===== verification/Dir_Block.thy ===== *)
theory Dir_Block
  imports Dentry
begin

text \<open>
  A directory block as a list of entries. The bytes of a block represent a sequence of entries that ends at the
  checksum tail, and the functions of \<open>src/dentry.c\<close> that search, append and remove an entry
  are the corresponding operations on that list.
\<close>

section \<open>Record lengths\<close>

text \<open>The space an entry with a name of \<open>n\<close> bytes needs.\<close>

definition real_len :: "nat \<Rightarrow> nat" where "real_len n = (n + 11) div 4 * 4"

lemma real_len_bounds: "8 + n \<le> real_len n" "real_len n \<le> n + 11"
  by (simp_all add: real_len_def)

lemma unat_and_not_3:
  assumes "3 \<le> LENGTH('a)"
  shows "unat ((w :: 'a::len word) AND NOT 3) = unat w div 4 * 4"
proof -
  have 3: "(3 :: 'a word) = mask 2" by (simp add: mask_eq_exp_minus_1)
  have "w AND NOT 3 = push_bit 2 (drop_bit 2 w)"
  proof (rule bit_word_eqI)
    fix n
    assume "n < LENGTH('a)"
    then show "bit (w AND NOT 3) n = bit (push_bit 2 (drop_bit 2 w)) n"
      unfolding 3 by (cases "\<exists>k. n = 2 + k") (auto simp: bit_simps, presburger+)
  qed
  also have "\<dots> = 4 * (w div 4)" by (simp add: push_bit_eq_mult drop_bit_eq_div)
  finally have eq: "w AND NOT 3 = 4 * (w div 4)" .
  have "(2 :: nat) ^ 3 \<le> 2 ^ LENGTH('a)" using assms by (rule power_increasing) simp
  then have 4: "unat (4 :: 'a word) = 4" by (simp add: unat_numeral take_bit_nat_eq_self)
  have "4 * (unat w div 4) \<le> unat w" by simp
  also have "\<dots> < 2 ^ LENGTH('a)" by (rule unsigned_less)
  finally have "unat (4 :: 'a word) * unat (w div 4) < 2 ^ LENGTH('a)" by (simp only: unat_div 4)
  then have "unat (4 * (w div 4)) = 4 * (unat w div 4)" by (simp only: unat_mult_nowrap unat_div 4)
  then show ?thesis by (simp only: eq mult.commute)
qed

lemma align_4_nat:
  "n mod 4 = 0 \<Longrightarrow> (n + 3) div 4 * 4 = n" "n mod 4 \<noteq> 0 \<Longrightarrow> (n + 3) div 4 * 4 = n div 4 * 4 + 4" for n :: nat
  by presburger+

lemma unat_ALIGN_4:
  assumes "3 \<le> LENGTH('a)" "unat w + 4 < 2 ^ LENGTH('a)"
  shows "unat (ALIGN_TO (w :: 'a::len word) 4) = (unat w + 3) div 4 * 4"
proof -
  have "(2 :: nat) ^ 3 \<le> 2 ^ LENGTH('a)" using assms(1) by (rule power_increasing) simp
  then have 4: "unat (4 :: 'a word) = 4" by (simp add: unat_numeral take_bit_nat_eq_self)
  have m: "w mod 4 = 0 \<longleftrightarrow> unat w mod 4 = 0"
    by (simp only: word_unat_eq_iff unat_mod 4 unat_0)
  have "unat w div 4 * 4 \<le> unat w" by simp
  then have "unat ((w AND NOT 3) + 4) = unat w div 4 * 4 + 4"
    using assms by (subst unat_add_nowrap) (simp_all only: unat_and_not_3 4)
  then show ?thesis by (simp add: ALIGN_TO_def m align_4_nat)
qed

lemma unat_DE_REAL_REC_LEN: "unat (DE_REAL_REC_LEN buf o') = real_len (unat (dent_name_len buf o'))"
proof -
  let ?n = "dent_name_len buf o'"
  have n: "unat ?n < 256" using unsigned_less [of ?n, where ?'a = nat] by simp
  then have "unat (ucast ?n + 8 :: u32) = unat ?n + 8"
    by (subst unat_add_nowrap) (simp_all add: unat_ucast_wider)
  then have "unat (ALIGN_TO (ucast ?n + 8 :: u32) 4) = real_len (unat ?n)"
    using n by (subst unat_ALIGN_4) (simp_all add: real_len_def)
  then show ?thesis using n real_len_bounds(2) [of "unat ?n"]
    by (simp add: DE_REAL_REC_LEN_def unsigned_ucast_eq take_bit_nat_eq_self)
qed

lemma unat_DE_CALC_REC_LEN:
  assumes "n < 32768"
  shows "unat (ucast (DE_CALC_REC_LEN (word_of_nat n)) :: u16) = real_len n"
proof -
  define w :: u64 where "w = 8 + word_of_nat n"
  have "unat (word_of_nat n :: u64) = n"
    using assms by (simp add: unsigned_of_nat take_bit_nat_eq_self)
  then have w: "unat w = 8 + n"
    unfolding w_def using assms by (subst unat_add_nowrap) simp_all
  then have "unat (ALIGN_TO w 4) = (8 + n + 3) div 4 * 4"
    using assms unat_ALIGN_4 [of w] by simp
  moreover have "(8 + n + 3) div 4 * 4 = real_len n" by (simp add: real_len_def)
  ultimately have "unat (DE_CALC_REC_LEN (word_of_nat n)) = real_len n"
    by (simp only: DE_CALC_REC_LEN_def w_def)
  moreover have "real_len n < 2 ^ 16" using assms real_len_bounds(2) [of n] by simp
  ultimately show ?thesis by (simp add: unsigned_ucast_eq take_bit_nat_eq_self)
qed

section \<open>The entries of a block\<close>

text \<open>\<open>chain buf o' os e\<close>: \<open>os\<close> are the offsets of the entries from \<open>o'\<close> on, each as far from the next as its
  \<open>rec_len\<close> says and long enough for its name, and the last one ends at \<open>e\<close>.\<close>

abbreviation rlen :: "u8 list \<Rightarrow> nat \<Rightarrow> nat" where "rlen buf o' \<equiv> unat (dent_rec_len buf o')"
abbreviation nlen :: "u8 list \<Rightarrow> nat \<Rightarrow> nat" where "nlen buf o' \<equiv> unat (dent_name_len buf o')"

fun chain :: "u8 list \<Rightarrow> nat \<Rightarrow> nat list \<Rightarrow> nat \<Rightarrow> bool" where
  "chain buf o' [] e \<longleftrightarrow> o' = e"
| "chain buf o' (x # xs) e \<longleftrightarrow> x = o' \<and> nlen buf o' \<noteq> 0 \<and> real_len (nlen buf o') \<le> rlen buf o' \<and>
     chain buf (o' + rlen buf o') xs e"

text \<open>The tail of a block, which looks like an entry with no inode and no name.\<close>

definition tail_ok :: "u8 list \<Rightarrow> nat \<Rightarrow> bool" where
  "tail_ok buf e \<longleftrightarrow> e + 12 = length buf \<and> dent_inode_idx buf e = 0 \<and> dent_name_len buf e = 0 \<and>
     dent_file_type buf e = EXT4_FT_DIR_CSUM"

definition dir_block :: "u8 list \<Rightarrow> nat list \<Rightarrow> bool" where
  "dir_block buf os \<longleftrightarrow> os \<noteq> [] \<and> length buf \<le> 65536 \<and> chain buf 0 os (length buf - 12) \<and> tail_ok buf (length buf - 12)"

text \<open>What an entry says.\<close>

definition dirent :: "u8 list \<Rightarrow> nat \<Rightarrow> cstr \<times> u32 \<times> u8" where
  "dirent buf o' = (dent_name buf o', dent_inode_idx buf o', dent_file_type buf o')"

abbreviation dir_list :: "u8 list \<Rightarrow> nat list \<Rightarrow> (cstr \<times> u32 \<times> u8) list" where
  "dir_list buf os \<equiv> map (dirent buf) os"

lemma chain_append: "chain buf o' (xs @ ys) e \<longleftrightarrow> (\<exists>m. chain buf o' xs m \<and> chain buf m ys e)"
  by (induction xs arbitrary: o') auto

lemma chain_mono: "chain buf o' xs e \<Longrightarrow> o' \<le> e \<and> (\<forall>x \<in> set xs. o' \<le> x \<and> x + rlen buf x \<le> e)"
  by (induction xs arbitrary: o') fastforce+

lemma chain_mem: "chain buf o' xs e \<Longrightarrow> x \<in> set xs \<Longrightarrow>
    nlen buf x \<noteq> 0 \<and> real_len (nlen buf x) \<le> rlen buf x \<and> o' \<le> x \<and> x + rlen buf x \<le> e"
proof (induction xs arbitrary: o')
  case (Cons y ys)
  then show ?case using chain_mono [of buf "o' + rlen buf o'" ys e] by fastforce
qed simp

lemma chain_room:
  assumes "chain buf o' xs e" "x \<in> set xs"
  shows "x + 8 + nlen buf x \<le> e" "0 < nlen buf x" "x + 12 \<le> e"
proof -
  have "nlen buf x \<noteq> 0" "real_len (nlen buf x) \<le> rlen buf x" "x + rlen buf x \<le> e" using chain_mem [OF assms] by auto
  moreover have "12 \<le> real_len (nlen buf x)" if "0 < nlen buf x" using that by (simp add: real_len_def)
  ultimately show "x + 8 + nlen buf x \<le> e" "0 < nlen buf x" "x + 12 \<le> e"
    using real_len_bounds(1) [of "nlen buf x"] by linarith+
qed

section \<open>Frames\<close>

text \<open>Two buffers that agree on the bytes from \<open>a\<close> up to \<open>b\<close>.\<close>

definition agree :: "u8 list \<Rightarrow> u8 list \<Rightarrow> nat \<Rightarrow> nat \<Rightarrow> bool" where
  "agree buf buf' a b \<longleftrightarrow> (\<forall>o' n. a \<le> o' \<and> o' + n \<le> b \<longrightarrow> slice o' n buf' = slice o' n buf)"

lemma agree_splice:
  assumes "off + length bs \<le> length buf" "b \<le> off \<or> off + length bs \<le> a"
  shows "agree buf (splice off bs buf) a b"
  unfolding agree_def using assms by (auto intro!: slice_splice_disjoint)

lemma agree_trans: "agree buf buf' a b \<Longrightarrow> agree buf' buf'' a b \<Longrightarrow> agree buf buf'' a b"
  by (simp add: agree_def)

lemma agree_sub: "agree buf buf' a b \<Longrightarrow> a \<le> a' \<Longrightarrow> b' \<le> b \<Longrightarrow> agree buf buf' a' b'"
  by (simp add: agree_def)

lemma agree_get: "agree buf buf' a b \<Longrightarrow> a \<le> o' \<Longrightarrow> o' + n \<le> b \<Longrightarrow> get n buf' o' = get n buf o'"
  by (simp add: agree_def get_def)

lemma agree_fields:
  assumes "agree buf buf' a b" "a \<le> x" "x + 8 + nlen buf x \<le> b"
  shows "dent_rec_len buf' x = dent_rec_len buf x" "dent_name_len buf' x = dent_name_len buf x" "dirent buf' x = dirent buf x"
proof -
  show "dent_rec_len buf' x = dent_rec_len buf x" and n: "dent_name_len buf' x = dent_name_len buf x"
    unfolding dent_rec_len_def dent_name_len_def by (rule agree_get [OF assms(1)]; use assms in simp)+
  have "dent_inode_idx buf' x = dent_inode_idx buf x" "dent_file_type buf' x = dent_file_type buf x"
    unfolding dent_inode_idx_def dent_file_type_def by (rule agree_get [OF assms(1)]; use assms in simp)+
  moreover have "dent_name buf' x = dent_name buf x"
    using assms by (simp add: dent_name_def n agree_def)
  ultimately show "dirent buf' x = dirent buf x" by (simp add: dirent_def)
qed

lemma chain_agree:
  assumes "agree buf buf' o' e" "chain buf o' xs e"
  shows "chain buf' o' xs e \<and> dir_list buf' xs = dir_list buf xs"
  using assms
proof (induction xs arbitrary: o')
  case (Cons x xs)
  have x: "x = o'" using Cons.prems(2) by simp
  have "o' + 8 + nlen buf o' \<le> e" using chain_room(1) [OF Cons.prems(2), of x] x by simp
  note f = agree_fields [OF Cons.prems(1) order_refl this]
  have "agree buf buf' (o' + rlen buf o') e" by (rule agree_sub [OF Cons.prems(1)]) simp_all
  from Cons.IH [OF this] Cons.prems(2) f x show ?case by simp
qed simp

section \<open>Appending an entry\<close>

lemma set_dbuf_simps [simp]:
  "dbuf (set_dbuf b s) = b" "set_dbuf b (set_dbuf b' s) = set_dbuf b s" "sb (set_dbuf b s) = sb s"
  "icache (set_dbuf b s) = icache s" "image (set_dbuf b s) = image s" "dc_lblock (dcache (set_dbuf b s)) = dc_lblock (dcache s)"
  "decache (set_dbuf b s) = decache s" "dc_inode_idx (dcache (set_dbuf b s)) = dc_inode_idx (dcache s)"
  by (simp_all add: set_dbuf_def)

lemma buf_write_bind [simp]:
  "buf_write off bs s \<bind> f = (if off + length bs \<le> length (dbuf s) then f (set_dbuf (splice off bs (dbuf s)) s) else None)"
  by (simp add: buf_write_def)

text \<open>The bytes of the new entry, written field by field, and what the other bytes are.\<close>

definition put_entry :: "nat \<Rightarrow> cstr \<Rightarrow> u32 \<Rightarrow> u8 \<Rightarrow> u16 \<Rightarrow> u8 list \<Rightarrow> u8 list" where
  "put_entry x name k ft rl buf =
     splice (x + 8 + length name) [0] (splice (x + 8) name (splice (x + 7) (put8 ft) (splice (x + 4) (put16 rl)
       (splice (x + 6) (put8 (word_of_nat (length name))) (splice x (put32 k) buf)))))"

lemma put_entry:
  fixes rl :: u16 and ft :: u8 and k :: u32
  assumes "x + 9 + length name \<le> length buf" "length name < 256"
  defines "buf' \<equiv> put_entry x name k ft rl buf"
  shows "length buf' = length buf" "dirent buf' x = (name, k, ft)" "nlen buf' x = length name" "dent_rec_len buf' x = rl"
    "agree buf buf' 0 x" "agree buf buf' (x + 9 + length name) (length buf)"
proof -
  show "length buf' = length buf" using assms(1) by (simp add: buf'_def put_entry_def)
  have n: "unat (word_of_nat (length name) :: u8) = length name"
    using assms(2) by (simp add: unsigned_of_nat take_bit_nat_eq_self)
  have nl: "dent_name_len buf' x = word_of_nat (length name)"
    using assms(1) by (simp add: buf'_def put_entry_def dent_name_len_def buf_simps del: One_nat_def)
  then show "nlen buf' x = length name" by (simp add: n)
  show "dent_rec_len buf' x = rl" using assms(1) by (simp add: buf'_def put_entry_def dent_rec_len_def buf_simps)
  have "dent_inode_idx buf' x = k" "dent_file_type buf' x = ft" "slice (x + 8) (length name) buf' = name"
    using assms(1) by (simp_all add: buf'_def put_entry_def dent_inode_idx_def dent_file_type_def buf_simps del: One_nat_def)
  then show "dirent buf' x = (name, k, ft)" by (simp add: dirent_def dent_name_def nl n)
  show "agree buf buf' 0 x" "agree buf buf' (x + 9 + length name) (length buf)"
    unfolding buf'_def put_entry_def using assms(1)
    by (auto intro!: agree_trans [OF _ agree_splice] agree_splice simp: agree_def [of buf buf])
qed

lemma dentry_create_eq:
  assumes "length name < 256" "de + real_len (nlen (dbuf s) de) + 9 + length name \<le> length (dbuf s)"
  defines "real \<equiv> DE_REAL_REC_LEN (dbuf s) de" and "x \<equiv> de + real_len (nlen (dbuf s) de)"
  shows "dentry_create de name k ft s = Some (x, set_dbuf
     (put_entry x name k ft (dent_rec_len (dbuf s) de - real) (splice (de + 4) (put16 real) (dbuf s))) s)"
proof -
  have x: "x = de + unat (DE_REAL_REC_LEN (dbuf s) de)" by (simp add: x_def unat_DE_REAL_REC_LEN)
  have n: "unat (word_of_nat (length name) :: u8) = length name"
    using assms(1) by (simp add: unsigned_of_nat take_bit_nat_eq_self)
  have b: "x + 9 + length name \<le> length (dbuf s)" "de + 8 \<le> x"
    using assms(2) real_len_bounds(1) [of "nlen (dbuf s) de"] by (simp_all add: x_def)
  then show ?thesis
    by (simp add: dentry_create_def dent_valid_def Let_def n put_entry_def real_def flip: x del: One_nat_def
        cong: bind_weak_cong)
qed

text \<open>Writing a zero byte where there is one already.\<close>

lemma splice_same: "off < length buf \<Longrightarrow> buf ! off = b \<Longrightarrow> splice off [b] buf = buf"
  by (rule nth_equalityI) (auto simp: nth_splice less_Suc_eq)

lemma le_bytes_0 [simp]: "le_bytes n 0 = replicate n 0"
  by (induction n) simp_all

text \<open>The first byte of the tail is zero, so the terminating NUL of a name that fills its entry leaves it as it is.\<close>

lemma tail_zero:
  assumes "tail_ok buf e"
  shows "buf ! e = 0"
proof -
  have e: "e + 4 \<le> length buf" and i: "get32 buf e = 0" using assms by (simp_all add: tail_ok_def dent_inode_idx_def)
  have "slice e 4 buf = put32 0" using put_get_width(3) [OF e] by (simp only: i)
  then have "slice e 4 buf = replicate 4 0" by (simp only: put_def unat_0 le_bytes_0)
  then have "slice e 4 buf ! 0 = 0" by (simp only: nth_replicate zero_less_numeral)
  then show ?thesis using e nth_slice [of 0 4 e buf] by simp
qed

lemma put_entry_zero:
  assumes "x + 9 + length name \<le> length buf" "buf ! (x + 8 + length name) = 0"
  shows "agree buf (put_entry x name k ft rl buf) (x + 8 + length name) (length buf)"
proof -
  let ?b = "splice (x + 8) name (splice (x + 7) (put8 ft) (splice (x + 4) (put16 rl)
       (splice (x + 6) (put8 (word_of_nat (length name))) (splice x (put32 k) buf))))"
  have l: "length ?b = length buf" using assms(1) by simp
  have "?b ! (x + 8 + length name) = 0" using assms by (simp add: nth_splice)
  then have "put_entry x name k ft rl buf = ?b"
    using assms(1) l splice_same [of "x + 8 + length name" ?b 0] by (simp add: put_entry_def)
  then show ?thesis using assms(1)
    by (auto intro!: agree_trans [OF _ agree_splice] agree_splice simp: agree_def [of buf buf])
qed

lemma tail_agree: "tail_ok buf e \<Longrightarrow> agree buf buf' e (length buf) \<Longrightarrow> length buf' = length buf \<Longrightarrow> tail_ok buf' e"
  by (simp add: tail_ok_def dent_inode_idx_def dent_name_len_def dent_file_type_def agree_get)

text \<open>The end of a well-formed block whose last entry is \<open>de\<close>.\<close>

lemma dir_block_last:
  assumes "dir_block buf (ps @ [de])"
  defines "e \<equiv> length buf - 12"
  shows "chain buf 0 ps de" "nlen buf de \<noteq> 0" "real_len (nlen buf de) \<le> rlen buf de" "de + rlen buf de = e"
    "tail_ok buf e" "e + 12 = length buf" "length buf \<le> 65536"
  using assms by (auto simp: dir_block_def chain_append tail_ok_def)

lemma enough_space:
  assumes "real_len (nlen (dbuf s) de) \<le> rlen (dbuf s) de" "n < 256"
  shows "dentry_has_enough_space de (word_of_nat n) s = Some (Inr ()) \<longleftrightarrow>
    de + 8 \<le> length (dbuf s) \<and> real_len n \<le> rlen (dbuf s) de - real_len (nlen (dbuf s) de)"
proof -
  let ?l = "dent_rec_len (dbuf s) de" and ?r = "DE_REAL_REC_LEN (dbuf s) de"
  have "?r \<le> ?l" using assms(1) by (simp add: word_le_nat_alt unat_DE_REAL_REC_LEN)
  then have "unat (?l - ?r) = unat ?l - real_len (nlen (dbuf s) de)"
    by (simp add: unat_sub unat_DE_REAL_REC_LEN)
  moreover have "unat (ucast (DE_CALC_REC_LEN (word_of_nat n)) :: u16) = real_len n"
    using assms(2) by (intro unat_DE_CALC_REC_LEN) simp
  ultimately show ?thesis
    by (simp add: dentry_has_enough_space_def dent_valid_def Let_def word_less_nat_alt)
qed

text \<open>An entry whose \<open>rec_len\<close> is changed.\<close>

lemma set_rec_len:
  fixes rl :: u16
  assumes "x + 8 + nlen buf x \<le> length buf"
  defines "buf' \<equiv> splice (x + 4) (put16 rl) buf"
  shows "length buf' = length buf" "dirent buf' x = dirent buf x" "dent_name_len buf' x = dent_name_len buf x"
    "dent_rec_len buf' x = rl" "agree buf buf' 0 (x + 4)" "agree buf buf' (x + 6) (length buf)"
proof -
  have b: "x + 4 + length (put16 rl) \<le> length buf" using assms(1) by simp
  show "length buf' = length buf" using b by (simp add: buf'_def)
  show n: "dent_name_len buf' x = dent_name_len buf x" "dent_rec_len buf' x = rl"
    using b by (simp_all add: buf'_def dent_name_len_def dent_rec_len_def buf_simps)
  show "dirent buf' x = dirent buf x"
    unfolding dirent_def dent_name_def n unfolding buf'_def using b
    by (simp add: dent_inode_idx_def dent_file_type_def buf_simps)
  show "agree buf buf' 0 (x + 4)" "agree buf buf' (x + 6) (length buf)"
    unfolding buf'_def using b by (auto intro: agree_splice)
qed

text \<open>Appending: the block represents one entry more.\<close>

lemma append_entry:
  fixes k :: u32 and ft :: u8
  assumes blk: "dir_block buf (ps @ [de])" and name: "name \<noteq> []" "length name < 256"
    and sp: "real_len (length name) \<le> rlen buf de - real_len (nlen buf de)"
  defines "real \<equiv> DE_REAL_REC_LEN buf de" and "x \<equiv> de + real_len (nlen buf de)"
  defines "buf' \<equiv> put_entry x name k ft (dent_rec_len buf de - real) (splice (de + 4) (put16 real) buf)"
  shows "x + 9 + length name \<le> length buf" "length buf' = length buf" "dir_block buf' (ps @ [de, x])"
    "dir_list buf' (ps @ [de, x]) = dir_list buf (ps @ [de]) @ [(name, k, ft)]"
proof -
  let ?b = "splice (de + 4) (put16 real) buf"
  note l = dir_block_last [OF blk]
  have rb: "8 + nlen buf de \<le> real_len (nlen buf de)" "8 + length name \<le> real_len (length name)"
    by (rule real_len_bounds)+
  have real: "unat real = real_len (nlen buf de)" by (simp add: real_def unat_DE_REAL_REC_LEN)
  have e: "x + real_len (length name) \<le> length buf - 12" using sp l(3,4) rb by (simp add: x_def)
  then show b: "x + 9 + length name \<le> length buf" using l(6) rb by simp
  have b1: "de + 8 + nlen buf de \<le> length buf" using l rb by simp
  note r = set_rec_len [OF b1, of real]
  note p = put_entry [of x name ?b k ft "dent_rec_len buf de - real", folded buf'_def, unfolded r(1), OF b name(2)]
  show len: "length buf' = length buf" by (rule p(1))
  have "agree buf buf' 0 de"
    by (rule agree_trans [OF agree_sub [OF r(5)] agree_sub [OF p(5)]]) (simp_all add: x_def)
  note ps = chain_agree [OF this l(1)]
  have "8 + nlen ?b de \<le> real_len (nlen buf de)" using rb by (simp only: r(3))
  then have de: "dent_rec_len buf' de = real" "dent_name_len buf' de = dent_name_len buf de" "dirent buf' de = dirent buf de"
    using agree_fields [OF p(5), of de] r(2,3,4) by (simp_all add: x_def)
  have "real \<le> dent_rec_len buf de" using l(3) by (simp add: word_le_nat_alt real)
  then have rl: "rlen buf' x = rlen buf de - real_len (nlen buf de)" by (simp add: p(4) unat_sub real)
  have tail: "tail_ok buf' (length buf - 12)"
  proof (rule tail_agree [OF _ _ len])
    have a: "agree buf ?b (length buf - 12) (length buf)" by (rule agree_sub [OF r(6)]) (use l(4,6) rb l(3) in simp_all)
    show "tail_ok buf (length buf - 12)" by (rule l(5))
    show "agree buf buf' (length buf - 12) (length buf)"
    proof (cases "x + 8 + length name = length buf - 12")
      case True
      have "?b ! (length buf - 12) = 0" by (rule tail_zero, rule tail_agree [OF l(5) a r(1)])
      then have "agree ?b buf' (x + 8 + length name) (length buf)"
        using put_entry_zero [of x name ?b] b True r(1) by (simp add: buf'_def)
      then show ?thesis using agree_trans [OF a] True by simp
    next
      case False
      show ?thesis by (rule agree_trans [OF a], rule agree_sub [OF p(6)]) (use False e rb(2) in simp_all)
    qed
  qed
  show "dir_list buf' (ps @ [de, x]) = dir_list buf (ps @ [de]) @ [(name, k, ft)]" using ps de(3) p(2) by simp
  show "dir_block buf' (ps @ [de, x])" unfolding dir_block_def len
    using ps tail l sp rl name(1) de p(3) by (auto simp: chain_append real x_def)
qed

section \<open>Searching a block\<close>

text \<open>The first block of directory \<open>i\<close> is in the buffer.\<close>

definition dir_loaded :: "nat \<Rightarrow> kfs \<Rightarrow> nat list \<Rightarrow> bool" where
  "dir_loaded i s os \<longleftrightarrow> dir_block (dbuf s) os \<and> dc_lblock (dcache s) = 0 \<and> unat (BLOCK_SIZE s) = length (dbuf s) \<and>
     (\<exists>inode. ino i s = Some inode \<and> length (dbuf s) \<le> unat (EXT4_INODE_GET_SIZE inode))"

lemma dentry_next_loaded:
  assumes "dir_loaded i s os" "o' < length (dbuf s)"
  shows "dentry_next i idx (word_of_nat o') s = Some (Some o', s)"
proof -
  obtain inode where i: "ino i s = Some inode" "length (dbuf s) \<le> unat (EXT4_INODE_GET_SIZE inode)"
    and bs: "unat (BLOCK_SIZE s) = length (dbuf s)" and l: "dc_lblock (dcache s) = 0"
    and len: "length (dbuf s) \<le> 65536" using assms(1) by (auto simp: dir_loaded_def dir_block_def)
  have u: "unat (word_of_nat o' :: u64) = o'" using assms(2) len by (simp add: unsigned_of_nat take_bit_nat_eq_self)
  have "BLOCK_SIZE s \<noteq> 0" using bs assms(2) by auto
  moreover have "unat (word_of_nat o' div BLOCK_SIZE s) = 0" "unat (word_of_nat o' mod BLOCK_SIZE s) = o'"
    using assms(2) by (simp_all add: unat_div unat_mod u bs)
  moreover have "\<not> EXT4_INODE_GET_SIZE inode < word_of_nat o'" "EXT4_INODE_GET_SIZE inode \<noteq> word_of_nat o'"
    using i(2) assms(2) u by (auto simp: word_less_nat_alt)
  ultimately show ?thesis
    by (subst dentry_next.simps) (simp add: i l Let_def word_unat_eq_iff linorder_not_less cong: bind_weak_cong)
qed

text \<open>The first element with a property, and the element before it.\<close>

fun find_prev :: "('a \<Rightarrow> bool) \<Rightarrow> 'a option \<Rightarrow> 'a list \<Rightarrow> ('a \<times> 'a option) option" where
  "find_prev P d [] = None"
| "find_prev P d (x # xs) = (if P x then Some (x, d) else find_prev P (Some x) xs)"

lemma dir_loadedD:
  assumes "dir_loaded i s os"
  shows "chain (dbuf s) 0 os (length (dbuf s) - 12)" "tail_ok (dbuf s) (length (dbuf s) - 12)"
    "length (dbuf s) - 12 < length (dbuf s)" "dir_block (dbuf s) os"
  using assms by (auto simp: dir_loaded_def dir_block_def tail_ok_def)

text \<open>The comparison of an entry's name with the searched one.\<close>

lemma name_match:
  assumes "x + 8 + nlen buf x \<le> length buf" "0 \<notin> set nm"
  shows "(if length nm = nlen buf x then strncmp_eq (drop (x + 8) buf) nm (length nm) else Some False) = Some (dent_name buf x = nm)"
proof (cases "length nm = nlen buf x")
  case True
  then have "strncmp_eq (drop (x + 8) buf) nm (length nm) = Some (take (length nm) (drop (x + 8) buf) = take (length nm) nm)"
    using assms by (intro strncmp_eq_exact) simp_all
  with True show ?thesis by (simp add: dent_name_def slice_def)
next
  case False
  then have "dent_name buf x \<noteq> nm" using assms(1) by (auto simp: dent_name_def)
  with False show ?thesis by simp
qed

lemma dentry_find_from_name:
  assumes ld: "dir_loaded i s os" and nm: "0 \<notin> set nm"
    and "chain (dbuf s) o' xs (length (dbuf s) - 12)"
  shows "dentry_find_from i idx (Some nm) d (word_of_nat o') s = Some (find_prev (\<lambda>x. dent_name (dbuf s) x = nm) d xs, s)"
  using assms(3)
proof (induction xs arbitrary: o' d)
  case Nil
  note t = dir_loadedD [OF ld]
  have o': "o' = length (dbuf s) - 12" "o' + 8 \<le> length (dbuf s)" using Nil t(2) by (auto simp: tail_ok_def)
  show ?case using t(2,3) o'(2)
    by (subst dentry_find_from.simps)
      (simp add: dentry_next_loaded [OF ld] dent_valid_def Let_def tail_ok_def flip: o'(1) cong: bind_weak_cong)
next
  case (Cons x xs)
  let ?b = "dbuf s"
  note t = dir_loadedD [OF ld]
  have x: "x = o'" "chain ?b (o' + rlen ?b o') xs (length ?b - 12)" using Cons.prems by auto
  have r: "o' + 8 + nlen ?b o' \<le> length ?b - 12" "0 < nlen ?b o'" using chain_room(1,2) [OF Cons.prems, of x] x by auto
  then have l: "o' + 8 + nlen ?b o' \<le> length ?b" "o' + 8 \<le> length ?b" "o' < length ?b" "dent_name_len ?b o' \<noteq> 0" by auto
  note m = name_match [OF l(1) nm]
  show ?case
    by (subst dentry_find_from.simps)
      (use l x m Cons.IH [OF x(2)] in \<open>simp add: dentry_next_loaded [OF ld] dent_valid_def Let_def cong: bind_weak_cong\<close>)
qed

section \<open>A directory in the buffer\<close>

text \<open>The buffer holds the first block of the directory \<open>idx\<close>, whose inode is entry \<open>i\<close> of the cache.\<close>

definition dir_cached :: "nat \<Rightarrow> u32 \<Rightarrow> kfs \<Rightarrow> nat list \<Rightarrow> bool" where
  "dir_cached i idx s os \<longleftrightarrow> idx \<noteq> 0 \<and> dc_inode_idx (dcache s) = idx \<and> dir_loaded i s os"

lemma ino_ic_upd:
  assumes "ino i s = Some inode" and "\<And>e. ic_inode (f e) = ic_inode e"
  obtains s' where "ic_upd i f s = Some s'" "ino i s' = Some inode" "dcache s' = dcache s" "sb s' = sb s"
proof -
  have i: "i < length (ics s)" "ic_inode (ics s ! i) = inode"
    using assms(1) by (simp_all add: ino_def ic_get_def split: if_splits)
  show ?thesis
    by (rule that [of "ic_set i (f (ics s ! i)) s"])
      (use i assms(2) in \<open>simp_all add: ic_upd_def ino_def ic_get_def ic_set_def\<close>)
qed

lemma dir_cached_cong:
  assumes "dir_cached i idx s os" "dcache s' = dcache s" "sb s' = sb s" "ino i s' = ino i s"
  shows "dir_cached i idx s' os"
  using assms by (simp add: dir_cached_def dir_loaded_def)

lemma dir_cached_ic_upd:
  assumes "dir_cached i idx s os" and "\<And>e. ic_inode (f e) = ic_inode e"
  obtains s' where "ic_upd i f s = Some s'" "dir_cached i idx s' os" "dbuf s' = dbuf s"
proof -
  obtain inode where i: "ino i s = Some inode" using assms(1) by (auto simp: dir_cached_def dir_loaded_def)
  show ?thesis
  proof (rule ino_ic_upd [OF i assms(2)])
    fix s'
    assume s': "ic_upd i f s = Some s'" "ino i s' = Some inode" "dcache s' = dcache s" "sb s' = sb s"
    show thesis by (rule that [OF s'(1) dir_cached_cong [OF assms(1)]]) (simp_all add: s' i)
  qed
qed

lemma dcache_init_cached:
  assumes "dir_cached i idx s os"
  obtains s' where "dcache_init i idx s = Some s'" "dir_cached i idx s' os" "dbuf s' = dbuf s" "ICACHE_LRU_INC i s = Some s'"
proof (rule dir_cached_ic_upd [OF assms, of "\<lambda>e. if ic_lru_count e < 0xffffffff then e\<lparr>ic_lru_count := ic_lru_count e + 1\<rparr> else e"])
  fix s'
  assume s': "ic_upd i (\<lambda>e. if ic_lru_count e < 0xffffffff then e\<lparr>ic_lru_count := ic_lru_count e + 1\<rparr> else e) s = Some s'"
    "dir_cached i idx s' os" "dbuf s' = dbuf s"
  have lru: "ICACHE_LRU_INC i s = Some s'" by (simp only: ICACHE_LRU_INC_def s'(1))
  moreover have "idx \<noteq> 0" "dc_inode_idx (dcache s') = idx" "dc_lblock (dcache s') = 0"
    using s'(2) by (auto simp: dir_cached_def dir_loaded_def)
  ultimately show thesis by (intro that [OF _ s'(2,3) lru]) (simp add: dcache_init_def)
qed simp

lemma dentry_find_cached:
  assumes "dir_cached i idx s os" "0 \<notin> set nm"
  obtains s' where "dentry_find i idx (Some nm) s = Some (find_prev (\<lambda>x. dent_name (dbuf s) x = nm) None os, s')"
    "dir_cached i idx s' os" "dbuf s' = dbuf s" "ICACHE_LRU_INC i s = Some s'"
proof (rule dcache_init_cached [OF assms(1)])
  fix s'
  assume s': "dcache_init i idx s = Some s'" "dir_cached i idx s' os" "dbuf s' = dbuf s" "ICACHE_LRU_INC i s = Some s'"
  have ld: "dir_loaded i s' os" using s'(2) by (simp add: dir_cached_def)
  show thesis
    by (rule that [OF _ s'(2-4)])
      (use dentry_find_from_name [OF ld assms(2) dir_loadedD(1) [OF ld], of idx None] s'(1,3) in
        \<open>simp add: dentry_find_def cong: bind_weak_cong\<close>)
qed

text \<open>Without a name the search returns the last entry and remembers it.\<close>

lemma dentry_find_from_last:
  assumes ld: "dir_loaded i s os" and "chain (dbuf s) o' xs (length (dbuf s) - 12)"
  shows "dentry_find_from i idx None d (word_of_nat o') s = (let l = (if xs = [] then d else Some (last xs)) in
    ICACHE_SET_LAST_DE i l s \<bind> (\<lambda>s'. Some (map_option (\<lambda>x. (x, None)) l, s')))"
  using assms(2)
proof (induction xs arbitrary: o' d)
  case Nil
  note t = dir_loadedD [OF ld]
  have o': "o' = length (dbuf s) - 12" "o' + 8 \<le> length (dbuf s)" using Nil t(2) by (auto simp: tail_ok_def)
  show ?case using t(2,3) o'(2)
    by (subst dentry_find_from.simps)
      (simp add: dentry_next_loaded [OF ld] dent_valid_def Let_def tail_ok_def flip: o'(1) cong: bind_weak_cong)
next
  case (Cons x xs)
  let ?b = "dbuf s"
  note t = dir_loadedD [OF ld]
  have x: "x = o'" "chain ?b (o' + rlen ?b o') xs (length ?b - 12)" using Cons.prems by auto
  have r: "o' + 8 + nlen ?b o' \<le> length ?b - 12" "0 < nlen ?b o'" using chain_room(1,2) [OF Cons.prems, of x] x by auto
  then have l: "o' + 8 \<le> length ?b" "o' < length ?b" "dent_name_len ?b o' \<noteq> 0" by auto
  show ?case
    by (subst dentry_find_from.simps)
      (use l x Cons.IH [OF x(2), of "Some o'"] in \<open>simp add: dentry_next_loaded [OF ld] dent_valid_def Let_def unat_eq_zero cong: bind_weak_cong\<close>)
qed

text \<open>The remembered last entry of a directory, if there is one, is its last entry.\<close>

definition last_ok :: "nat \<Rightarrow> kfs \<Rightarrow> nat list \<Rightarrow> bool" where
  "last_ok i s os \<longleftrightarrow> (\<forall>e. ic_get i s = Some e \<longrightarrow> ic_last_de e = None \<or> ic_last_de e = Some (last os))"

lemma LRU_INC_entry:
  assumes "ICACHE_LRU_INC i s = Some s'"
  obtains e e' where "ic_get i s = Some e" "ic_get i s' = Some e'" "ic_last_de e' = ic_last_de e" "ic_status e' = ic_status e"
  using assms by (auto simp: ICACHE_LRU_INC_def ic_upd_def ic_get_def ic_set_def split: if_splits)

lemma last_ok_LRU: "ICACHE_LRU_INC i s = Some s' \<Longrightarrow> last_ok i s os \<Longrightarrow> last_ok i s' os"
  by (erule LRU_INC_entry) (simp add: last_ok_def)

lemma SET_LAST_DE_cached:
  assumes "dir_cached i idx s os"
  obtains s' where "ICACHE_SET_LAST_DE i (Some (last os)) s = Some s'" "dir_cached i idx s' os" "dbuf s' = dbuf s" "last_ok i s' os"
proof (rule dir_cached_ic_upd [OF assms, of "\<lambda>e. e\<lparr>ic_last_de := Some (last os)\<rparr>"])
  fix s'
  assume s': "ic_upd i (\<lambda>e. e\<lparr>ic_last_de := Some (last os)\<rparr>) s = Some s'" "dir_cached i idx s' os" "dbuf s' = dbuf s"
  moreover have "last_ok i s' os"
    using s'(1) by (auto simp: last_ok_def ic_upd_def ic_get_def ic_set_def split: if_splits)
  ultimately show thesis by (intro that [of s']) (simp_all add: ICACHE_SET_LAST_DE_def)
qed simp

lemma dentry_last_cached:
  assumes "dir_cached i idx s os" and "last_ok i s os"
  obtains s' where "dentry_last i idx s = Some (Some (last os), s')" "dir_cached i idx s' os" "dbuf s' = dbuf s" "last_ok i s' os"
proof (rule dcache_init_cached [OF assms(1)])
  fix s1
  assume s1: "dcache_init i idx s = Some s1" "dir_cached i idx s1 os" "dbuf s1 = dbuf s" "ICACHE_LRU_INC i s = Some s1"
  obtain e where e: "ic_get i s1 = Some e" using LRU_INC_entry [OF s1(4)] by metis
  have ok: "last_ok i s1 os" by (rule last_ok_LRU [OF s1(4) assms(2)])
  show thesis
  proof (cases "ic_status e \<noteq> ICACHE_S_INVAL \<and> ic_last_de e \<noteq> None")
    case True
    then have "ic_last_de e = Some (last os)" using ok e by (auto simp: last_ok_def)
    with True s1 e show thesis
      by (intro that [OF _ s1(2,3) ok]) (simp add: dentry_last_def ICACHE_CHECK_LAST_DE_def ICACHE_GET_LAST_DE_def cong: bind_weak_cong)
  next
    case False
    show thesis
    proof (rule dcache_init_cached [OF s1(2)])
      fix s2
      assume s2: "dcache_init i idx s1 = Some s2" "dir_cached i idx s2 os" "dbuf s2 = dbuf s1"
      have ld: "dir_loaded i s2 os" "os \<noteq> []" using s2(2) by (auto simp: dir_cached_def dir_loaded_def dir_block_def)
      show thesis
      proof (rule SET_LAST_DE_cached [OF s2(2)])
        fix s3
        assume s3: "ICACHE_SET_LAST_DE i (Some (last os)) s2 = Some s3" "dir_cached i idx s3 os" "dbuf s3 = dbuf s2" "last_ok i s3 os"
        have "dentry_find i idx None s1 = Some (Some (last os, None), s3)"
          using dentry_find_from_last [OF ld(1) dir_loadedD(1) [OF ld(1)], of idx None] s2(1) s3(1) ld(2)
          by (simp add: dentry_find_def cong: bind_weak_cong)
        moreover have "ICACHE_CHECK_LAST_DE i s1 = Some False" using False e by (auto simp: ICACHE_CHECK_LAST_DE_def)
        ultimately show thesis using s1 s2(3) s3
          by (intro that [of s3]) (simp_all add: dentry_last_def cong: bind_weak_cong)
      qed
    qed
  qed
qed

section \<open>Removing an entry\<close>

lemma remove_entry:
  assumes blk: "dir_block buf (ps @ b # x # qs)"
  defines "buf' \<equiv> splice (b + 4) (put16 (dent_rec_len buf b + dent_rec_len buf x)) buf"
  shows "b + 8 \<le> length buf" "x + 8 \<le> length buf" "length buf' = length buf" "dir_block buf' (ps @ b # qs)"
    "dir_list buf' (ps @ b # qs) = dir_list buf (ps @ b # qs)"
proof -
  let ?e = "length buf - 12"
  have c: "chain buf 0 ps b" "real_len (nlen buf b) \<le> rlen buf b" "x = b + rlen buf b" "chain buf x (x # qs) ?e" "nlen buf b \<noteq> 0"
      "tail_ok buf ?e" "length buf \<le> 65536"
    using blk by (auto simp: dir_block_def chain_append)
  have e: "?e + 12 = length buf" using c(6) by (simp add: tail_ok_def)
  have rb: "8 + nlen buf b \<le> real_len (nlen buf b)" by (rule real_len_bounds)
  have x: "x + rlen buf x \<le> ?e" "x + 8 + nlen buf x \<le> ?e" "chain buf (x + rlen buf x) qs ?e"
    using chain_mem [OF c(4), of x] chain_room(1) [OF c(4), of x] c(4) by auto
  then have b: "b + 8 + nlen buf b \<le> length buf" "b + 8 + nlen buf b \<le> x" using c(2,3) rb by auto
  then show "b + 8 \<le> length buf" "x + 8 \<le> length buf" using x(2) by auto
  note r = set_rec_len [OF b(1), of "dent_rec_len buf b + dent_rec_len buf x", folded buf'_def]
  show len: "length buf' = length buf" by (rule r(1))
  have "rlen buf b + rlen buf x < 2 ^ 16" using x(1) c(3,7) by simp
  then have rl: "rlen buf' b = rlen buf b + rlen buf x" using r(4) by (simp add: unat_add_nowrap)
  have "agree buf buf' 0 b" by (rule agree_sub [OF r(5)]) simp_all
  note ps = chain_agree [OF this c(1)]
  have "agree buf buf' (x + rlen buf x) ?e" by (rule agree_sub [OF r(6)]) (use b(2) in simp_all)
  note qs = chain_agree [OF this x(3)]
  have "tail_ok buf' ?e" by (rule tail_agree [OF c(6) agree_sub [OF r(6)] len]) (use x(1) b(2) in simp_all)
  with ps qs r(2,3) rl c(2,3,5,7) show "dir_block buf' (ps @ b # qs)"
    unfolding dir_block_def len by (auto simp: chain_append add.assoc)
  show "dir_list buf' (ps @ b # qs) = dir_list buf (ps @ b # qs)" using ps qs r(2) by simp
qed

lemma find_prev_first:
  "\<forall>y \<in> set (ps @ [b]). \<not> P y \<Longrightarrow> P x \<Longrightarrow> find_prev P d (ps @ b # x # qs) = Some (x, Some b)"
  by (induction ps arbitrary: d) auto

lemma find_prev_None: "find_prev P d xs = None \<longleftrightarrow> (\<forall>y \<in> set xs. \<not> P y)"
  by (induction P d xs rule: find_prev.induct) auto

lemma dir_cached_set_dbuf:
  assumes "dir_cached i idx s os" "dir_block buf os'" "length buf = length (dbuf s)"
  shows "dir_cached i idx (set_dbuf buf s) os'"
  using assms by (simp add: dir_cached_def dir_loaded_def ino_def ic_get_def)

lemma chain_later: "chain buf o' (x # xs) e \<Longrightarrow> y \<in> set xs \<Longrightarrow> x < y"
  using chain_mem [of buf "o' + rlen buf o'" xs e y] real_len_bounds(1) [of "nlen buf o'"] by auto

lemma dentry_delete_cached:
  assumes dir: "dir_cached i idx s (ps @ b # x # qs)" "last_ok i s (ps @ b # x # qs)" and nm: "0 \<notin> set nm" "dent_name (dbuf s) x = nm"
    and fst: "\<forall>y \<in> set (ps @ [b]). dent_name (dbuf s) y \<noteq> nm"
  obtains s' where "dentry_delete i idx nm s = Some s'" "dir_cached i idx s' (ps @ b # qs)"
    "dir_list (dbuf s') (ps @ b # qs) = dir_list (dbuf s) (ps @ b # qs)" "last_ok i s' (ps @ b # qs)"
proof (rule dcache_init_cached [OF dir(1)])
  let ?os = "ps @ b # x # qs"
  fix s1
  assume s1: "dcache_init i idx s = Some s1" "dir_cached i idx s1 ?os" "dbuf s1 = dbuf s" "ICACHE_LRU_INC i s = Some s1"
  show thesis
  proof (rule dentry_find_cached [OF s1(2) nm(1)])
    fix s2
    assume s2: "dentry_find i idx (Some nm) s1 = Some (find_prev (\<lambda>x. dent_name (dbuf s1) x = nm) None ?os, s2)"
      "dir_cached i idx s2 ?os" "dbuf s2 = dbuf s1" "ICACHE_LRU_INC i s1 = Some s2"
    have ok: "last_ok i s2 ?os" by (rule last_ok_LRU [OF s2(4) last_ok_LRU [OF s1(4) dir(2)]])
    have blk: "dir_block (dbuf s2) ?os" using s2(2) by (simp add: dir_cached_def dir_loaded_def)
    note r = remove_entry [OF blk]
    define buf' where "buf' = splice (b + 4) (put16 (dent_rec_len (dbuf s2) b + dent_rec_len (dbuf s2) x)) (dbuf s2)"
    have s3: "dir_cached i idx (set_dbuf buf' s2) (ps @ b # qs)"
      unfolding buf'_def by (rule dir_cached_set_dbuf [OF s2(2) r(4,3)])
    obtain e where e: "ic_get i s2 = Some e"
      using s2(2) by (auto simp: dir_cached_def dir_loaded_def ino_def bind_eq_Some_conv)
    then have l: "ICACHE_GET_LAST_DE i (set_dbuf buf' s2) = Some (ic_last_de e)"
      by (simp add: ICACHE_GET_LAST_DE_def ic_get_def)
    have f: "find_prev (\<lambda>x. dent_name (dbuf s1) x = nm) None ?os = Some (x, Some b)"
      by (rule find_prev_first) (use fst nm(2) s1(3) in simp_all)
    have eq: "dentry_delete i idx nm s =
      (if ic_last_de e = Some x then ICACHE_SET_LAST_DE i (Some b) (set_dbuf buf' s2) else Some (set_dbuf buf' s2))"
      using s1(1) s2(1) r(1,2) l by (simp add: dentry_delete_def f dent_valid_def buf'_def cong: bind_weak_cong)
    have dl: "dir_list buf' (ps @ b # qs) = dir_list (dbuf s) (ps @ b # qs)"
      using r(5) s1(3) s2(3) by (simp add: buf'_def)
    have "x \<notin> set qs" using blk chain_later [of "dbuf s2" x x qs] by (auto simp: dir_block_def chain_append)
    then have lx: "last ?os = x \<longleftrightarrow> qs = []" by auto
    have le: "ic_last_de e = None \<or> ic_last_de e = Some (last ?os)" using ok e by (simp add: last_ok_def)
    show thesis
    proof (cases "ic_last_de e = Some x")
      case True
      then have qs: "qs = []" using le lx by auto
      show thesis
      proof (rule SET_LAST_DE_cached [OF s3])
        fix s4
        assume "ICACHE_SET_LAST_DE i (Some (last (ps @ b # qs))) (set_dbuf buf' s2) = Some s4" "dir_cached i idx s4 (ps @ b # qs)"
          "dbuf s4 = dbuf (set_dbuf buf' s2)" "last_ok i s4 (ps @ b # qs)"
        with True dl eq qs show thesis by (intro that [of s4]) simp_all
      qed
    next
      case False
      have "last_ok i (set_dbuf buf' s2) (ps @ b # qs)"
        using le False lx e by (auto simp: last_ok_def ic_get_def)
      with False s3 dl eq show thesis by (intro that [of "set_dbuf buf' s2"]) simp_all
    qed
  qed
qed

section \<open>A new directory\<close>

lemma splice_commute:
  assumes "a + length xs \<le> b" "b + length ys \<le> length buf"
  shows "splice b ys (splice a xs buf) = splice a xs (splice b ys buf)"
  using assms by (intro nth_equalityI) (auto simp: nth_splice)

text \<open>The tail of a block, and the buffer after \<open>dentry_init\<close>: the tail at \<open>e\<close> and the entries of the directory itself
  and of its parent.\<close>

definition put_tail :: "nat \<Rightarrow> u8 list \<Rightarrow> u8 list" where
  "put_tail e buf = splice (e + 8) (put32 0) (splice (e + 7) (put8 EXT4_FT_DIR_CSUM) (splice (e + 6) (put8 0)
     (splice (e + 4) (put16 12) (splice e (put32 0) buf))))"

definition init_buf :: "u32 \<Rightarrow> u32 \<Rightarrow> nat \<Rightarrow> u8 list \<Rightarrow> u8 list" where
  "init_buf parent_idx inode_idx e buf =
     put_entry 12 (str ''..'') parent_idx EXT4_FT_DIR (word_of_nat (e - 12))
       (put_entry 0 (str ''.'') inode_idx EXT4_FT_DIR 12 (put_tail e buf))"

lemma put_tail:
  assumes "e + 12 = length buf"
  shows "length (put_tail e buf) = length buf" "tail_ok (put_tail e buf) e"
proof -
  have l: "e + 12 \<le> length buf" using assms by simp
  then show "length (put_tail e buf) = length buf" by (simp add: put_tail_def)
  then show "tail_ok (put_tail e buf) e" using l assms
    by (simp add: tail_ok_def put_tail_def dent_inode_idx_def dent_name_len_def dent_file_type_def buf_simps del: One_nat_def)
qed

lemma init_buf:
  fixes parent_idx inode_idx :: u32
  assumes "e + 12 = length buf" "24 \<le> e" "length buf \<le> 65536"
  defines "buf' \<equiv> init_buf parent_idx inode_idx e buf"
  shows "length buf' = length buf" "dir_block buf' [0, 12]"
    "dir_list buf' [0, 12] = [(str ''.'', inode_idx, EXT4_FT_DIR), (str ''..'', parent_idx, EXT4_FT_DIR)]"
proof -
  have l: "length (str ''.'') = 1" "length (str ''..'') = 2" by (simp_all add: str_def)
  let ?t = "put_tail e buf" and ?d = "put_entry 0 (str ''.'') inode_idx EXT4_FT_DIR 12 (put_tail e buf)"
  note t = put_tail [OF assms(1)]
  have b: "0 + 9 + length (str ''.'') \<le> length ?t" "12 + 9 + length (str ''..'') \<le> length ?d"
    using assms(1,2) by (simp_all add: l t(1) put_entry(1))
  have n: "length (str ''.'') < 256" "length (str ''..'') < 256" by (simp_all add: l)
  note d = put_entry [OF b(1) n(1), of inode_idx EXT4_FT_DIR 12]
  note dd = put_entry [OF b(2) n(2), of parent_idx EXT4_FT_DIR "word_of_nat (e - 12)", folded init_buf_def, folded buf'_def]
  have len: "length ?d = length buf" using d(1) t(1) by simp
  then show len': "length buf' = length buf" using dd(1) by simp
  have "dent_rec_len buf' 0 = dent_rec_len ?d 0 \<and> dent_name_len buf' 0 = dent_name_len ?d 0 \<and> dirent buf' 0 = dirent ?d 0"
    using agree_fields [OF dd(5), of 0] d(3) by (simp add: l)
  then have f: "rlen buf' 0 = 12" "nlen buf' 0 = 1" "dirent buf' 0 = (str ''.'', inode_idx, EXT4_FT_DIR)"
    using d(2,3,4) by (simp_all add: l)
  have r: "rlen buf' 12 = e - 12" using dd(4) assms(1,3) by (simp add: unsigned_of_nat take_bit_nat_eq_self)
  have "agree ?t buf' e (length buf)"
    by (rule agree_trans [OF agree_sub [OF d(6)] agree_sub [OF dd(6)]]) (use assms(2) len t(1) in \<open>simp_all add: l\<close>)
  then have "tail_ok buf' e" using tail_agree [OF t(2), of buf'] len' t(1) by simp
  moreover have e: "e = length buf - 12" using assms(1) by simp
  ultimately show "dir_block buf' [0, 12]" unfolding dir_block_def len'
    using assms(2,3) f(1,2) r dd(3) by (simp add: real_len_def l)
  show "dir_list buf' [0, 12] = [(str ''.'', inode_idx, EXT4_FT_DIR), (str ''..'', parent_idx, EXT4_FT_DIR)]"
    using f(3) dd(2) by simp
qed

text \<open>A sequence of writes into the buffer.\<close>

fun writes :: "(nat \<times> u8 list) list \<Rightarrow> kfs \<Rightarrow> kfs option" where
  "writes [] s = Some s"
| "writes ((off, bs) # ws) s = buf_write off bs s \<bind> writes ws"

lemma writes_eq:
  "\<forall>(off, bs) \<in> set ws. off + length bs \<le> length (dbuf s) \<Longrightarrow>
    writes ws s = Some (set_dbuf (fold (\<lambda>(off, bs). splice off bs) ws (dbuf s)) s)"
proof (induction ws arbitrary: s)
  case Nil
  then show ?case by (simp add: set_dbuf_def)
next
  case (Cons w ws)
  obtain off bs where w: "w = (off, bs)" by (cases w)
  have "writes ws (set_dbuf (splice off bs (dbuf s)) s) = Some (set_dbuf (fold (\<lambda>(off, bs). splice off bs) ws (splice off bs (dbuf s))) s)"
    using Cons.IH [of "set_dbuf (splice off bs (dbuf s)) s"] Cons.prems by (auto simp: w)
  then show ?case using Cons.prems by (simp add: w)
qed

definition entry_writes :: "nat \<Rightarrow> cstr \<Rightarrow> u32 \<Rightarrow> u8 \<Rightarrow> u16 \<Rightarrow> (nat \<times> u8 list) list" where
  "entry_writes x name k ft rl = [(x, put32 k), (x + 4, put16 rl), (x + 6, put8 (word_of_nat (length name))),
     (x + 7, put8 ft), (x + 8, name), (x + 8 + length name, [0])]"

definition tail_writes :: "nat \<Rightarrow> (nat \<times> u8 list) list" where
  "tail_writes e = [(e, put32 0), (e + 4, put16 12), (e + 6, put8 0), (e + 7, put8 EXT4_FT_DIR_CSUM), (e + 8, put32 0)]"

lemma entry_writes:
  assumes "x + 9 + length name \<le> length (dbuf s)"
  shows "writes (entry_writes x name k ft rl) s = Some (set_dbuf (put_entry x name k ft rl (dbuf s)) s)"
proof -
  have "splice (x + 6) (put8 n) (splice (x + 4) (put16 rl) (splice x (put32 k) (dbuf s))) =
      splice (x + 4) (put16 rl) (splice (x + 6) (put8 n) (splice x (put32 k) (dbuf s)))" for n
    using assms by (intro splice_commute) simp_all
  then show ?thesis using assms by (subst writes_eq) (auto simp: entry_writes_def put_entry_def)
qed

lemma tail_writes:
  assumes "e + 12 \<le> length (dbuf s)"
  shows "writes (tail_writes e) s = Some (set_dbuf (put_tail e (dbuf s)) s)"
  using assms by (subst writes_eq) (auto simp: tail_writes_def put_tail_def)

lemma dentry_init_eq:
  assumes "e + 12 = length (dbuf s)" "24 \<le> e" "unat (BLOCK_SIZE s) = length (dbuf s)" "length (dbuf s) \<le> 65536"
  shows "dentry_init parent_idx inode_idx s = Some (set_dbuf (init_buf parent_idx inode_idx e (dbuf s))
    (s\<lparr>dcache := (dcache s)\<lparr>dc_inode_idx := inode_idx, dc_lblock := 0\<rparr>\<rparr>))"
proof -
  let ?s = "s\<lparr>dcache := (dcache s)\<lparr>dc_inode_idx := inode_idx, dc_lblock := 0\<rparr>\<rparr>"
  let ?rest = "\<lambda>s. do {
     s \<leftarrow> buf_write 12 (put32 parent_idx) s;
     s \<leftarrow> buf_write 16 (put16 (ucast (BLOCK_SIZE s - 12 - 12))) s;
     s \<leftarrow> buf_write 18 (put8 2) s;
     s \<leftarrow> buf_write 19 (put8 EXT4_FT_DIR) s;
     s \<leftarrow> buf_write 20 (str ''..'') s;
     buf_write 22 [0] s }"
  have l: "length (str ''.'') = 1" "length (str ''..'') = 2" by (simp_all add: str_def)
  have e: "unat (BLOCK_SIZE s) - 12 = e" using assms(1,3) by simp
  have "12 \<le> BLOCK_SIZE s" "12 \<le> BLOCK_SIZE s - 12" "unat (BLOCK_SIZE s - 12 - 12) = e - 12"
    using assms(1-3) by (simp_all add: word_le_nat_alt unat_sub)
  then have rl: "ucast (BLOCK_SIZE s - 12 - 12) = (word_of_nat (e - 12) :: u16)"
    by (metis of_nat_unat)
  have seq: "dentry_init parent_idx inode_idx s = writes (tail_writes e) ?s \<bind>
      (\<lambda>s. writes (entry_writes 0 (str ''.'') inode_idx EXT4_FT_DIR 12) s \<bind> ?rest)"
    by (simp add: dentry_init_def Let_def e EXT4_DE_TAIL_SIZE_def EXT4_DE_DOT_SIZE_def tail_writes_def entry_writes_def l
        del: buf_write_bind One_nat_def)
  have rest: "?rest t = writes (entry_writes 12 (str ''..'') parent_idx EXT4_FT_DIR (word_of_nat (e - 12))) t"
    if "sb t = sb s" for t using that rl by (simp add: entry_writes_def l buf_write_def)
  let ?t = "put_tail e (dbuf s)" and ?d = "put_entry 0 (str ''.'') inode_idx EXT4_FT_DIR 12 (put_tail e (dbuf s))"
  have len: "length ?t = length (dbuf s)" by (rule put_tail(1) [OF assms(1)])
  then have len': "length ?d = length (dbuf s)" using assms(1,2) by (subst put_entry(1)) (simp_all add: l)
  have t: "writes (tail_writes e) ?s = Some (set_dbuf ?t ?s)"
    using assms(1) by (subst tail_writes) simp_all
  have d: "writes (entry_writes 0 (str ''.'') inode_idx EXT4_FT_DIR 12) (set_dbuf ?t ?s) = Some (set_dbuf ?d ?s)"
    using assms(1,2) len by (subst entry_writes) (simp_all add: l)
  have "?rest (set_dbuf ?d ?s) = Some (set_dbuf (init_buf parent_idx inode_idx e (dbuf s)) ?s)"
    unfolding init_buf_def using assms(1,2) len' by (subst rest, simp) (subst entry_writes, simp_all add: l)
  then show ?thesis by (simp only: seq t d bind.bind_lunit)
qed

section \<open>The directory as a dictionary of names\<close>

text \<open>The offsets of the entries of a block, read off its bytes; every entry takes at least one byte, so
  the length of the block bounds their number.\<close>

fun offsets :: "nat \<Rightarrow> u8 list \<Rightarrow> nat \<Rightarrow> nat \<Rightarrow> nat list" where
  "offsets 0 buf o' e = []"
| "offsets (Suc k) buf o' e = (if e \<le> o' then [] else o' # offsets k buf (o' + rlen buf o') e)"

lemma offsets_chain: "chain buf o' xs e \<Longrightarrow> e \<le> o' + k \<Longrightarrow> offsets k buf o' e = xs"
proof (induction k arbitrary: o' xs)
  case 0
  have False if "x \<in> set xs" for x using chain_room(3) [OF 0(1) that] chain_mem [OF 0(1) that] 0(2) by simp
  then have "xs = []" by (cases xs) auto
  then show ?case by simp
next
  case (Suc k)
  show ?case
  proof (cases xs)
    case (Cons x ys)
    have "x \<in> set xs" using Cons by simp
    note x = chain_room(3) [OF Suc.prems(1) this] chain_mem [OF Suc.prems(1) this]
    have r: "8 \<le> rlen buf x" using x(2) real_len_bounds(1) [of "nlen buf x"] by linarith
    have c: "x = o'" "chain buf (o' + rlen buf o') ys e" using Suc.prems(1) Cons by auto
    then have "offsets k buf (o' + rlen buf o') e = ys" using Suc.IH [OF c(2)] Suc.prems(2) r by simp
    then show ?thesis using x(1) c(1) Cons by simp
  qed (use Suc.prems in simp)
qed

definition block_offsets :: "kfs \<Rightarrow> nat list" where
  "block_offsets s = offsets (length (dbuf s)) (dbuf s) 0 (length (dbuf s) - 12)"

definition dir_entries :: "kfs \<Rightarrow> (cstr \<times> u32 \<times> u8) list" where
  "dir_entries s = dir_list (dbuf s) (block_offsets s)"

lemma block_offsets: "dir_cached i idx s os \<Longrightarrow> block_offsets s = os"
  using offsets_chain [OF dir_loadedD(1), of i s os "length (dbuf s)"] by (simp add: dir_cached_def block_offsets_def)

definition dir_inv :: "nat \<Rightarrow> u32 \<Rightarrow> kfs \<Rightarrow> bool" where
  "dir_inv i idx s \<longleftrightarrow> dir_cached i idx s (block_offsets s) \<and> last_ok i s (block_offsets s)"

lemma dir_invI: "dir_cached i idx s os \<Longrightarrow> last_ok i s os \<Longrightarrow> dir_inv i idx s"
  by (simp add: dir_inv_def block_offsets)

definition dir_name_ok :: "cstr \<Rightarrow> bool" where
  "dir_name_ok nm \<longleftrightarrow> nm \<noteq> [] \<and> length nm < 256 \<and> 0 \<notin> set nm"

text \<open>The block has room for one more name: the test \<open>op_create\<close> makes on the last entry.\<close>

definition dir_room :: "cstr \<Rightarrow> kfs \<Rightarrow> bool" where
  "dir_room nm s \<longleftrightarrow> dentry_has_enough_space (last (block_offsets s)) (word_of_nat (length nm)) s = Some (Inr ())"

text \<open>Adding a name the way \<open>op_create\<close> does, and looking one up.\<close>

definition dir_add :: "nat \<Rightarrow> u32 \<Rightarrow> cstr \<Rightarrow> u32 \<times> u8 \<Rightarrow> kfs \<Rightarrow> kfs option" where
  "dir_add i idx nm v s = do {
     (l, s) \<leftarrow> dentry_last i idx s;
     de \<leftarrow> l;
     (new_de, s) \<leftarrow> dentry_create de nm (fst v) (snd v) s;
     ICACHE_SET_LAST_DE i (Some new_de) s
   }"

definition dir_lookup :: "nat \<Rightarrow> u32 \<Rightarrow> cstr \<Rightarrow> kfs \<Rightarrow> ((u32 \<times> u8) option \<times> kfs) option" where
  "dir_lookup i idx nm s = do {
     (r, s) \<leftarrow> dentry_find i idx (Some nm) s;
     Some (map_option (\<lambda>(x, _). snd (dirent (dbuf s) x)) r, s)
   }"

lemma find_prev_map_of:
  "map_option (\<lambda>(x, _). snd (f x)) (find_prev (\<lambda>x. fst (f x) = n) d xs) = map_of (map f xs) n"
  by (induction xs arbitrary: d) auto

lemma dir_lookup_eq:
  assumes "dir_inv i idx s" "dir_name_ok nm"
  shows "\<exists>s'. dir_lookup i idx nm s = Some (map_of (dir_entries s) nm, s') \<and> dir_inv i idx s' \<and> dir_entries s' = dir_entries s"
proof (rule dentry_find_cached [of i idx s "block_offsets s" nm])
  fix s'
  assume s': "dentry_find i idx (Some nm) s = Some (find_prev (\<lambda>x. dent_name (dbuf s) x = nm) None (block_offsets s), s')"
    "dir_cached i idx s' (block_offsets s)" "dbuf s' = dbuf s" "ICACHE_LRU_INC i s = Some s'"
  have "last_ok i s' (block_offsets s)" by (rule last_ok_LRU [OF s'(4)]) (use assms in \<open>simp add: dir_inv_def\<close>)
  with s' show ?thesis
    using dir_invI [OF s'(2)] find_prev_map_of [of "dirent (dbuf s)" nm None "block_offsets s"]
    by (simp add: dir_lookup_def dir_entries_def block_offsets [OF s'(2)] dirent_def)
qed (use assms in \<open>simp_all add: dir_inv_def dir_name_ok_def\<close>)

lemma dir_add_eq:
  assumes "dir_inv i idx s" "dir_name_ok nm" "dir_room nm s"
  shows "\<exists>s'. dir_add i idx nm v s = Some s' \<and> dir_inv i idx s' \<and> dir_entries s' = dir_entries s @ [(nm, v)]"
proof (rule dentry_last_cached [of i idx s "block_offsets s"])
  let ?os = "block_offsets s"
  show "dir_cached i idx s ?os" "last_ok i s ?os" using assms(1) by (simp_all add: dir_inv_def)
  fix s1
  assume s1: "dentry_last i idx s = Some (Some (last ?os), s1)" "dir_cached i idx s1 ?os" "dbuf s1 = dbuf s"
  have blk: "dir_block (dbuf s1) ?os" using s1(2) by (simp add: dir_cached_def dir_loaded_def)
  then obtain ps de where os: "?os = ps @ [de]" by (metis dir_block_def rev_exhaust)
  have nm: "nm \<noteq> []" "length nm < 256" using assms(2) by (auto simp: dir_name_ok_def)
  note bl = blk [unfolded os]
  have sp: "real_len (length nm) \<le> rlen (dbuf s1) de - real_len (nlen (dbuf s1) de)"
    using assms(3) enough_space [of s de "length nm"] dir_block_last(3) [OF bl] nm(2) s1(3) by (simp add: dir_room_def os)
  define x where "x = de + real_len (nlen (dbuf s1) de)"
  define buf' where "buf' = put_entry x nm (fst v) (snd v) (dent_rec_len (dbuf s1) de - DE_REAL_REC_LEN (dbuf s1) de)
      (splice (de + 4) (put16 (DE_REAL_REC_LEN (dbuf s1) de)) (dbuf s1))"
  note a = append_entry(1) [OF bl nm sp, folded x_def]
    append_entry(2-4) [OF bl nm sp, of "fst v" "snd v", folded x_def, folded buf'_def]
  have c: "dentry_create de nm (fst v) (snd v) s1 = Some (x, set_dbuf buf' s1)"
    unfolding buf'_def x_def by (rule dentry_create_eq [OF nm(2)]) (use a(1) in \<open>simp add: x_def\<close>)
  have s2: "dir_cached i idx (set_dbuf buf' s1) (ps @ [de, x])" by (rule dir_cached_set_dbuf [OF s1(2) a(3,2)])
  show ?thesis
  proof (rule SET_LAST_DE_cached [OF s2])
    fix s3
    assume s3: "ICACHE_SET_LAST_DE i (Some (last (ps @ [de, x]))) (set_dbuf buf' s1) = Some s3" "dir_cached i idx s3 (ps @ [de, x])"
      "dbuf s3 = dbuf (set_dbuf buf' s1)" "last_ok i s3 (ps @ [de, x])"
    have "dir_add i idx nm v s = Some s3"
      using s1(1) c s3(1) by (simp add: dir_add_def os cong: bind_weak_cong)
    moreover have "dir_entries s3 = dir_entries s @ [(nm, v)]"
      using a(4) s3(3) s1(3) by (simp add: dir_entries_def block_offsets [OF s3(2)] os)
    ultimately show ?thesis using dir_invI [OF s3(2,4)] by blast
  qed
qed

text \<open>Removing a name that is not the first one.\<close>

lemma dentry_delete_eq:
  assumes inv: "dir_inv i idx s" and nm: "dir_name_ok nm" and d: "distinct (map fst (dir_entries s))"
    and mem: "nm \<in> fst ` set (tl (dir_entries s))"
  shows "\<exists>s'. dentry_delete i idx nm s = Some s' \<and> dir_inv i idx s' \<and> dir_entries s' = filter (\<lambda>p. fst p \<noteq> nm) (dir_entries s)"
proof -
  let ?n = "dent_name (dbuf s)"
  obtain x where x: "x \<in> set (tl (block_offsets s))" "?n x = nm" using mem by (auto simp: dir_entries_def dirent_def simp flip: map_tl)
  then obtain h t where ht: "block_offsets s = h # t" "x \<in> set t" by (cases "block_offsets s") auto
  then obtain us vs where t: "t = us @ x # vs" by (meson split_list)
  obtain ps b where pb: "h # us = ps @ [b]" by (metis list.distinct(1) rev_exhaust)
  then have os: "block_offsets s = ps @ b # x # vs" using ht t by (metis append.assoc append_Cons append_Nil)
  have dn: "distinct (map ?n (block_offsets s))" using d by (simp add: dir_entries_def dirent_def comp_def)
  then have "nm \<notin> ?n ` set (ps @ [b])" "nm \<notin> ?n ` set vs" using x(2) by (auto simp: os)
  then have ne: "\<forall>y \<in> set (ps @ [b]). ?n y \<noteq> nm" "\<forall>y \<in> set vs. ?n y \<noteq> nm" by blast+
  show ?thesis
  proof (rule dentry_delete_cached [of i idx s ps b x vs nm])
    fix s'
    assume s': "dentry_delete i idx nm s = Some s'" "dir_cached i idx s' (ps @ b # vs)"
      "dir_list (dbuf s') (ps @ b # vs) = dir_list (dbuf s) (ps @ b # vs)" "last_ok i s' (ps @ b # vs)"
    have "dir_entries s' = filter (\<lambda>p. fst p \<noteq> nm) (dir_entries s)"
      using s'(3) ne x(2) by (simp add: dir_entries_def block_offsets [OF s'(2)] os dirent_def filter_map comp_def)
    with s' show ?thesis using dir_invI [OF s'(2,4)] by blast
  qed (use inv nm x(2) ne(1) in \<open>simp_all add: dir_inv_def dir_name_ok_def flip: os\<close>)
qed

lemma map_of_filter_other: "m \<noteq> n \<Longrightarrow> map_of (filter (\<lambda>p. fst p \<noteq> n) xs) m = map_of xs m"
  by (induction xs) auto

text \<open>What the operations on directories rely on: a directory is a list of names with values, and the calls
  look names up in it, append to it and remove from it.\<close>

locale directory =
  fixes inv :: "'s \<Rightarrow> bool" and name_ok :: "'n \<Rightarrow> bool" and room :: "'n \<Rightarrow> 's \<Rightarrow> bool"
    and entries :: "'s \<Rightarrow> ('n \<times> 'v) list"
    and lookup :: "'n \<Rightarrow> 's \<Rightarrow> ('v option \<times> 's) option"
    and add :: "'n \<Rightarrow> 'v \<Rightarrow> 's \<Rightarrow> 's option"
    and remove :: "'n \<Rightarrow> 's \<Rightarrow> 's option"
  assumes lookup_law: "inv s \<Longrightarrow> name_ok n \<Longrightarrow>
      \<exists>s'. lookup n s = Some (map_of (entries s) n, s') \<and> inv s' \<and> entries s' = entries s"
    and add_law: "inv s \<Longrightarrow> name_ok n \<Longrightarrow> room n s \<Longrightarrow>
      \<exists>s'. add n v s = Some s' \<and> inv s' \<and> entries s' = entries s @ [(n, v)]"
    and remove_law: "inv s \<Longrightarrow> name_ok n \<Longrightarrow> distinct (map fst (entries s)) \<Longrightarrow> n \<in> fst ` set (tl (entries s)) \<Longrightarrow>
      \<exists>s'. remove n s = Some s' \<and> inv s' \<and> entries s' = filter (\<lambda>p. fst p \<noteq> n) (entries s)"
begin

lemma lookup_added:
  assumes "inv s" "name_ok n" "room n s" "n \<notin> fst ` set (entries s)"
  shows "\<exists>s'. add n v s = Some s' \<and> inv s' \<and> (\<exists>t. lookup n s' = Some (Some v, t)) \<and>
    (\<forall>m. name_ok m \<and> m \<noteq> n \<longrightarrow> (\<exists>t. lookup m s' = Some (map_of (entries s) m, t)))"
proof -
  obtain s' where s': "add n v s = Some s'" "inv s'" "entries s' = entries s @ [(n, v)]" using add_law [OF assms(1-3)] by blast
  have "map_of (entries s') n = Some v" using assms(4) by (simp add: s'(3) map_add_def map_of_eq_None_iff [THEN iffD2])
  moreover have "map_of (entries s') m = map_of (entries s) m" if "m \<noteq> n" for m
    using that by (simp add: s'(3) map_add_def split: option.split)
  ultimately show ?thesis using lookup_law [OF s'(2)] assms(2) s'(1,2) by metis
qed

lemma lookup_removed:
  assumes "inv s" "name_ok n" "distinct (map fst (entries s))" "n \<in> fst ` set (tl (entries s))"
  shows "\<exists>s'. remove n s = Some s' \<and> inv s' \<and> (\<exists>t. lookup n s' = Some (None, t)) \<and>
    (\<forall>m. name_ok m \<and> m \<noteq> n \<longrightarrow> (\<exists>t. lookup m s' = Some (map_of (entries s) m, t)))"
proof -
  obtain s' where s': "remove n s = Some s'" "inv s'" "entries s' = filter (\<lambda>p. fst p \<noteq> n) (entries s)"
    using remove_law [OF assms] by blast
  have "map_of (entries s') n = None" by (auto simp: s'(3) map_of_eq_None_iff)
  moreover have "map_of (entries s') m = map_of (entries s) m" if "m \<noteq> n" for m
    using map_of_filter_other [OF that] by (simp add: s'(3))
  ultimately show ?thesis using lookup_law [OF s'(2)] assms(2) s'(1,2) by metis
qed

text \<open>Adding a new name and removing it again restores the directory.\<close>

lemma add_remove:
  assumes "inv s" "name_ok n" "room n s" "distinct (map fst (entries s))" "n \<notin> fst ` set (entries s)" "entries s \<noteq> []"
  shows "\<exists>s' s''. add n v s = Some s' \<and> remove n s' = Some s'' \<and> inv s'' \<and> entries s'' = entries s"
proof -
  obtain s' where s': "add n v s = Some s'" "inv s'" "entries s' = entries s @ [(n, v)]" using add_law [OF assms(1-3)] by blast
  have "distinct (map fst (entries s'))" "n \<in> fst ` set (tl (entries s'))" using assms(4-6) by (auto simp: s'(3))
  from remove_law [OF s'(2) assms(2) this] obtain s'' where
    "remove n s' = Some s''" "inv s''" "entries s'' = filter (\<lambda>p. fst p \<noteq> n) (entries s')" by blast
  moreover have "filter (\<lambda>p. fst p \<noteq> n) (entries s) = entries s" using assms(5) by (auto simp: filter_id_conv)
  ultimately show ?thesis using s'(1) by (auto simp: s'(3))
qed

end

interpretation block_dir: directory "dir_inv i idx" dir_name_ok dir_room dir_entries
    "dir_lookup i idx" "dir_add i idx" "dentry_delete i idx" for i idx
  by unfold_locales (rule dir_lookup_eq dir_add_eq dentry_delete_eq; assumption)+

section \<open>Properties of directories\<close>

text \<open>A new directory of one block, the root directory of a small file system.\<close>

definition sample_dir_kfs :: kfs where
  "sample_dir_kfs = sample_kfs\<lparr>
     icache := \<lparr>ic_entries = (replicate 64 sample_icache_entry)[0 := sample_icache_entry\<lparr>
       ic_inode := EXT4_INODE_SET_SIZE 1024 (dec_inode (replicate 160 0)), ic_inode_idx := 2, ic_status := ICACHE_S_VALID\<rparr>], ic_count = 1\<rparr>,
     dcache := \<lparr>dc_inode_idx = 2, dc_lblock = 0, dc_pblock = 8, dc_buf = init_buf 2 2 1012 (replicate 1024 0)\<rparr>\<rparr>"

lemma sample_dir:
  "dir_cached 0 2 sample_dir_kfs [0, 12]" "dir_inv 0 2 sample_dir_kfs" "block_offsets sample_dir_kfs = [0, 12]"
  "dir_entries sample_dir_kfs = [(str ''.'', 2, EXT4_FT_DIR), (str ''..'', 2, EXT4_FT_DIR)]"
proof -
  note b = init_buf [of 1012 "replicate 1024 0" 2 2, simplified]
  have i: "ino 0 sample_dir_kfs = Some (EXT4_INODE_SET_SIZE 1024 (dec_inode (replicate 160 0)))"
    by (simp add: ino_def ic_get_def sample_dir_kfs_def)
  have bs: "unat (BLOCK_SIZE sample_dir_kfs) = 1024" by (simp add: sample_dir_kfs_def sample_kfs_def sample_sb_def EXT4_BLOCK_SIZE_def)
  have buf: "dbuf sample_dir_kfs = init_buf 2 2 1012 (replicate 1024 0)" by (simp add: sample_dir_kfs_def)
  show c: "dir_cached 0 2 sample_dir_kfs [0, 12]"
    unfolding dir_cached_def dir_loaded_def using i bs b by (simp add: buf) (simp add: sample_dir_kfs_def)
  show o: "block_offsets sample_dir_kfs = [0, 12]" by (rule block_offsets [OF c])
  show "dir_inv 0 2 sample_dir_kfs"
    by (rule dir_invI [OF c]) (simp add: last_ok_def ic_get_def sample_dir_kfs_def sample_icache_entry_def)
  show "dir_entries sample_dir_kfs = [(str ''.'', 2, EXT4_FT_DIR), (str ''..'', 2, EXT4_FT_DIR)]"
    using b(3) by (simp add: dir_entries_def o buf)
qed

lemma sample_dir_names: "dir_name_ok (str ''a'')" "dir_name_ok (str ''..'')" "str ''a'' \<noteq> str ''.''" "str ''a'' \<noteq> str ''..''"
  "str ''.'' \<noteq> str ''..''"
  by (simp_all add: dir_name_ok_def str_def)

lemma sample_dir_room: "dir_room (str ''a'') sample_dir_kfs"
proof -
  let ?b = "dbuf sample_dir_kfs"
  have blk: "dir_block ?b ([0] @ [12])" and len: "length ?b = 1024"
    using sample_dir(1) init_buf(1) [of 1012 "replicate 1024 0" 2 2] by (simp_all add: dir_cached_def dir_loaded_def sample_dir_kfs_def)
  note l = dir_block_last [OF blk]
  have "nlen ?b 12 < 256" using unsigned_less [of "dent_name_len ?b 12", where ?'a = nat] by simp
  then have "real_len (nlen ?b 12) \<le> 266" using real_len_bounds(2) [of "nlen ?b 12"] by simp
  moreover have "real_len (length (str ''a'')) = 12" by (simp add: str_def real_len_def)
  ultimately show ?thesis
    unfolding dir_room_def sample_dir(3) using enough_space [of sample_dir_kfs 12 "length (str ''a'')"] l(3,4) len
    by (simp add: str_def)
qed

text \<open>C26: Searching a directory block for a name returns, after finitely many steps, the first entry with exactly that name
  and the entry before it, or reports that no entry has it; the block is not changed.\<close>

theorem dentry_find_refines:
  assumes "dir_cached i idx s os" "0 \<notin> set nm"
  shows "\<exists>s'. dentry_find i idx (Some nm) s = Some (find_prev (\<lambda>x. dent_name (dbuf s) x = nm) None os, s') \<and>
    dir_cached i idx s' os \<and> dbuf s' = dbuf s"
  by (rule dentry_find_cached [OF assms]) blast

theorem dentry_find_refines_witness:
  "\<exists>s'. dentry_find 0 2 (Some (str ''a'')) sample_dir_kfs =
      Some (find_prev (\<lambda>x. dent_name (dbuf sample_dir_kfs) x = str ''a'') None [0, 12], s') \<and>
    dir_cached 0 2 s' [0, 12] \<and> dbuf s' = dbuf sample_dir_kfs"
  by (rule dentry_find_refines [OF sample_dir(1)]) (simp add: str_def)

text \<open>C2: A name that is not in the directory and for which the block has room is added at its end (last entry found, split
  and remembered); afterwards it is found with its inode and type, and every other name is found as before.\<close>

theorem dentry_create_then_find:
  assumes "dir_inv i idx s" "dir_name_ok nm" "dir_room nm s" "nm \<notin> fst ` set (dir_entries s)"
  shows "\<exists>s'. dir_add i idx nm v s = Some s' \<and> dir_inv i idx s' \<and> (\<exists>t. dir_lookup i idx nm s' = Some (Some v, t)) \<and>
    (\<forall>m. dir_name_ok m \<and> m \<noteq> nm \<longrightarrow> (\<exists>t. dir_lookup i idx m s' = Some (map_of (dir_entries s) m, t)))"
  by (rule block_dir.lookup_added [OF assms])

theorem dentry_create_then_find_witness:
  "\<exists>s'. dir_add 0 2 (str ''a'') (12, EXT4_FT_REG_FILE) sample_dir_kfs = Some s' \<and> dir_inv 0 2 s' \<and>
    (\<exists>t. dir_lookup 0 2 (str ''a'') s' = Some (Some (12, EXT4_FT_REG_FILE), t))"
  using dentry_create_then_find [OF sample_dir(2) sample_dir_names(1) sample_dir_room, of "(12, EXT4_FT_REG_FILE)"]
    sample_dir_names by (auto simp: sample_dir(4))

text \<open>C3: Deleting a name other than the first one removes it: it is not found any more and every other name is found
  as before. The directory stays well-formed, its remembered last entry included.\<close>

theorem dentry_delete_then_find:
  assumes "dir_inv i idx s" "dir_name_ok nm" "distinct (map fst (dir_entries s))" "nm \<in> fst ` set (tl (dir_entries s))"
  shows "\<exists>s'. dentry_delete i idx nm s = Some s' \<and> dir_inv i idx s' \<and> (\<exists>t. dir_lookup i idx nm s' = Some (None, t)) \<and>
    (\<forall>m. dir_name_ok m \<and> m \<noteq> nm \<longrightarrow> (\<exists>t. dir_lookup i idx m s' = Some (map_of (dir_entries s) m, t)))"
  by (rule block_dir.lookup_removed [OF assms])

theorem dentry_delete_then_find_witness:
  "\<exists>s'. dentry_delete 0 2 (str ''..'') sample_dir_kfs = Some s' \<and> dir_inv 0 2 s' \<and>
    (\<exists>t. dir_lookup 0 2 (str ''..'') s' = Some (None, t))"
  using dentry_delete_then_find [OF sample_dir(2) sample_dir_names(2)] sample_dir_names by (auto simp: sample_dir(4))

text \<open>A new directory block holds exactly the entries \<open>.\<close> and \<open>..\<close>, with the numbers of the directory and of its parent, and
  ends in a valid tail. The buffer is attributed to the new directory but keeps the number of the physical block it was loaded
  from.\<close>

theorem dentry_init_correct:
  assumes "unat (BLOCK_SIZE s) = length (dbuf s)" "36 \<le> length (dbuf s)" "length (dbuf s) \<le> 65536"
  shows "\<exists>s'. dentry_init parent_idx inode_idx s = Some s' \<and> dir_block (dbuf s') [0, 12] \<and>
    dir_entries s' = [(str ''.'', inode_idx, EXT4_FT_DIR), (str ''..'', parent_idx, EXT4_FT_DIR)] \<and>
    dc_inode_idx (dcache s') = inode_idx \<and> dc_pblock (dcache s') = dc_pblock (dcache s)"
proof -
  define e where "e = length (dbuf s) - 12"
  have e: "e + 12 = length (dbuf s)" "24 \<le> e" using assms(2) by (simp_all add: e_def)
  note b = init_buf [OF e assms(3), of parent_idx inode_idx]
  let ?s = "set_dbuf (init_buf parent_idx inode_idx e (dbuf s)) (s\<lparr>dcache := (dcache s)\<lparr>dc_inode_idx := inode_idx, dc_lblock := 0\<rparr>\<rparr>)"
  have "block_offsets ?s = [0, 12]"
    unfolding block_offsets_def by (rule offsets_chain) (use b(2) in \<open>auto simp: dir_block_def\<close>)
  then show ?thesis using dentry_init_eq [OF e assms(1,3)] b(2,3)
    by (intro exI [of _ ?s]) (simp add: dir_entries_def, simp add: set_dbuf_def)
qed

theorem dentry_init_correct_witness:
  "\<exists>s'. dentry_init 2 13 sample_dir_kfs = Some s' \<and> dir_block (dbuf s') [0, 12] \<and>
    dir_entries s' = [(str ''.'', 13, EXT4_FT_DIR), (str ''..'', 2, EXT4_FT_DIR)] \<and>
    dc_inode_idx (dcache s') = 13 \<and> dc_pblock (dcache s') = dc_pblock (dcache sample_dir_kfs)"
proof (rule dentry_init_correct)
  have "length (dbuf sample_dir_kfs) = 1024" using init_buf(1) [of 1012 "replicate 1024 0" 2 2] by (simp add: sample_dir_kfs_def)
  moreover show "unat (BLOCK_SIZE sample_dir_kfs) = length (dbuf sample_dir_kfs)"
    using sample_dir(1) by (simp add: dir_cached_def dir_loaded_def)
  ultimately show "36 \<le> length (dbuf sample_dir_kfs)" "length (dbuf sample_dir_kfs) \<le> 65536" by simp_all
qed

end
