(* ===== verification/Decache.thy ===== *)
theory Decache
  imports Kfs_State
begin

text \<open>
  The cache of path components, the decache of \<open>src/cache.c\<close>, with the path scanning functions
  of \<open>src/inode.c\<close>. The tree lives in a heap of nodes; \<open>calloc\<close> hands out the next address
  and never fails (the code does not test its result), \<open>free\<close> removes a node, and every access to a
  node that is not in the heap is \<open>None\<close>.
\<close>

section \<open>Path scanning\<close>

definition skip_trailing_backslash :: "cstr \<Rightarrow> cstr" where
  "skip_trailing_backslash path = dropWhile (\<lambda>c. c = SLASH) path"

definition get_path_token_len :: "cstr \<Rightarrow> nat" where
  "get_path_token_len path = length (takeWhile (\<lambda>c. c \<noteq> SLASH) path)"

text \<open>\<open>strchr(path, '/')\<close>: the suffix that starts at the first slash.\<close>

definition strchr_slash :: "cstr \<Rightarrow> cstr option" where
  "strchr_slash path =
     (let r = dropWhile (\<lambda>c. c \<noteq> SLASH) path in if r = [] then None else Some r)"

section \<open>Nodes\<close>

definition NAME_MAX :: nat where "NAME_MAX = 255"
definition DCACHE_ENTRY_NAME_LEN :: nat where "DCACHE_ENTRY_NAME_LEN = NAME_MAX"
definition DCACHE_MAX_CHILDREN :: u32 where "DCACHE_MAX_CHILDREN = 20"

definition de_get :: "nat \<Rightarrow> decache_t \<Rightarrow> decache_entry option" where
  "de_get a d = dh_heap d a"

definition de_upd :: "nat \<Rightarrow> (decache_entry \<Rightarrow> decache_entry) \<Rightarrow> decache_t \<Rightarrow> decache_t option" where
  "de_upd a f d = do {
     e \<leftarrow> dh_heap d a;
     Some (d\<lparr>dh_heap := (dh_heap d)(a \<mapsto> f e)\<rparr>)
   }"

definition de_calloc :: "decache_t \<Rightarrow> nat \<times> decache_t" where
  "de_calloc d = (dh_next d, d\<lparr>dh_next := Suc (dh_next d),
     dh_heap := (dh_heap d)(dh_next d \<mapsto>
       \<lparr>de_parent = None, de_childs = None, de_last_child = None, de_prev = None, de_next = None,
        de_inode_idx = 0, de_count = 0, de_name = []\<rparr>)\<rparr>)"

definition de_free :: "nat \<Rightarrow> decache_t \<Rightarrow> decache_t option" where
  "de_free a d = do {
     _ \<leftarrow> dh_heap d a;
     Some (d\<lparr>dh_heap := (dh_heap d)(a := None)\<rparr>)
   }"

text \<open>The array \<open>name\<close> of a node: the string, followed by zeros.\<close>

definition name_array :: "cstr \<Rightarrow> u8 list" where
  "name_array nm = nm @ replicate (DCACHE_ENTRY_NAME_LEN + 1 - length nm) 0"

section \<open>Operations\<close>

definition decache_init_root :: "u32 \<Rightarrow> decache_t \<Rightarrow> decache_t option" where
  "decache_init_root n d = do {
     let (r, d) = de_calloc d;
     let d = d\<lparr>dh_root := r\<rparr>;
     de_upd r (\<lambda>e. e\<lparr>de_inode_idx := n, de_parent := None, de_childs := None, de_next := None,
                     de_count := 0, de_name := [SLASH]\<rparr>) d
   }"

text \<open>\<open>decache_free\<close>: \<open>free_childs k iter\<close> is the loop over \<open>k\<close> children from \<open>iter\<close> on.\<close>

partial_function (option) free_childs :: "nat \<Rightarrow> nat option \<Rightarrow> decache_t \<Rightarrow> decache_t option" where
  "free_childs k iter d =
     (if k = 0 then Some d
      else do {
        a \<leftarrow> iter;
        e \<leftarrow> de_get a d;
        let iter_next = de_next e;
        d \<leftarrow> free_childs (unat (de_count e)) (de_childs e) d;
        d \<leftarrow> de_free a d;
        free_childs (k - 1) iter_next d
      })"

definition decache_free :: "nat \<Rightarrow> decache_t \<Rightarrow> decache_t option" where
  "decache_free a d = do {
     e \<leftarrow> de_get a d;
     d \<leftarrow> free_childs (unat (de_count e)) (de_childs e) d;
     de_free a d
   }"

definition decache_insert ::
  "nat option \<Rightarrow> cstr \<Rightarrow> nat \<Rightarrow> u32 \<Rightarrow> decache_t \<Rightarrow> (nat option \<times> decache_t) option" where
  "decache_insert parent name namelen n d =
     (if namelen + 1 > DCACHE_ENTRY_NAME_LEN then Some (None, d)
      else do {
        parent \<leftarrow> (case parent of
            Some p \<Rightarrow> Some p
          | None \<Rightarrow> do {
              e \<leftarrow> de_get (dh_root d) d;
              ASSERT (de_inode_idx e \<noteq> 0);
              Some (dh_root d)
            });
        let (new_entry, d) = de_calloc d;
        d \<leftarrow> de_upd new_entry (\<lambda>e. e\<lparr>de_name := take namelen name, de_inode_idx := n,
                                       de_parent := Some parent\<rparr>) d;
        p \<leftarrow> de_get parent d;
        if de_count p = 0 then do {
          d \<leftarrow> de_upd parent (\<lambda>p. p\<lparr>de_childs := Some new_entry\<rparr>) d;
          d \<leftarrow> de_upd new_entry (\<lambda>e. e\<lparr>de_next := None, de_prev := None\<rparr>) d;
          d \<leftarrow> de_upd parent (\<lambda>p. p\<lparr>de_count := 1, de_last_child := Some new_entry\<rparr>) d;
          Some (Some new_entry, d)
        } else do {
          d \<leftarrow> (if de_count p = DCACHE_MAX_CHILDREN then do {
                     iter \<leftarrow> de_last_child p;
                     ie \<leftarrow> de_get iter d;
                     prev \<leftarrow> de_prev ie;
                     d \<leftarrow> de_upd prev (\<lambda>e. e\<lparr>de_next := None\<rparr>) d;
                     d \<leftarrow> de_upd parent (\<lambda>p. p\<lparr>de_last_child := Some prev,
                                                 de_count := de_count p - 1\<rparr>) d;
                     decache_free iter d
                   } else Some d);
          p \<leftarrow> de_get parent d;
          d \<leftarrow> de_upd new_entry (\<lambda>e. e\<lparr>de_next := de_childs p, de_prev := None\<rparr>) d;
          first \<leftarrow> de_childs p;
          d \<leftarrow> de_upd first (\<lambda>e. e\<lparr>de_prev := Some new_entry\<rparr>) d;
          d \<leftarrow> de_upd parent (\<lambda>p. p\<lparr>de_childs := Some new_entry, de_count := de_count p + 1\<rparr>) d;
          Some (Some new_entry, d)
        }
      })"

text \<open>The loop of \<open>decache_walk\<close> over the siblings from \<open>iter\<close> on.\<close>

partial_function (option) walk_childs ::
  "decache_t \<Rightarrow> cstr \<Rightarrow> nat \<Rightarrow> nat \<Rightarrow> nat option option" where
  "walk_childs d name namelen iter = do {
     e \<leftarrow> de_get iter d;
     eq \<leftarrow> strncmp_eq (name_array (de_name e)) name namelen;
     z \<leftarrow> index (name_array (de_name e)) namelen;
     if eq \<and> z = 0 then Some (Some iter)
     else case de_next e of
       None \<Rightarrow> Some None
     | Some iter \<Rightarrow> walk_childs d name namelen iter
   }"

definition decache_walk :: "nat option \<Rightarrow> cstr \<Rightarrow> nat \<Rightarrow> decache_t \<Rightarrow> nat option option" where
  "decache_walk parent name namelen d = do {
     let p = (case parent of Some p \<Rightarrow> p | None \<Rightarrow> dh_root d);
     e \<leftarrow> de_get p d;
     case de_childs e of
       None \<Rightarrow> do { ASSERT (de_count e = 0); Some None }
     | Some c \<Rightarrow>
         if namelen > EXT4_NAME_LEN then do { ASSERT (de_count e = 0); Some None }
         else walk_childs d name namelen c
   }"

text \<open>\<open>decache_find\<close> returns the deepest cached entry along the path and the rest of the path;
  \<open>ret\<close> is the entry reached so far, NULL for the root.\<close>

function decache_find_from ::
  "nat option \<Rightarrow> cstr \<Rightarrow> decache_t \<Rightarrow> (nat option \<times> cstr) option" where
  "decache_find_from ret path d = do {
     let path = skip_trailing_backslash path;
     let path_len = get_path_token_len path;
     if path_len = 0 then Some (ret, path)
     else do {
       next \<leftarrow> decache_walk ret path path_len d;
       case next of
         None \<Rightarrow> Some (ret, path)
       | Some e \<Rightarrow> decache_find_from (Some e) (drop path_len path) d
     }
   }"
  by pat_completeness auto
termination
proof (relation "measure (\<lambda>(ret, path, d). length path)")
  fix ret :: "nat option" and path p :: cstr and d n nx e
  assume "p = skip_trailing_backslash path" "n = get_path_token_len p" "n \<noteq> 0"
  then have "length p \<le> length path" "0 < n" "n \<le> length p"
    by (auto simp: skip_trailing_backslash_def get_path_token_len_def length_dropWhile_le
        length_takeWhile_le)
  then show "((Some e, drop n p, d), ret, path, d) \<in> measure (\<lambda>(ret, path, d). length path)"
    by simp
qed simp

definition decache_find :: "cstr \<Rightarrow> decache_t \<Rightarrow> (nat option \<times> cstr) option" where
  "decache_find path d = decache_find_from None path d"

definition decache_delete :: "cstr \<Rightarrow> decache_t \<Rightarrow> decache_t option" where
  "decache_delete path d = do {
     (entry, _) \<leftarrow> decache_find path d;
     case entry of
       None \<Rightarrow> Some d
     | Some entry \<Rightarrow> do {
         e \<leftarrow> de_get entry d;
         parent \<leftarrow> de_parent e;
         p \<leftarrow> de_get parent d;
         ASSERT (de_count p \<noteq> 0);
         d \<leftarrow> de_upd parent (\<lambda>p. p\<lparr>de_count := de_count p - 1\<rparr>) d;
         if de_count p - 1 = 0 then do {
           ASSERT (de_childs p \<noteq> None);
           d \<leftarrow> de_free entry d;
           de_upd parent (\<lambda>p. p\<lparr>de_childs := None, de_last_child := None\<rparr>) d
         } else do {
           d \<leftarrow> (case de_prev e of
               None \<Rightarrow> do {
                 nx \<leftarrow> de_next e;
                 d \<leftarrow> de_upd nx (\<lambda>x. x\<lparr>de_prev := None\<rparr>) d;
                 de_upd parent (\<lambda>p. p\<lparr>de_childs := de_next e\<rparr>) d
               }
             | Some prev \<Rightarrow> (case de_next e of
                 None \<Rightarrow> do {
                   d \<leftarrow> de_upd prev (\<lambda>x. x\<lparr>de_next := None\<rparr>) d;
                   de_upd parent (\<lambda>p. p\<lparr>de_last_child := Some prev\<rparr>) d
                 }
               | Some _ \<Rightarrow> Some d));
           decache_free entry d
         }
       }
   }"

end
