(* ===== verification/Inode.thy ===== *)
theory Inode
  imports Dir_Block Decache
begin

text \<open>
  Inodes by path, permissions and creation, the second half of \<open>src/inode.c\<close>. The return code and
  the inode pointer of a function are an \<open>errno + nat\<close>.
\<close>

section \<open>Path resolution\<close>

text \<open>The search of one component in a directory: \<open>Some idx\<close> is the inode of the matching entry,
  \<open>None\<close> the end of the directory.\<close>

partial_function (option) lookup_component ::
  "nat \<Rightarrow> u32 \<Rightarrow> cstr \<Rightarrow> nat \<Rightarrow> u64 \<Rightarrow> kfs \<Rightarrow> (u32 option \<times> kfs) option" where
  "lookup_component i inode_idx path path_len offset s = do {
     (next, s) \<leftarrow> dentry_next i inode_idx offset s;
     case next of
       None \<Rightarrow> Some (None, s)
     | Some de \<Rightarrow> do {
         dent_valid de s;
         let buf = dbuf s;
         let offset = offset + ucast (dent_rec_len buf de);
         if dent_inode_idx buf de = 0 \<and> dent_name_len buf de = 0 then do {
           ASSERT (dent_file_type buf de = EXT4_FT_DIR_CSUM);
           Some (None, s)
         } else do {
           match \<leftarrow> (if path_len \<noteq> unat (dent_name_len buf de) then Some False
                      else strncmp_eq (drop (de + 8) buf) path path_len);
           if match then Some (Some (dent_inode_idx buf de), s)
           else lookup_component i inode_idx path path_len offset s
         }
       }
   }"

text \<open>The loop over the components; \<open>dc_entry\<close> is the decache entry of the directory
  \<open>inode_idx\<close>, NULL for the root. The return code of \<open>inode_get_by_number\<close> is not looked at; it is
  an error only for inode 0, which the assertion of \<open>dcache_init\<close> rejects before the
  uninitialised pointer is used.\<close>

partial_function (option) path_loop ::
  "nat option \<Rightarrow> u32 \<Rightarrow> cstr \<Rightarrow> kfs \<Rightarrow> (u32 \<times> kfs) option" where
  "path_loop dc_entry inode_idx path s = do {
     let path = skip_trailing_backslash path;
     let path_len = get_path_token_len path;
     if path_len = 0 then Some (inode_idx, s)
     else do {
       (r, s) \<leftarrow> inode_get_by_number inode_idx s;
       ASSERT (inode_idx \<noteq> 0);
       i \<leftarrow> (case r of Inl _ \<Rightarrow> None | Inr i \<Rightarrow> Some i);
       s \<leftarrow> dcache_init i inode_idx s;
       (found, s) \<leftarrow> lookup_component i inode_idx path path_len 0 s;
       case found of
         None \<Rightarrow> Some (0, s)
       | Some inode_idx \<Rightarrow> do {
           (dc_entry, d) \<leftarrow> decache_insert dc_entry path path_len inode_idx (decache s);
           let s = s\<lparr>decache := d\<rparr>;
           case strchr_slash path of
             None \<Rightarrow> Some (inode_idx, s)
           | Some path \<Rightarrow> path_loop dc_entry inode_idx path s
         }
     }
   }"

definition inode_get_idx_by_path :: "cstr \<Rightarrow> kfs \<Rightarrow> (u32 \<times> kfs) option" where
  "inode_get_idx_by_path path s = do {
     (dc_entry, path) \<leftarrow> decache_find path (decache s);
     e \<leftarrow> de_get (case dc_entry of Some a \<Rightarrow> a | None \<Rightarrow> dh_root (decache s)) (decache s);
     path_loop dc_entry (de_inode_idx e) path s
   }"

text \<open>The caller's \<open>*inode_idx\<close> is returned beside the pointer.\<close>

definition inode_get_by_path :: "cstr \<Rightarrow> kfs \<Rightarrow> ((errno + nat \<times> u32) \<times> kfs) option" where
  "inode_get_by_path path s = do {
     (i_idx, s) \<leftarrow> inode_get_idx_by_path path s;
     if i_idx = 0 then Some (Inl ENOENT, s)
     else do {
       (r, s) \<leftarrow> inode_get_by_number i_idx s;
       Some (map_sum id (\<lambda>i. (i, i_idx)) r, s)
     }
   }"

text \<open>\<open>inode_get_parent_idx_by_path\<close> compares a pointer into its copy of the path with the path
  itself; the two are never equal. Without a slash it writes through a null pointer.\<close>

definition inode_get_parent_idx_by_path :: "cstr \<Rightarrow> kfs \<Rightarrow> (u32 \<times> kfs) option" where
  "inode_get_parent_idx_by_path path s = do {
     (pre, _) \<leftarrow> strrchr_slash path;
     inode_get_idx_by_path (pre @ [SLASH]) s
   }"

definition inode_get_parent_by_path :: "cstr \<Rightarrow> kfs \<Rightarrow> ((errno + nat \<times> u32) \<times> kfs) option" where
  "inode_get_parent_by_path path s = do {
     (parent_idx, s) \<leftarrow> inode_get_parent_idx_by_path path s;
     if parent_idx = 0 then Some (Inl ENOENT, s)
     else do {
       (r, s) \<leftarrow> inode_get_by_number parent_idx s;
       Some (map_sum id (\<lambda>i. (i, parent_idx)) r, s)
     }
   }"

section \<open>Permissions\<close>

datatype access_mode_t = READ | WRITE | RDWR | EXEC

text \<open>One of the three classes: the read, write and execute bits of the class.\<close>

definition mode_bit :: "u16 \<Rightarrow> u16 \<Rightarrow> bool" where "mode_bit m b \<longleftrightarrow> m AND b \<noteq> 0"

fun class_allows :: "access_mode_t \<Rightarrow> u16 \<Rightarrow> u16 \<Rightarrow> u16 \<Rightarrow> u16 \<Rightarrow> bool" where
  "class_allows READ m r w x = mode_bit m r"
| "class_allows WRITE m r w x = mode_bit m w"
| "class_allows RDWR m r w x = (mode_bit m r \<and> mode_bit m w)"
| "class_allows EXEC m r w x = mode_bit m x"

definition inode_check_permission :: "env \<Rightarrow> ext4_inode \<Rightarrow> access_mode_t \<Rightarrow> errno + unit" where
  "inode_check_permission ev inode mode = (
     let uid = (case cntx ev of Some c \<Rightarrow> fc_uid c | None \<Rightarrow> 0);
         gid = (case cntx ev of Some c \<Rightarrow> fc_gid c | None \<Rightarrow> 0);
         m = i_mode inode in
     if uid = 0 then Inr ()
     else if EXT4_INODE_GET_UID inode = uid \<and> class_allows mode m 0x100 0x80 0x40 then Inr ()
     else if EXT4_INODE_GET_GID inode = gid
     then (if class_allows mode m 0x20 0x10 0x08 then Inr () else Inl EACCES)
     else (if class_allows mode m 0x04 0x02 0x01 then Inr () else Inl EACCES))"

section \<open>Creation\<close>

definition zero_inode :: ext4_inode where "zero_inode = dec_inode (replicate 160 0)"

text \<open>The extent header and the four empty extents of a new inode.\<close>

definition new_i_block :: "u8 list" where
  "new_i_block = enc_extent_header \<lparr>eh_magic = EXT4_EXT_MAGIC, eh_entries = 0,
      eh_max = EXT4_EXT_LEAF_EH_MAX, eh_depth = 0, eh_generation = EXT4_EXT_EH_GENERATION\<rparr>
    @ replicate 48 0"

definition new_inode :: "env \<Rightarrow> u32 \<Rightarrow> u64 \<Rightarrow> ext4_inode" where
  "new_inode ev mode bsz = (
     let t = ucast (now ev);
         uid = (case cntx ev of Some c \<Rightarrow> fc_uid c | None \<Rightarrow> 0);
         gid = (case cntx ev of Some c \<Rightarrow> fc_gid c | None \<Rightarrow> 0);
         inode = zero_inode\<lparr>i_mode := ucast mode, i_atime := t, i_ctime := t, i_mtime := t\<rparr>;
         inode = EXT4_INODE_SET_GID gid (EXT4_INODE_SET_UID uid inode);
         inode = inode\<lparr>i_links_count := (if mode AND S_IFDIR \<noteq> 0 then 2 else 1)\<rparr>;
         inode = EXT4_INODE_SET_BLOCKS 0 inode;
         inode = EXT4_INODE_SET_SIZE (if mode AND S_IFDIR \<noteq> 0 then bsz else 0) inode
     in inode\<lparr>i_flags := i_flags inode OR EXT4_EXTENTS_FL, i_block := new_i_block\<rparr>)"

definition inode_create :: "env \<Rightarrow> u32 \<Rightarrow> u32 \<Rightarrow> kfs \<Rightarrow> (nat \<times> kfs) option" where
  "inode_create ev inode_idx mode s = do {
     (i, s) \<leftarrow> icache_insert inode_idx False s;
     s \<leftarrow> upd_ino i (\<lambda>_. new_inode ev mode (BLOCK_SIZE s)) s;
     s \<leftarrow> ICACHE_SET_DIRTY i s;
     Some (i, s)
   }"

definition inode_mode2type :: "u32 \<Rightarrow> u8" where
  "inode_mode2type mode =
     (if mode AND S_IFDIR \<noteq> 0 then EXT4_FT_DIR
      else if mode AND S_IFREG \<noteq> 0 then EXT4_FT_REG_FILE
      else if mode AND S_IFLNK \<noteq> 0 then EXT4_FT_SYMLINK
      else if mode AND S_IFCHR \<noteq> 0 then EXT4_FT_CHRDEV
      else if mode AND S_IFBLK \<noteq> 0 then EXT4_FT_BLKDEV
      else if mode AND S_IFIFO \<noteq> 0 then EXT4_FT_FIFO
      else if mode AND S_IFSOCK \<noteq> 0 then EXT4_FT_SOCK
      else EXT4_FT_UNKNOWN)"

text \<open>The inode after \<open>inode_init_pblock\<close>: one extent of four blocks at logical block 0.\<close>

definition init_pblock_inode :: "u64 \<Rightarrow> ext4_inode \<Rightarrow> ext4_inode" where
  "init_pblock_inode pblock_idx inode = (
     let blk = i_block inode;
         blk = splice 2 (put16 1) blk;
         ee = dec_extent (slice 12 12 blk);
         ee = EXT4_EXT_SET_PADDR pblock_idx (ee\<lparr>ee_block := 0\<rparr>);
         ee = ee\<lparr>ee_len := ucast EXT4_INODE_PBLOCK_NUM\<rparr>
     in EXT4_INODE_SET_BLOCKS (ucast EXT4_INODE_PBLOCK_NUM)
          (inode\<lparr>i_block := splice 12 (enc_extent ee) blk\<rparr>))"

definition inode_init_pblock :: "nat \<Rightarrow> u64 \<Rightarrow> kfs \<Rightarrow> kfs option" where
  "inode_init_pblock i pblock_idx s = do {
     s \<leftarrow> upd_ino i (init_pblock_inode pblock_idx) s;
     s \<leftarrow> ICACHE_SET_DIRTY i s;
     bitmap_pblock_set pblock_idx 4 True s
   }"

section \<open>Looking up one component\<close>

text \<open>The component search of the path walk returns the inode number \<open>dentry_find\<close> would find.\<close>

lemma component_match:
  assumes "x + 8 + nlen buf x \<le> length buf" "0 \<notin> set path" "n \<le> length path"
  shows "(if n \<noteq> nlen buf x then Some False else strncmp_eq (drop (x + 8) buf) path n) = Some (dent_name buf x = take n path)"
proof (cases "n = nlen buf x")
  case True
  then have "strncmp_eq (drop (x + 8) buf) path n = Some (take n (drop (x + 8) buf) = take n path)"
    using assms by (intro strncmp_eq_exact) simp_all
  with True show ?thesis by (simp add: dent_name_def slice_def)
next
  case False
  then have "dent_name buf x \<noteq> take n path" using assms(1,3) by (auto simp: dent_name_def dest: arg_cong [of _ _ length])
  with False show ?thesis by simp
qed

lemma lookup_component_chain:
  assumes ld: "dir_loaded i s os" and path: "0 \<notin> set path" "n \<le> length path"
    and "chain (dbuf s) o' xs (length (dbuf s) - 12)"
  shows "lookup_component i idx path n (word_of_nat o') s =
    Some (map_option fst (map_of (dir_list (dbuf s) xs) (take n path)), s)"
  using assms(4)
proof (induction xs arbitrary: o')
  case Nil
  note t = dir_loadedD [OF ld]
  have o': "o' = length (dbuf s) - 12" "o' + 8 \<le> length (dbuf s)" using Nil t(2) by (auto simp: tail_ok_def)
  show ?case using t(2,3) o'(2)
    by (subst lookup_component.simps)
      (simp add: dentry_next_loaded [OF ld] dent_valid_def Let_def tail_ok_def flip: o'(1) cong: bind_weak_cong)
next
  case (Cons x xs)
  let ?b = "dbuf s"
  have x: "x = o'" "chain ?b (o' + rlen ?b o') xs (length ?b - 12)" using Cons.prems by auto
  have r: "o' + 8 + nlen ?b o' \<le> length ?b - 12" "0 < nlen ?b o'" using chain_room(1,2) [OF Cons.prems, of x] x by auto
  then have l: "o' + 8 + nlen ?b o' \<le> length ?b" "o' + 8 \<le> length ?b" "o' < length ?b" "dent_name_len ?b o' \<noteq> 0" by auto
  note m = component_match [OF l(1) path]
  show ?case
    by (subst lookup_component.simps)
      (use l x m Cons.IH [OF x(2)] in \<open>simp add: dentry_next_loaded [OF ld] dent_valid_def Let_def dirent_def [of "dbuf s" o'] cong: bind_weak_cong\<close>)
qed

section \<open>The blocks of a new inode\<close>

lemma wf_new_inode: "wf_inode (new_inode ev mode bsz)"
  by (simp add: new_inode_def Let_def wf_inode_def new_i_block_def eh_codec.length_enc)

lemma length_new_i_block: "length new_i_block = 60"
  by (simp add: new_i_block_def eh_codec.length_enc)

text \<open>The block array of an inode after \<open>inode_init_pblock\<close>: one record behind the header.\<close>

lemma init_pblock_node:
  assumes "drop_bit 48 p = 0"
  obtains e where "eh_ok (i_block (init_pblock_inode p (new_inode ev mode bsz))) 1 True"
    "ee_records (i_block (init_pblock_inode p (new_inode ev mode bsz))) [e]"
    "ee_block e = 0" "ee_len e = 4" "EXT4_EXT_GET_PADDR e = p"
proof -
  define blk where "blk = splice 2 (put16 1) new_i_block"
  define e where "e = (EXT4_EXT_SET_PADDR p ((dec_extent (slice 12 12 blk))\<lparr>ee_block := 0\<rparr>))\<lparr>ee_len := ucast EXT4_INODE_PBLOCK_NUM\<rparr>"
  define node where "node = splice 12 (enc_extent e) blk"
  have l: "length blk = 60" "length (enc_extent e) = 12" "length node = 60"
    by (simp_all add: blk_def length_new_i_block node_def ee_codec.length_enc)
  have ib: "i_block (init_pblock_inode p (new_inode ev mode bsz)) = node"
    by (simp add: init_pblock_inode_def new_inode_def Let_def EXT4_INODE_SET_BLOCKS_def flip: blk_def)
      (simp add: node_def e_def)
  have g: "get m node o' = get m blk o'" if "o' + m \<le> 12" for m o'
    using that l by (simp add: node_def get_splice_disjoint)
  show ?thesis
  proof (rule that [of e, unfolded ib])
    have "get16 node 0 = EXT4_EXT_MAGIC" "get16 node 2 = 1" "get16 node 4 = EXT4_EXT_LEAF_EH_MAX" "get16 node 6 = 0"
      by (simp_all add: g blk_def buf_simps length_new_i_block)
        (simp_all add: new_i_block_def enc_extent_header_def field_simps_codec)
    then show "eh_ok node 1 True"
      by (simp add: eh_ok_def l dec_extent_header_def get_slice numeral_2_eq_2)
    show "ee_records node [e]" using l by (simp add: ee_records_def node_def slice_splice_same ee_codec.dec_enc)
    show "ee_block e = 0" "ee_len e = 4" by (simp_all add: e_def EXT4_EXT_SET_PADDR_def EXT4_INODE_PBLOCK_NUM_def)
    show "EXT4_EXT_GET_PADDR e = p"
      using GET_SET_PADDR [OF assms, of "(dec_extent (slice 12 12 blk))\<lparr>ee_block := 0\<rparr>"]
      by (simp add: e_def EXT4_EXT_GET_PADDR_def)
  qed
qed

lemma init_pblock_extents: "i_flags (init_pblock_inode p (new_inode ev mode bsz)) AND EXT4_EXTENTS_FL \<noteq> 0"
proof -
  have "i_flags (init_pblock_inode p (new_inode ev mode bsz)) = i_flags zero_inode OR EXT4_EXTENTS_FL"
    by (simp add: init_pblock_inode_def new_inode_def Let_def EXT4_INODE_SET_BLOCKS_def EXT4_INODE_SET_SIZE_def
        EXT4_INODE_SET_UID_def EXT4_INODE_SET_GID_def)
  moreover have "(w OR EXT4_EXTENTS_FL) AND EXT4_EXTENTS_FL = EXT4_EXTENTS_FL" for w
    by (rule bit_word_eqI) (auto simp: bit_simps)
  ultimately show ?thesis by (simp add: EXT4_EXTENTS_FL_def)
qed

lemma init_pblock_map:
  assumes "drop_bit 48 p = 0" "unat l < 4"
  shows "inode_get_data_pblock (init_pblock_inode p (new_inode ev mode bsz)) l s = Some (p + ucast l, Some 4)"
proof (rule init_pblock_node [OF assms(1), of ev mode bsz])
  fix e
  let ?n = "init_pblock_inode p (new_inode ev mode bsz)"
  assume e: "eh_ok (i_block ?n) 1 True" "ee_records (i_block ?n) [e]" "ee_block e = 0" "ee_len e = 4" "EXT4_EXT_GET_PADDR e = p"
  have "pblock_nat (extent_get_pblock s (i_block ?n) l) = pblock_nat (Some (p + ucast l, Some 4))"
    using e assms(2) extent_get_pblock_leaf [OF e(1), of s l] block_from_ees_eq [OF e(2), of 0 1 l]
      unat_target [of e l]
    by (simp add: ee_find_def ee_distance_def)
  then show ?thesis using init_pblock_extents [of p ev mode bsz]
    by (simp add: inode_get_data_pblock_def pblock_nat_inject del: pblock_nat_simps)
qed

section \<open>Properties of inodes\<close>

text \<open>C28: The component search of a path walk terminates and returns the inode number of the directory entry with
  exactly that name, the one \<open>dentry_find\<close> finds, or nothing if there is none.\<close>

theorem lookup_component_refines:
  assumes "dir_inv i idx s" "0 \<notin> set path"
  shows "lookup_component i idx path (get_path_token_len path) 0 s =
    Some (map_option fst (map_of (dir_entries s) (takeWhile (\<lambda>c. c \<noteq> SLASH) path)), s)"
proof -
  have ld: "dir_loaded i s (block_offsets s)" using assms(1) by (simp add: dir_inv_def dir_cached_def)
  have "get_path_token_len path \<le> length path" "take (get_path_token_len path) path = takeWhile (\<lambda>c. c \<noteq> SLASH) path"
    by (simp_all add: get_path_token_len_def length_takeWhile_le takeWhile_eq_take [symmetric])
  with lookup_component_chain [OF ld assms(2) _ dir_loadedD(1) [OF ld]] show ?thesis
    by (simp add: dir_entries_def)
qed

theorem lookup_component_refines_witness:
  "lookup_component 0 2 (str ''..'') (get_path_token_len (str ''..'')) 0 sample_dir_kfs = Some (Some 2, sample_dir_kfs)"
  using lookup_component_refines [OF sample_dir(2), of "str ''..''"] by (simp add: sample_dir(4) str_def SLASH_def)



text \<open>The classical rule, on the octal digits of the mode and on the owner and group as numbers. Root may do
  everything. Everyone else is served by the digit of one class only: the owner by the third, members of the group by
  the second, all others by the first.\<close>

fun digit_permits :: "access_mode_t \<Rightarrow> nat \<Rightarrow> bool" where
  "digit_permits READ d = (d \<in> {4, 5, 6, 7})"
| "digit_permits WRITE d = (d \<in> {2, 3, 6, 7})"
| "digit_permits RDWR d = (d \<in> {6, 7})"
| "digit_permits EXEC d = (d \<in> {1, 3, 5, 7})"

definition mode_digit :: "ext4_inode \<Rightarrow> nat \<Rightarrow> nat" where
  "mode_digit inode c = unat (i_mode inode) div 8 ^ c mod 8"

definition owned_by :: "ext4_inode \<Rightarrow> u32 \<Rightarrow> bool" where
  "owned_by inode uid \<longleftrightarrow> unat uid = 65536 * unat (l_i_uid_high inode) + unat (i_uid inode)"

definition group_class :: "ext4_inode \<Rightarrow> u32 \<Rightarrow> nat" where
  "group_class inode gid =
     (if unat gid = 65536 * unat (l_i_gid_high inode) + unat (i_gid inode) then 1 else 0)"

definition caller :: "env \<Rightarrow> u32 \<times> u32" where
  "caller ev = (case cntx ev of Some c \<Rightarrow> (fc_uid c, fc_gid c) | None \<Rightarrow> (0, 0))"

definition posix_permits :: "env \<Rightarrow> ext4_inode \<Rightarrow> access_mode_t \<Rightarrow> bool" where
  "posix_permits ev inode mode = (
     let (uid, gid) = caller ev;
         c = (if owned_by inode uid then 2 else group_class inode gid)
     in uid = 0 \<or> digit_permits mode (mode_digit inode c))"

lemma unat_join16: "unat (ucast (lo :: u16) OR push_bit 16 (ucast (hi :: u16)) :: u32) = 65536 * unat hi + unat lo"
proof -
  let ?lo = "ucast lo :: u32" and ?hi = "ucast hi :: u32"
  have "?lo AND push_bit 16 ?hi = 0"
    by (rule bit_word_eqI) (auto simp: bit_simps dest: bit_imp_le_length)
  then have "?lo OR push_bit 16 ?hi = ?lo + push_bit 16 ?hi" by (simp add: disjunctive_add_eq_or)
  moreover have "unat (push_bit 16 ?hi) = 65536 * unat hi"
    using unsigned_less [of hi, where ?'a = nat] by (simp add: push_bit_eq_mult unat_mult_nowrap unat_ucast_wider)
  ultimately show ?thesis
    using unsigned_less [of hi, where ?'a = nat] unsigned_less [of lo, where ?'a = nat]
    by (simp add: unat_add_nowrap unat_ucast_wider)
qed

lemma owned_by_iff: "EXT4_INODE_GET_UID inode = uid \<longleftrightarrow> owned_by inode uid"
  by (auto simp: owned_by_def EXT4_INODE_GET_UID_def unat_join16 simp flip: unat_join16 dest: unsigned_word_eqI)

lemma group_class_iff: "group_class inode gid = (if EXT4_INODE_GET_GID inode = gid then 1 else 0)"
  by (auto simp: group_class_def EXT4_INODE_GET_GID_def unat_join16 simp flip: unat_join16 dest: unsigned_word_eqI)

lemma mode_bit_odd: "mode_bit m (2 ^ k) \<longleftrightarrow> odd (unat m div 2 ^ k)"
proof -
  have "mode_bit m (2 ^ k) \<longleftrightarrow> bit m k"
    unfolding mode_bit_def by (simp add: and_exp_eq_0_iff_not_bit)
  also have "\<dots> \<longleftrightarrow> bit (unat m) k" by (simp add: bit_unsigned_iff)
  finally show ?thesis by (simp add: bit_iff_odd)
qed

lemma class_allows_digit:
  "class_allows mode m (2 ^ (3 * c + 2)) (2 ^ (3 * c + 1)) (2 ^ (3 * c)) \<longleftrightarrow>
     digit_permits mode (unat m div 8 ^ c mod 8)"
proof -
  define n d where "n = unat m div 8 ^ c" and "d = n mod 8"
  have "d < 8" by (simp add: d_def)
  then have d: "d \<in> {0, 1, 2, 3, 4, 5, 6, 7}" by auto
  have e: "(8 :: nat) ^ c = 2 ^ (3 * c)" by (simp add: power_mult)
  have bits: "mode_bit m (2 ^ (3 * c + 2)) = odd (n div 4)" "mode_bit m (2 ^ (3 * c + 1)) = odd (n div 2)"
    "mode_bit m (2 ^ (3 * c)) = odd n"
    unfolding mode_bit_odd n_def e by (simp_all only: power_add div_mult2_eq) simp_all
  have "n = 8 * (n div 8) + d" by (simp add: d_def)
  then have "odd (n div 4) = odd (d div 4)" "odd (n div 2) = odd (d div 2)" "odd n = odd d"
    using d by presburger+
  then have "class_allows mode m (2 ^ (3 * c + 2)) (2 ^ (3 * c + 1)) (2 ^ (3 * c)) = digit_permits mode d"
    using d by (cases mode) (auto simp only: class_allows.simps bits, auto)
  then show ?thesis by (simp add: d_def n_def)
qed

text \<open>C32: Permission checks decide by the classical rule, except for owners. Whatever the classical rule allows
  is granted. An owner whom the owner digit refuses is granted what the digit of the group, or of the others if the owner
  is not in the group, allows. In all other cases the answer is \<open>EACCES\<close>.\<close>

theorem check_permission_posix:
  "inode_check_permission ev inode mode = (
     let (uid, gid) = caller ev in
     if posix_permits ev inode mode \<or>
        owned_by inode uid \<and> digit_permits mode (mode_digit inode (group_class inode gid))
     then Inr () else Inl EACCES)"
proof -
  have "class_allows mode m 0x100 0x80 0x40 = digit_permits mode (unat m div 8 ^ 2 mod 8)"
    "class_allows mode m 0x20 0x10 0x08 = digit_permits mode (unat m div 8 ^ 1 mod 8)"
    "class_allows mode m 0x04 0x02 0x01 = digit_permits mode (unat m div 8 ^ 0 mod 8)" for m
    using class_allows_digit [of mode m 2] class_allows_digit [of mode m 1] class_allows_digit [of mode m 0] by simp_all
  then show ?thesis
    by (auto simp: inode_check_permission_def posix_permits_def caller_def Let_def group_class_iff mode_digit_def
        simp flip: owned_by_iff split: option.splits)
qed

text \<open>The file type stored for a mode is right for directories, regular files and FIFOs. Symbolic links
  are stored as regular files, sockets and block devices as directories, and character devices as symbolic links, because
  the bits of the type are tested one by one.\<close>

theorem inode_mode2type_values:
  assumes "p AND S_IFMT = 0"
  shows "inode_mode2type (S_IFDIR OR p) = EXT4_FT_DIR \<and> inode_mode2type (S_IFREG OR p) = EXT4_FT_REG_FILE \<and>
    inode_mode2type (S_IFIFO OR p) = EXT4_FT_FIFO \<and> inode_mode2type (S_IFLNK OR p) = EXT4_FT_REG_FILE \<and>
    inode_mode2type (S_IFSOCK OR p) = EXT4_FT_DIR \<and> inode_mode2type (S_IFBLK OR p) = EXT4_FT_DIR \<and>
    inode_mode2type (S_IFCHR OR p) = EXT4_FT_SYMLINK"
proof -
  have z: "(t OR p) AND m = t AND m" if "S_IFMT AND m = m" for t m
  proof -
    have "p AND m = (p AND S_IFMT) AND m" using that by (simp add: and.assoc)
    then show ?thesis using assms by (simp add: bit.conj_disj_distrib2)
  qed
  show ?thesis by (simp add: inode_mode2type_def z mode_defs)
qed

theorem inode_mode2type_values_witness:
  "inode_mode2type (S_IFLNK OR 0x1ff) = EXT4_FT_REG_FILE"
  using inode_mode2type_values [of "0x1ff"] by (simp add: mode_defs)

end
