(* ===== verification/Ops_Meta.thy ===== *)
theory Ops_Meta
  imports Inode
begin

text \<open>
  The FUSE operations on the attributes of one file: \<open>src/op_access.c\<close>, \<open>op_chmod.c\<close>,
  \<open>op_chown.c\<close>, \<open>op_utimens.c\<close>, \<open>op_getattr.c\<close>, \<open>op_open.c\<close>, \<open>op_flush.c\<close>, \<open>op_readlink.c\<close>,
  \<open>op_readdir.c\<close>, and the operations that only log. An operation returns its error code or value with
  the new state; \<open>fi\<close> is \<open>None\<close> for a null pointer.
\<close>

section \<open>Control paths\<close>

definition KFSCTL_FILENAME :: cstr where "KFSCTL_FILENAME = str ''/.kfsctl''"

text \<open>\<open>ctl_check\<close> of \<open>src/ctl.c\<close>: a path below the root whose last component is \<open>.kfsctl\<close>, but
  not the file \<open>/.kfsctl\<close> itself.\<close>

definition ctl_check :: "cstr \<Rightarrow> bool option" where
  "ctl_check path = do {
     (pre, filename) \<leftarrow> strrchr_slash path;
     Some (pre \<noteq> [] \<and> filename = str ''.kfsctl'')
   }"

section \<open>Access and attributes\<close>

definition W_OK :: u32 where "W_OK = 2"
definition R_OK :: u32 where "R_OK = 4"
definition X_OK :: u32 where "X_OK = 1"

definition op_access :: "env \<Rightarrow> cstr \<Rightarrow> u32 \<Rightarrow> kfs \<Rightarrow> ((errno + unit) \<times> kfs) option" where
  "op_access ev path acc_mask s = do {
     (r, s) \<leftarrow> inode_get_by_path path s;
     case r of
       Inl _ \<Rightarrow> Some (Inl ENOENT, s)
     | Inr (i, _) \<Rightarrow> do {
         inode \<leftarrow> ino i s;
         if acc_mask AND W_OK \<noteq> 0 \<and> inode_check_permission ev inode WRITE \<noteq> Inr () then Some (Inl EACCES, s)
         else if acc_mask AND R_OK \<noteq> 0 \<and> inode_check_permission ev inode READ \<noteq> Inr () then Some (Inl EACCES, s)
         else if acc_mask AND X_OK \<noteq> 0 \<and> inode_check_permission ev inode EXEC \<noteq> Inr () then Some (Inl EACCES, s)
         else Some (Inr (), s)
       }
   }"

text \<open>The inode number of a request: the low half of the file handle, if there is one, or the
  number the path resolves to.\<close>

definition fh_or_path :: "cstr \<Rightarrow> fuse_file_info option \<Rightarrow> kfs \<Rightarrow> (u32 \<times> kfs) option" where
  "fh_or_path path fi s = (case fi of
       Some f \<Rightarrow> if fi_fh f \<noteq> 0 then Some (ucast (fi_fh f), s) else inode_get_idx_by_path path s
     | None \<Rightarrow> inode_get_idx_by_path path s)"

definition op_chmod ::
  "env \<Rightarrow> cstr \<Rightarrow> u32 \<Rightarrow> fuse_file_info option \<Rightarrow> kfs \<Rightarrow> ((errno + unit) \<times> kfs) option" where
  "op_chmod ev path mode fi s = do {
     (inode_idx, s) \<leftarrow> fh_or_path path fi s;
     (r, s) \<leftarrow> inode_get_by_number inode_idx s;
     case r of
       Inl _ \<Rightarrow> Some (Inl ENOENT, s)
     | Inr i \<Rightarrow> do {
         inode \<leftarrow> ino i s;
         if inode_check_permission ev inode RDWR \<noteq> Inr () then Some (Inl EACCES, s)
         else do {
           s \<leftarrow> upd_ino i (\<lambda>inode. inode\<lparr>i_mode := ucast mode\<rparr>) s;
           s \<leftarrow> ICACHE_SET_DIRTY i s;
           Some (Inr (), s)
         }
       }
   }"

definition FUSE_CAP_HANDLE_KILLPRIV :: u32 where "FUSE_CAP_HANDLE_KILLPRIV = 0x100000"

text \<open>\<open>op_chown\<close> compares the owner with the low halves of the stored owner.\<close>

definition op_chown ::
  "env \<Rightarrow> cstr \<Rightarrow> u32 \<Rightarrow> u32 \<Rightarrow> fuse_file_info option \<Rightarrow> kfs \<Rightarrow> ((errno + unit) \<times> kfs) option" where
  "op_chown ev path uid gid fi s =
     (if fuse_capable s AND FUSE_CAP_HANDLE_KILLPRIV = 0 then Some (Inl ENOSYS, s)
      else if sint gid < 0 then Some (Inl EPERM, s)
      else if sint uid < 0 then Some (Inl EINVAL, s)
      else do {
        (inode_idx, s) \<leftarrow> fh_or_path path fi s;
        (r, s) \<leftarrow> inode_get_by_number inode_idx s;
        case r of
          Inl _ \<Rightarrow> Some (Inl ENOENT, s)
        | Inr i \<Rightarrow> do {
            inode \<leftarrow> ino i s;
            if inode_check_permission ev inode WRITE \<noteq> Inr () then Some (Inl EACCES, s)
            else if uid = ucast (i_uid inode) \<and> gid = ucast (i_gid inode) then Some (Inr (), s)
            else do {
              s \<leftarrow> upd_ino i (\<lambda>inode. EXT4_INODE_SET_GID gid (EXT4_INODE_SET_UID uid inode)) s;
              s \<leftarrow> ICACHE_SET_DIRTY i s;
              Some (Inr (), s)
            }
          }
      })"

definition op_utimens ::
  "env \<Rightarrow> cstr \<Rightarrow> u64 \<Rightarrow> u64 \<Rightarrow> fuse_file_info option \<Rightarrow> kfs \<Rightarrow> ((errno + unit) \<times> kfs) option" where
  "op_utimens ev path asec msec fi s = do {
     let asec = (if asec = 0 then now ev else asec);
     let msec = (if msec = 0 then now ev else msec);
     (inode_idx, s) \<leftarrow> fh_or_path path fi s;
     (r, s) \<leftarrow> inode_get_by_number inode_idx s;
     case r of
       Inl _ \<Rightarrow> Some (Inl ENOENT, s)
     | Inr i \<Rightarrow> do {
         inode \<leftarrow> ino i s;
         if inode_check_permission ev inode WRITE \<noteq> Inr () then Some (Inl EPERM, s)
         else do {
           s \<leftarrow> upd_ino i (\<lambda>inode. inode\<lparr>i_atime := ucast asec, i_mtime := ucast msec\<rparr>) s;
           s \<leftarrow> ICACHE_SET_DIRTY i s;
           Some (Inr (), s)
         }
       }
   }"

record stat =
  st_mode :: u32
  st_nlink :: u64
  st_size :: u64
  st_ino :: u64
  st_blocks :: u64
  st_uid :: u32
  st_gid :: u32
  st_atime :: u64
  st_mtime :: u64
  st_ctime :: u64
  st_blksize :: u64

definition fill_stat :: "env \<Rightarrow> u32 \<Rightarrow> ext4_inode \<Rightarrow> kfs \<Rightarrow> stat" where
  "fill_stat ev inode_idx inode s = (
     let umask_val = (case cntx ev of Some c \<Rightarrow> fc_umask c | None \<Rightarrow> 18) in
     \<lparr>st_mode = ucast (i_mode inode) AND NOT umask_val,
      st_nlink = ucast (i_links_count inode),
      st_size = EXT4_INODE_GET_SIZE inode,
      st_ino = ucast inode_idx,
      st_blocks = (if s_flags (sb s) AND EXT4_HUGE_FILE_FL = 0 then ucast (i_blocks_lo inode)
                   else ucast (i_blocks_lo inode) + push_bit 32 (ucast (l_i_blocks_high inode))),
      st_uid = EXT4_INODE_GET_UID inode,
      st_gid = EXT4_INODE_GET_GID inode,
      st_atime = ucast (i_atime inode),
      st_mtime = ucast (i_mtime inode),
      st_ctime = ucast (i_ctime inode),
      st_blksize = BLOCK_SIZE s\<rparr>)"

text \<open>The recursive call on \<open>/.kfsctl\<close> does not recurse again, since \<open>ctl_check\<close> rejects that path.\<close>

definition op_getattr :: "env \<Rightarrow> cstr \<Rightarrow> kfs \<Rightarrow> ((errno + stat) \<times> kfs) option" where
  "op_getattr ev path s = do {
     ctl \<leftarrow> ctl_check path;
     let path = (if ctl then KFSCTL_FILENAME else path);
     (r, s) \<leftarrow> inode_get_by_path path s;
     case r of
       Inl _ \<Rightarrow> Some (Inl ENOENT, s)
     | Inr (i, inode_idx) \<Rightarrow> do {
         inode \<leftarrow> ino i s;
         let st = fill_stat ev inode_idx inode s;
         s \<leftarrow> ICACHE_LRU_INC i s;
         Some (Inr st, s)
       }
   }"

section \<open>Open and flush\<close>

definition O_ACCMODE :: u32 where "O_ACCMODE = 3"

text \<open>The access mode of the open flags, an enum constant by its number.\<close>

definition access_mode_of :: "u32 \<Rightarrow> access_mode_t" where
  "access_mode_of flags = (
     let m = flags AND O_ACCMODE in
     if m = 0 then READ else if m = 1 then WRITE else if m = 2 then RDWR else EXEC)"

definition op_open ::
  "env \<Rightarrow> cstr \<Rightarrow> fuse_file_info \<Rightarrow> kfs \<Rightarrow> ((errno + fuse_file_info) \<times> kfs) option" where
  "op_open ev path fi s = do {
     ctl \<leftarrow> ctl_check path;
     let path = (if ctl then KFSCTL_FILENAME else path);
     (inode_idx, s) \<leftarrow> inode_get_idx_by_path path s;
     (r, s) \<leftarrow> inode_get_by_number inode_idx s;
     case r of
       Inl _ \<Rightarrow> Some (Inl ENOENT, s)
     | Inr i \<Rightarrow> do {
         inode \<leftarrow> ino i s;
         if inode_check_permission ev inode (access_mode_of (fi_flags fi)) \<noteq> Inr ()
         then Some (Inl EACCES, s)
         else Some (Inr (fi\<lparr>fi_fh := ucast inode_idx\<rparr>), s)
       }
   }"

definition op_flush :: "cstr \<Rightarrow> kfs \<Rightarrow> ((errno + unit) \<times> kfs) option" where
  "op_flush path s = do {
     (r, s) \<leftarrow> inode_get_by_path path s;
     case r of
       Inl _ \<Rightarrow> Some (Inl ENOENT, s)
     | Inr (i, inode_idx) \<Rightarrow> do {
         e \<leftarrow> ic_get i s;
         s \<leftarrow> (if ic_status e = ICACHE_S_DIRTY then icache_write_back e s else Some s);
         s \<leftarrow> (if dc_inode_idx (dcache s) = inode_idx then dcache_write_back s else Some s);
         Some (Inr (), s)
       }
   }"

section \<open>Symbolic links and directories\<close>

text \<open>\<open>strncpy(dst, src, n)\<close> for \<open>src\<close> a pointer into a byte object: the bytes before the first
  NUL, padded with NULs to \<open>n\<close>, or the first \<open>n\<close> bytes.\<close>

definition strncpy_bytes :: "u8 list \<Rightarrow> nat \<Rightarrow> u8 list option" where
  "strncpy_bytes src n = (
     let t = takeWhile (\<lambda>b. b \<noteq> 0) (take n src) in
     if length t = n then Some t
     else if length t < length src then Some (t @ replicate (n - length t) 0)
     else None)"

text \<open>\<open>buf\<close> is the caller's buffer, \<open>bufsize\<close> its length.\<close>

definition get_link_dest :: "ext4_inode \<Rightarrow> u8 list \<Rightarrow> u64 \<Rightarrow> kfs \<Rightarrow> u8 list option" where
  "get_link_dest inode buf bufsize s = do {
     let inode_size = EXT4_INODE_GET_SIZE inode;
     buf \<leftarrow> (if unat inode_size \<le> SIZEOF_I_BLOCK then do {
                VALID (unat inode_size \<le> length buf);
                Some (splice 0 (take (unat inode_size) (i_block inode)) buf)
              } else do {
                (pblock, _) \<leftarrow> inode_get_data_pblock inode 0 s;
                block_data \<leftarrow> disk_read_block pblock s;
                t \<leftarrow> strncpy_bytes block_data (unat (bufsize - 1));
                VALID (length t \<le> length buf);
                Some (splice 0 t buf)
              });
     VALID (unat inode_size < length buf);
     Some (buf[unat inode_size := 0])
   }"

definition op_readlink :: "cstr \<Rightarrow> u8 list \<Rightarrow> u64 \<Rightarrow> kfs \<Rightarrow> ((errno + u8 list) \<times> kfs) option" where
  "op_readlink path buf bufsize s = do {
     (r, s) \<leftarrow> inode_get_by_path path s;
     case r of
       Inl _ \<Rightarrow> Some (Inl ENOENT, s)
     | Inr (i, _) \<Rightarrow> do {
         inode \<leftarrow> ino i s;
         if \<not> S_ISLNK (i_mode inode) then Some (Inl EINVAL, s)
         else do {
           buf \<leftarrow> get_link_dest inode buf bufsize s;
           Some (Inr buf, s)
         }
       }
   }"

text \<open>\<open>filler\<close> is libfuse's callback: it takes the buffer, a name and the offset of the next
  entry, and says whether the buffer is full. \<open>name_buf\<close> has \<open>EXT4_NAME_LEN + 1\<close> bytes.\<close>

definition get_printable_name :: "u8 list \<Rightarrow> nat \<Rightarrow> cstr option" where
  "get_printable_name buf de = do {
     let n = unat (dent_name_len buf de);
     VALID (de + 8 + n \<le> length buf);
     VALID (n < EXT4_NAME_LEN + 1);
     Some (takeWhile (\<lambda>b. b \<noteq> 0) (dent_name buf de))
   }"

partial_function (option) readdir_loop ::
  "('b \<Rightarrow> cstr \<Rightarrow> u64 \<Rightarrow> bool \<times> 'b) \<Rightarrow> nat \<Rightarrow> u32 \<Rightarrow> u64 \<Rightarrow> 'b \<Rightarrow> kfs \<Rightarrow> ('b \<times> kfs) option" where
  "readdir_loop filler i inode_idx offset out s = do {
     (next, s) \<leftarrow> dentry_next i inode_idx offset s;
     case next of
       None \<Rightarrow> Some (out, s)
     | Some de \<Rightarrow> do {
         dent_valid de s;
         let buf = dbuf s;
         let offset = offset + ucast (dent_rec_len buf de);
         if dent_inode_idx buf de = 0 \<and> dent_name_len buf de = 0 then do {
           ASSERT (dent_file_type buf de = EXT4_FT_DIR_CSUM);
           Some (out, s)
         } else do {
           name_buf \<leftarrow> get_printable_name buf de;
           if name_buf \<noteq> [] then
             (let (full, out) = filler out name_buf offset in
              if full then Some (out, s) else readdir_loop filler i inode_idx offset out s)
           else readdir_loop filler i inode_idx offset out s
         }
       }
   }"

definition op_readdir ::
  "('b \<Rightarrow> cstr \<Rightarrow> u64 \<Rightarrow> bool \<times> 'b) \<Rightarrow> cstr \<Rightarrow> u64 \<Rightarrow> 'b \<Rightarrow> kfs \<Rightarrow> ((errno + 'b) \<times> kfs) option" where
  "op_readdir filler path offset out s = do {
     (r, s) \<leftarrow> inode_get_by_path path s;
     case r of
       Inl _ \<Rightarrow> Some (Inl ENOENT, s)
     | Inr (i, inode_idx) \<Rightarrow> do {
         s \<leftarrow> dcache_init i inode_idx s;
         (out, s) \<leftarrow> readdir_loop filler i inode_idx offset out s;
         Some (Inr out, s)
       }
   }"

section \<open>Operations that only log\<close>

definition op_ioctl :: "cstr \<Rightarrow> kfs \<Rightarrow> ((errno + unit) \<times> kfs) option" where
  "op_ioctl path s = Some (Inr (), s)"

definition op_lock :: "cstr \<Rightarrow> kfs \<Rightarrow> ((errno + unit) \<times> kfs) option" where
  "op_lock path s = Some (Inr (), s)"

definition op_lseek :: "cstr \<Rightarrow> u64 \<Rightarrow> kfs \<Rightarrow> ((errno + u64) \<times> kfs) option" where
  "op_lseek path off s = Some (Inr 0, s)"

definition op_release :: "cstr \<Rightarrow> kfs \<Rightarrow> ((errno + unit) \<times> kfs) option" where
  "op_release path s = Some (Inr (), s)"

definition op_statfs :: "cstr \<Rightarrow> kfs \<Rightarrow> ((errno + unit) \<times> kfs) option" where
  "op_statfs path s = Some (Inr (), s)"

section \<open>Effects on the inode\<close>

lemma ic_modify_bind: "upd_ino i f s \<bind> (\<lambda>s. ICACHE_SET_DIRTY i s \<bind> g) = ic_modify i f s \<bind> g"
  by (simp add: ic_modify_def)

text \<open>The inode a request reads, and the states after it when it is refused or changes the inode.\<close>

lemma attribute_edit:
  assumes "icache_ok s" "inode_ok s n" "icache_ready s" and f: "\<And>v. wf_inode v \<Longrightarrow> wf_inode (f v)"
  obtains i s1 s' where "inode_get_by_number n s = Some (Inr i, s1)" "ino i s1 = Some (inode_view s n)"
    "(if ok then ic_modify i f s1 else Some s1) = Some s'" "icache_ok s'"
    "\<forall>m. inode_ok s m \<longrightarrow> inode_view s' m = (if m = n \<and> ok then f (inode_view s n) else inode_view s m)"
proof (rule icache_store.fetch_edit [OF assms(1-3)])
  fix i s1
  assume i: "inode_get_by_number n s = Some (Inr i, s1)" "ino i s1 = Some (inode_view s n)" "icache_ok s1"
    "\<forall>m. inode_ok s m \<longrightarrow> inode_view s1 m = inode_view s m"
    and e: "\<And>f. (\<And>v. wf_inode v \<Longrightarrow> wf_inode (f v)) \<Longrightarrow> \<exists>s2. ic_modify i f s1 = Some s2 \<and> icache_ok s2 \<and>
       (\<forall>m. inode_ok s m \<longrightarrow> inode_view s2 m = (if m = n then f (inode_view s n) else inode_view s m))"
  obtain s2 where "ic_modify i f s1 = Some s2" "icache_ok s2"
       "\<forall>m. inode_ok s m \<longrightarrow> inode_view s2 m = (if m = n then f (inode_view s n) else inode_view s m)"
    using e [of f] f by blast
  with i show ?thesis by (intro that [of i s1 "if ok then s2 else s1"]) auto
qed

text \<open>A request of user 0 on an open file with inode number 3.\<close>

definition sample_root :: env where
  "sample_root = \<lparr>cntx = Some \<lparr>fc_uid = 0, fc_gid = 0, fc_umask = 0\<rparr>, now = 7\<rparr>"

definition sample_fi :: "fuse_file_info option" where
  "sample_fi = Some \<lparr>fi_fh = 3, fi_flags = 0\<rparr>"

lemma sample_request:
  "fh_or_path path sample_fi sample_kfs = Some (3, sample_kfs)"
  "inode_check_permission sample_root v mode = Inr ()"
  "inode_ok sample_kfs 3"
  by (simp_all add: fh_or_path_def sample_fi_def inode_check_permission_def sample_root_def sample_inode_ok)

text \<open>C29: A change of the mode either is refused with \<open>EACCES\<close> and changes no inode, or sets the mode of the requested
  inode to the low 16 bits of the argument; no other field and no other inode changes. The cache invariant is kept.\<close>

theorem op_chmod_effect:
  fixes ev :: env
  assumes "fh_or_path path fi s0 = Some (n, s)" "icache_ok s" "inode_ok s n" "icache_ready s"
  defines "ok \<equiv> inode_check_permission ev (inode_view s n) RDWR = Inr ()"
  shows "\<exists>s'. op_chmod ev path mode fi s0 = Some (if ok then Inr () else Inl EACCES, s') \<and> icache_ok s' \<and>
    (\<forall>m. inode_ok s m \<longrightarrow> inode_view s' m =
      (if m = n \<and> ok then (inode_view s n)\<lparr>i_mode := ucast mode\<rparr> else inode_view s m))"
proof -
  obtain i s1 s' where "inode_get_by_number n s = Some (Inr i, s1)" "ino i s1 = Some (inode_view s n)"
    "(if ok then ic_modify i (\<lambda>v. v\<lparr>i_mode := ucast mode\<rparr>) s1 else Some s1) = Some s'" "icache_ok s'"
    "\<forall>m. inode_ok s m \<longrightarrow> inode_view s' m =
      (if m = n \<and> ok then (inode_view s n)\<lparr>i_mode := ucast mode\<rparr> else inode_view s m)"
    by (rule attribute_edit [OF assms(2-4), of "\<lambda>v. v\<lparr>i_mode := ucast mode\<rparr>" ok])
       (auto simp: wf_inode_def)
  with assms(1) show ?thesis
    by (intro exI [of _ s']) (auto simp: op_chmod_def ic_modify_bind ok_def split: if_splits)
qed

theorem op_chmod_effect_witness:
  "\<exists>s'. op_chmod sample_root [] 0x1b6 sample_fi sample_kfs = Some (Inr (), s') \<and> icache_ok s' \<and>
    i_mode (inode_view s' 3) = 0x1b6"
  using op_chmod_effect [where ev = sample_root and mode = "0x1b6",
      OF sample_request(1) [of "[]"] sample_icache_ok sample_request(3) sample_icache_ready] sample_request(3)
  by (auto simp: sample_request(2))

text \<open>A change of the time stamps stores the low 32 bits of the two times in the requested inode, a zero time
  standing for the current one, and changes nothing else; without write permission it is refused with \<open>EPERM\<close>.\<close>

theorem op_utimens_effect:
  fixes ev :: env and asec msec :: u64
  assumes "fh_or_path path fi s0 = Some (n, s)" "icache_ok s" "inode_ok s n" "icache_ready s"
  defines "ok \<equiv> inode_check_permission ev (inode_view s n) WRITE = Inr ()"
    and "f \<equiv> \<lambda>v. v\<lparr>i_atime := ucast (if asec = 0 then now ev else asec), i_mtime := ucast (if msec = 0 then now ev else msec)\<rparr>"
  shows "\<exists>s'. op_utimens ev path asec msec fi s0 = Some (if ok then Inr () else Inl EPERM, s') \<and> icache_ok s' \<and>
    (\<forall>m. inode_ok s m \<longrightarrow> inode_view s' m = (if m = n \<and> ok then f (inode_view s n) else inode_view s m))"
proof -
  obtain i s1 s' where "inode_get_by_number n s = Some (Inr i, s1)" "ino i s1 = Some (inode_view s n)"
    "(if ok then ic_modify i f s1 else Some s1) = Some s'" "icache_ok s'"
    "\<forall>m. inode_ok s m \<longrightarrow> inode_view s' m = (if m = n \<and> ok then f (inode_view s n) else inode_view s m)"
    by (rule attribute_edit [OF assms(2-4), of f ok]) (auto simp: wf_inode_def f_def)
  with assms(1) show ?thesis
    by (intro exI [of _ s']) (auto simp: op_utimens_def ic_modify_bind ok_def f_def Let_def split: if_splits)
qed

theorem op_utimens_effect_witness:
  "\<exists>s'. op_utimens sample_root [] 0 12 sample_fi sample_kfs = Some (Inr (), s') \<and> icache_ok s' \<and>
    i_atime (inode_view s' 3) = 7 \<and> i_mtime (inode_view s' 3) = 12"
  using op_utimens_effect [where ev = sample_root and asec = 0 and msec = 12,
      OF sample_request(1) [of "[]"] sample_icache_ok sample_request(3) sample_icache_ready] sample_request(3)
  by (auto simp: sample_request(2)) (auto simp: sample_root_def)

text \<open>A change of the owner that is permitted stores both ids, unless the requested ids equal the low 16 bits of
  the stored ones: then it reports success and leaves the inode as it is.\<close>

theorem op_chown_effect:
  fixes ev :: env and uid gid :: u32
  assumes "fh_or_path path fi s0 = Some (n, s)" "icache_ok s" "inode_ok s n" "icache_ready s"
    and "fuse_capable s0 AND FUSE_CAP_HANDLE_KILLPRIV \<noteq> 0" "0 \<le> sint uid" "0 \<le> sint gid"
    and perm: "inode_check_permission ev (inode_view s n) WRITE = Inr ()"
  defines "skip \<equiv> uid = ucast (i_uid (inode_view s n)) \<and> gid = ucast (i_gid (inode_view s n))"
  shows "\<exists>s'. op_chown ev path uid gid fi s0 = Some (Inr (), s') \<and> icache_ok s' \<and>
    (if skip then inode_view s' n = inode_view s n
     else EXT4_INODE_GET_UID (inode_view s' n) = uid \<and> EXT4_INODE_GET_GID (inode_view s' n) = gid) \<and>
    (\<forall>m. inode_ok s m \<and> m \<noteq> n \<longrightarrow> inode_view s' m = inode_view s m)"
proof -
  let ?f = "\<lambda>v. EXT4_INODE_SET_GID gid (EXT4_INODE_SET_UID uid v)"
  obtain i s1 s' where "inode_get_by_number n s = Some (Inr i, s1)" "ino i s1 = Some (inode_view s n)"
    "(if \<not> skip then ic_modify i ?f s1 else Some s1) = Some s'" "icache_ok s'"
    "\<forall>m. inode_ok s m \<longrightarrow> inode_view s' m = (if m = n \<and> \<not> skip then ?f (inode_view s n) else inode_view s m)"
    by (rule attribute_edit [OF assms(2-4), of ?f "\<not> skip"]) auto
  moreover have "EXT4_INODE_GET_UID (EXT4_INODE_SET_GID gid v) = EXT4_INODE_GET_UID v" for v
    by (simp add: EXT4_INODE_GET_UID_def EXT4_INODE_SET_GID_def)
  ultimately show ?thesis using assms(1,3,5-7) perm
    by (intro exI [of _ s']) (auto simp: op_chown_def ic_modify_bind skip_def split: if_splits)
qed

theorem op_chown_effect_witness:
  "\<exists>s'. op_chown sample_root [] 0x12345 7 sample_fi sample_kfs = Some (Inr (), s') \<and> icache_ok s' \<and>
    EXT4_INODE_GET_UID (inode_view s' 3) = 0x12345 \<and> EXT4_INODE_GET_GID (inode_view s' 3) = 7"
proof -
  have "\<not> (0x12345 = (ucast (w :: u16) :: u32))" for w
  proof
    assume "0x12345 = (ucast w :: u32)"
    then have "bit (0x12345 :: u32) 16 = bit (ucast w :: u32) 16" by simp
    then show False using bit_imp_le_length [of w 16] by (simp add: bit_simps)
  qed
  then show ?thesis
    using op_chown_effect [where ev = sample_root and uid = "0x12345" and gid = 7,
      OF sample_request(1) [of "[]"] sample_icache_ok sample_request(3) sample_icache_ready] sample_request(2)
    by (simp add: sample_kfs_def [THEN arg_cong, of fuse_capable] FUSE_CAP_HANDLE_KILLPRIV_def) blast
qed

end
