(* ===== verification/Ops_Dir.thy ===== *)
theory Ops_Dir
  imports Ops_Meta
begin

text \<open>
  The FUSE operations that change directories: \<open>src/op_create.c\<close>, \<open>op_mkdir.c\<close>, \<open>op_link.c\<close>,
  \<open>op_symlink.c\<close>, \<open>op_unlink.c\<close>, \<open>op_rmdir.c\<close> and \<open>op_rename.c\<close>. The last component of a path is
  \<open>strrchr(path, '/') + 1\<close>; a path without a slash makes it an invalid pointer.
\<close>

section \<open>Creating\<close>

text \<open>The first entry of the next block of the directory, the branch of \<open>op_create\<close> for a full
  block: the last entry \<open>de\<close> takes over the tail, and the new entry fills the next block.\<close>

definition create_in_next_block ::
  "nat \<Rightarrow> nat \<Rightarrow> cstr \<Rightarrow> u32 \<Rightarrow> u32 \<Rightarrow> kfs \<Rightarrow> kfs option" where
  "create_in_next_block i de file_name inode_idx mode s = do {
     dent_valid de s;
     s \<leftarrow> buf_write (de + 4) (put16 (dent_rec_len (dbuf s) de + word_of_nat EXT4_DE_TAIL_SIZE)) s;
     s \<leftarrow> dcache_write_back s;
     parent_inode \<leftarrow> ino i s;
     let block_num = EXT4_INODE_GET_BLOCKS parent_inode;
     let next_lblock = (ucast (dc_lblock (dcache s) + 1) :: u64);
     ASSERT (block_num > next_lblock);
     s \<leftarrow> dcache_load_lblock i (ucast next_lblock) s;
     let tail = unat (BLOCK_SIZE s) - EXT4_DE_TAIL_SIZE;
     s \<leftarrow> buf_write tail (put32 0) s;
     s \<leftarrow> buf_write (tail + 4) (put16 (word_of_nat EXT4_DE_TAIL_SIZE)) s;
     s \<leftarrow> buf_write (tail + 6) (put8 0) s;
     s \<leftarrow> buf_write (tail + 7) (put8 EXT4_FT_DIR_CSUM) s;
     s \<leftarrow> buf_write (tail + 8) (put32 0) s;
     s \<leftarrow> buf_write 4 (put16 (ucast (BLOCK_SIZE s - word_of_nat EXT4_DE_TAIL_SIZE))) s;
     s \<leftarrow> buf_write 0 (put32 inode_idx) s;
     s \<leftarrow> buf_write 6 (put8 (word_of_nat (length file_name))) s;
     s \<leftarrow> buf_write 7 (put8 (inode_mode2type mode)) s;
     s \<leftarrow> buf_write 8 file_name s;
     s \<leftarrow> buf_write (8 + length file_name) [0] s;
     s \<leftarrow> dcache_write_back s;
     ICACHE_SET_LAST_DE i None s
   }"

definition op_create :: "env \<Rightarrow> cstr \<Rightarrow> u32 \<Rightarrow> kfs \<Rightarrow> ((errno + unit) \<times> kfs) option" where
  "op_create ev path mode s = do {
     (_, file_name) \<leftarrow> strrchr_slash path;
     let name_len = length file_name;
     if name_len > EXT4_NAME_LEN then Some (Inl ENAMETOOLONG, s)
     else do {
       (r, s) \<leftarrow> inode_get_parent_by_path path s;
       case r of
         Inl _ \<Rightarrow> Some (Inl ENOENT, s)
       | Inr (parent, parent_idx) \<Rightarrow> do {
           inode_idx \<leftarrow> bitmap_inode_find parent_idx s;
           if inode_idx = 0 then Some (Inl ENOSPC, s)
           else do {
             (last, s) \<leftarrow> dentry_last parent parent_idx s;
             case last of
               None \<Rightarrow> Some (Inl ENOENT, s)
             | Some de \<Rightarrow> do {
                 space \<leftarrow> dentry_has_enough_space de (word_of_nat name_len) s;
                 s \<leftarrow> (case space of
                     Inl _ \<Rightarrow> create_in_next_block parent de file_name inode_idx mode s
                   | Inr _ \<Rightarrow> do {
                       (new_de, s) \<leftarrow> dentry_create de file_name inode_idx (inode_mode2type mode) s;
                       s \<leftarrow> ICACHE_SET_LAST_DE parent (Some new_de) s;
                       dcache_write_back s
                     });
                 (_, s) \<leftarrow> inode_create ev inode_idx mode s;
                 s \<leftarrow> bitmap_inode_set inode_idx True s;
                 Some (Inr (), s)
               }
           }
         }
     }
   }"

definition op_mkdir :: "env \<Rightarrow> cstr \<Rightarrow> u32 \<Rightarrow> kfs \<Rightarrow> ((errno + unit) \<times> kfs) option" where
  "op_mkdir ev path mode s = do {
     let mode = mode OR S_IFDIR;
     (r, s) \<leftarrow> inode_get_parent_by_path path s;
     case r of
       Inl _ \<Rightarrow> Some (Inl ENOENT, s)
     | Inr (parent, parent_idx) \<Rightarrow> do {
         dir_idx \<leftarrow> bitmap_inode_find parent_idx s;
         if dir_idx = 0 then Some (Inl ENOSPC, s)
         else do {
           dir_pblock_idx \<leftarrow> bitmap_pblock_find dir_idx s;
           if dir_pblock_idx = 0 then Some (Inl ENOSPC, s)
           else do {
             (last, s) \<leftarrow> dentry_last parent parent_idx s;
             case last of
               None \<Rightarrow> Some (Inl ENOENT, s)
             | Some de \<Rightarrow> do {
                 (_, dir_name) \<leftarrow> strrchr_slash path;
                 space \<leftarrow> dentry_has_enough_space de (word_of_nat (length dir_name)) s;
                 case space of
                   Inl _ \<Rightarrow> Some (Inl ENOSPC, s)
                 | Inr _ \<Rightarrow> do {
                     (new_de, s) \<leftarrow> dentry_create de dir_name dir_idx (inode_mode2type mode) s;
                     s \<leftarrow> ICACHE_SET_LAST_DE parent (Some new_de) s;
                     s \<leftarrow> dcache_write_back s;
                     s \<leftarrow> upd_ino parent (\<lambda>p. p\<lparr>i_links_count := i_links_count p + 1\<rparr>) s;
                     s \<leftarrow> ICACHE_SET_DIRTY parent s;
                     (i, s) \<leftarrow> inode_create ev dir_idx mode s;
                     s \<leftarrow> inode_init_pblock i dir_pblock_idx s;
                     s \<leftarrow> bitmap_inode_set dir_idx True s;
                     s \<leftarrow> bitmap_pblock_set dir_pblock_idx (uint EXT4_INODE_PBLOCK_NUM) True s;
                     s \<leftarrow> gdt_update_counts dir_idx s;
                     s \<leftarrow> dentry_init parent_idx dir_idx s;
                     s \<leftarrow> disk_write_block dir_pblock_idx (dbuf s) s;
                     Some (Inr (), s)
                   }
               }
           }
         }
       }
   }"

section \<open>Linking\<close>

text \<open>The pointer \<open>inode\<close> is used again after the parent of \<open>to\<close> was looked up, whatever its
  cache entry then holds.\<close>

definition op_link :: "cstr \<Rightarrow> cstr \<Rightarrow> kfs \<Rightarrow> ((errno + unit) \<times> kfs) option" where
  "op_link from to s = do {
     (r, s) \<leftarrow> inode_get_by_path from s;
     case r of
       Inl _ \<Rightarrow> Some (Inl ENOENT, s)
     | Inr (i, inode_idx) \<Rightarrow> do {
         inode \<leftarrow> ino i s;
         if S_ISDIR (i_mode inode) then Some (Inl EPERM, s)
         else if i_links_count inode = 0xffff then Some (Inl EMLINK, s)
         else do {
           s \<leftarrow> upd_ino i (\<lambda>inode. inode\<lparr>i_links_count := i_links_count inode + 1\<rparr>) s;
           s \<leftarrow> ICACHE_SET_DIRTY i s;
           (r, s) \<leftarrow> inode_get_parent_by_path to s;
           case r of
             Inl _ \<Rightarrow> Some (Inl ENOENT, s)
           | Inr (to_dir, to_dir_idx) \<Rightarrow> do {
               (last_de, s) \<leftarrow> dentry_last to_dir to_dir_idx s;
               (_, name) \<leftarrow> strrchr_slash to;
               last_de \<leftarrow> last_de;
               space \<leftarrow> dentry_has_enough_space last_de (word_of_nat (length name)) s;
               case space of
                 Inl _ \<Rightarrow> Some (Inl ENOSPC, s)
               | Inr _ \<Rightarrow> do {
                   inode \<leftarrow> ino i s;
                   (new_de, s) \<leftarrow> dentry_create last_de name inode_idx
                                   (inode_mode2type (ucast (i_mode inode))) s;
                   s \<leftarrow> dcache_write_back s;
                   s \<leftarrow> ICACHE_SET_LAST_DE to_dir (Some new_de) s;
                   Some (Inr (), s)
                 }
             }
         }
       }
   }"

definition inode_symlink_create ::
  "nat \<Rightarrow> u32 \<Rightarrow> cstr \<Rightarrow> kfs \<Rightarrow> ((errno + unit) \<times> kfs) option" where
  "inode_symlink_create i inode_idx path s = do {
     let link_len = length path;
     if link_len \<le> SIZEOF_I_BLOCK then do {
       s \<leftarrow> upd_ino i (\<lambda>inode. inode\<lparr>i_block := splice 0 path (i_block inode)\<rparr>) s;
       s \<leftarrow> upd_ino i (EXT4_INODE_SET_SIZE (word_of_nat link_len)) s;
       Some (Inr (), s)
     } else if link_len > unat (BLOCK_SIZE s) then Some (Inl EINVAL, s)
     else do {
       pblock \<leftarrow> bitmap_pblock_find inode_idx s;
       s \<leftarrow> inode_init_pblock i pblock s;
       s \<leftarrow> k_write (BLOCKS2BYTES (sb s) pblock) path s;
       s \<leftarrow> upd_ino i (EXT4_INODE_SET_SIZE (word_of_nat link_len)) s;
       Some (Inr (), s)
     }
   }"

definition op_symlink :: "env \<Rightarrow> cstr \<Rightarrow> cstr \<Rightarrow> kfs \<Rightarrow> ((errno + unit) \<times> kfs) option" where
  "op_symlink ev from to s = do {
     inode_idx \<leftarrow> bitmap_inode_find 0 s;
     if inode_idx = 0 then Some (Inl ENOSPC, s)
     else do {
       (i, s) \<leftarrow> inode_create ev inode_idx (S_IFLNK OR 0x1ff) s;
       (err, s) \<leftarrow> inode_symlink_create i inode_idx from s;
       case err of
         Inl err \<Rightarrow> Some (Inl err, s)
       | Inr _ \<Rightarrow> do {
           (r, s) \<leftarrow> inode_get_parent_by_path to s;
           case r of
             Inl _ \<Rightarrow> Some (Inl ENOENT, s)
           | Inr (to_dir, to_dir_idx) \<Rightarrow> do {
               (last_de, s) \<leftarrow> dentry_last to_dir to_dir_idx s;
               (_, name) \<leftarrow> strrchr_slash to;
               last_de \<leftarrow> last_de;
               space \<leftarrow> dentry_has_enough_space last_de (word_of_nat (length name)) s;
               case space of
                 Inl _ \<Rightarrow> Some (Inl ENOSPC, s)
               | Inr _ \<Rightarrow> do {
                   (new_de, s) \<leftarrow> dentry_create last_de name inode_idx EXT4_FT_SYMLINK s;
                   s \<leftarrow> ICACHE_SET_LAST_DE i (Some new_de) s;
                   s \<leftarrow> dcache_write_back s;
                   Some (Inr (), s)
                 }
             }
         }
     }
   }"

section \<open>Unlinking\<close>

definition unlink_inode :: "nat \<Rightarrow> u32 \<Rightarrow> kfs \<Rightarrow> kfs option" where
  "unlink_inode i inode_idx s = do {
     s \<leftarrow> upd_ino i (\<lambda>inode. inode\<lparr>i_links_count := i_links_count inode - 1\<rparr>) s;
     inode \<leftarrow> ino i s;
     if i_links_count inode = 0 then do {
       s \<leftarrow> bitmap_inode_set inode_idx False s;
       s \<leftarrow> (if ucast (i_mode inode) AND S_IFLNK \<noteq> 0 \<and> unat (EXT4_INODE_GET_SIZE inode) \<le> SIZEOF_I_BLOCK
             then Some s
             else do {
               p_arr \<leftarrow> inode_get_all_pblocks inode;
               bitmap_pblock_free p_arr s
             });
       ICACHE_SET_INVAL i s
     } else ICACHE_SET_DIRTY i s
   }"

text \<open>\<open>decache_delete\<close> on the process state.\<close>

definition k_decache_delete :: "cstr \<Rightarrow> kfs \<Rightarrow> kfs option" where
  "k_decache_delete path s = do {
     d \<leftarrow> decache_delete path (decache s);
     Some (s\<lparr>decache := d\<rparr>)
   }"

definition op_unlink :: "cstr \<Rightarrow> kfs \<Rightarrow> ((errno + unit) \<times> kfs) option" where
  "op_unlink path s = do {
     (r, s) \<leftarrow> inode_get_parent_by_path path s;
     case r of
       Inl _ \<Rightarrow> Some (Inl ENOENT, s)
     | Inr (d_inode, d_inode_idx) \<Rightarrow> do {
         (r, s) \<leftarrow> inode_get_by_path path s;
         case r of
           Inl _ \<Rightarrow> Some (Inl ENOENT, s)
         | Inr (i, inode_idx) \<Rightarrow> do {
             (_, name) \<leftarrow> strrchr_slash path;
             s \<leftarrow> dentry_delete d_inode d_inode_idx name s;
             s \<leftarrow> dcache_write_back s;
             s \<leftarrow> unlink_inode i inode_idx s;
             s \<leftarrow> k_decache_delete path s;
             Some (Inr (), s)
           }
       }
   }"

definition op_rmdir :: "cstr \<Rightarrow> kfs \<Rightarrow> ((errno + unit) \<times> kfs) option" where
  "op_rmdir path s = do {
     (r, s) \<leftarrow> inode_get_by_path path s;
     case r of
       Inl _ \<Rightarrow> Some (Inl ENOENT, s)
     | Inr (i, inode_idx) \<Rightarrow> do {
         inode \<leftarrow> ino i s;
         if \<not> S_ISDIR (i_mode inode) then Some (Inl EISDIR, s)
         else do {
           s \<leftarrow> upd_ino i (\<lambda>inode. inode\<lparr>i_links_count := i_links_count inode - 1\<rparr>) s;
           inode \<leftarrow> ino i s;
           s \<leftarrow> (if i_links_count inode = 0 then do {
                    s \<leftarrow> bitmap_inode_set inode_idx False s;
                    p_arr \<leftarrow> inode_get_all_pblocks inode;
                    s \<leftarrow> bitmap_pblock_free p_arr s;
                    ICACHE_SET_INVAL i s
                  } else ICACHE_SET_DIRTY i s);
           (r, s) \<leftarrow> inode_get_parent_by_path path s;
           case r of
             Inl _ \<Rightarrow> Some (Inl ENOENT, s)
           | Inr (d_inode, d_inode_idx) \<Rightarrow> do {
               (_, name) \<leftarrow> strrchr_slash path;
               s \<leftarrow> dentry_delete d_inode d_inode_idx name s;
               s \<leftarrow> dcache_write_back s;
               s \<leftarrow> k_decache_delete path s;
               Some (Inr (), s)
             }
         }
       }
   }"

section \<open>Renaming\<close>

definition RENAME_NOREPLACE :: u32 where "RENAME_NOREPLACE = 0"
definition RENAME_EXCHANGE :: u32 where "RENAME_EXCHANGE = 1"

text \<open>The update of the decache entry that a path leads to, if there is one.\<close>

definition k_decache_update :: "cstr \<Rightarrow> (decache_entry \<Rightarrow> decache_entry) \<Rightarrow> kfs \<Rightarrow> kfs option" where
  "k_decache_update path f s = do {
     (entry, _) \<leftarrow> decache_find path (decache s);
     case entry of
       None \<Rightarrow> Some s
     | Some entry \<Rightarrow> do {
         d \<leftarrow> de_upd entry f (decache s);
         Some (s\<lparr>decache := d\<rparr>)
       }
   }"

text \<open>\<open>mv_in_local_dir\<close> is not called by any operation.\<close>

definition mv_in_local_dir ::
  "nat \<Rightarrow> u32 \<Rightarrow> cstr \<Rightarrow> cstr \<Rightarrow> u32 \<Rightarrow> kfs \<Rightarrow> ((errno + unit) \<times> kfs) option" where
  "mv_in_local_dir i inode_idx from to flags s = do {
     (_, oldname) \<leftarrow> strrchr_slash from;
     (_, newname) \<leftarrow> strrchr_slash to;
     (r, s) \<leftarrow> dentry_find i inode_idx (Some oldname) s;
     ASSERT (r \<noteq> None);
     (from_de, _) \<leftarrow> r;
     if flags = RENAME_EXCHANGE then do {
       let new_len = (word_of_nat (length newname) :: u64);
       let new_rec_len = DE_CALC_REC_LEN new_len;
       dent_valid from_de s;
       if ucast (dent_rec_len (dbuf s) from_de) \<ge> new_rec_len \<or> length oldname \<le> length newname then do {
         s \<leftarrow> buf_write (from_de + 8) newname s;
         s \<leftarrow> buf_write (from_de + 8 + length newname) [0] s;
         s \<leftarrow> buf_write (from_de + 6) (put8 (ucast new_len)) s;
         s \<leftarrow> dcache_write_back s;
         VALID (length newname \<le> DCACHE_ENTRY_NAME_LEN);
         s \<leftarrow> k_decache_update from (\<lambda>e. e\<lparr>de_name := newname\<rparr>) s;
         Some (Inr (), s)
       } else do {
         s \<leftarrow> dentry_delete i inode_idx oldname s;
         s \<leftarrow> k_decache_delete from s;
         ASSERT False;
         Some (Inr (), s)
       }
     } else do {
       (r, s) \<leftarrow> inode_get_by_path to s;
       case r of
         Inl _ \<Rightarrow> Some (Inl ENOENT, s)
       | Inr (to_inode, to_inode_idx) \<Rightarrow> do {
           s \<leftarrow> unlink_inode to_inode to_inode_idx s;
           (r, s) \<leftarrow> dentry_find i inode_idx (Some newname) s;
           ASSERT (r \<noteq> None);
           (to_de, _) \<leftarrow> r;
           dent_valid from_de s;
           s \<leftarrow> buf_write to_de (put32 (dent_inode_idx (dbuf s) from_de)) s;
           s \<leftarrow> buf_write (to_de + 7) (put8 (dent_file_type (dbuf s) from_de)) s;
           s \<leftarrow> k_decache_update to (\<lambda>e. e\<lparr>de_inode_idx := dent_inode_idx (dbuf s) from_de\<rparr>) s;
           s \<leftarrow> k_decache_delete from s;
           s \<leftarrow> dentry_delete i inode_idx oldname s;
           s \<leftarrow> dcache_write_back s;
           Some (Inr (), s)
         }
     }
   }"

definition op_rename :: "cstr \<Rightarrow> cstr \<Rightarrow> u32 \<Rightarrow> kfs \<Rightarrow> ((errno + unit) \<times> kfs) option" where
  "op_rename from to flags s = do {
     (r, s) \<leftarrow> inode_get_parent_by_path from s;
     case r of
       Inl _ \<Rightarrow> Some (Inl ENOENT, s)
     | Inr (from_dir, from_dir_idx) \<Rightarrow> do {
         (_, from_filename) \<leftarrow> strrchr_slash from;
         (r, s) \<leftarrow> dentry_find from_dir from_dir_idx (Some from_filename) s;
         ASSERT (r \<noteq> None);
         (from_de, _) \<leftarrow> r;
         dent_valid from_de s;
         let from_inode_idx = dent_inode_idx (dbuf s) from_de;
         let from_file_type = dent_file_type (dbuf s) from_de;
         s \<leftarrow> dentry_delete from_dir from_dir_idx from_filename s;
         s \<leftarrow> dcache_write_back s;
         s \<leftarrow> k_decache_delete from s;
         (r, s) \<leftarrow> inode_get_parent_by_path to s;
         case r of
           Inl _ \<Rightarrow> Some (Inl ENOENT, s)
         | Inr (to_dir, to_dir_idx) \<Rightarrow> do {
             (_, to_filename) \<leftarrow> strrchr_slash to;
             if flags = RENAME_EXCHANGE then do {
               (last_de, s) \<leftarrow> dentry_last to_dir to_dir_idx s;
               last_de \<leftarrow> last_de;
               (new_de, s) \<leftarrow> dentry_create last_de to_filename from_inode_idx from_file_type s;
               s \<leftarrow> ICACHE_SET_LAST_DE to_dir (Some new_de) s;
               s \<leftarrow> dcache_write_back s;
               Some (Inr (), s)
             } else do {
               (r, s) \<leftarrow> dentry_find to_dir to_dir_idx (Some to_filename) s;
               ASSERT (r \<noteq> None);
               (to_de, _) \<leftarrow> r;
               (r, s) \<leftarrow> inode_get_by_path to s;
               case r of
                 Inl _ \<Rightarrow> Some (Inl ENOENT, s)
               | Inr (to_inode, to_inode_idx) \<Rightarrow> do {
                   s \<leftarrow> unlink_inode to_inode to_inode_idx s;
                   s \<leftarrow> buf_write to_de (put32 from_inode_idx) s;
                   s \<leftarrow> buf_write (to_de + 7) (put8 from_file_type) s;
                   s \<leftarrow> k_decache_update to (\<lambda>e. e\<lparr>de_inode_idx := from_inode_idx\<rparr>) s;
                   s \<leftarrow> dentry_delete to_dir to_dir_idx to_filename s;
                   s \<leftarrow> dcache_write_back s;
                   Some (Inr (), s)
                 }
             }
           }
       }
   }"

end
