(* ===== verification/Ops_File.thy ===== *)
theory Ops_File
  imports Ops_Meta
begin

text \<open>
  Reading and writing file data, \<open>src/op_read.c\<close> and \<open>src/op_write.c\<close>. The bytes a read stores at
  \<open>buf\<close> are its result, and the callers' buffers have as many bytes as they ask for; a write takes
  the bytes at \<open>buf\<close>, and its size is their number.
\<close>

section \<open>Reading\<close>

text \<open>\<open>truncate_size\<close> returns \<open>-EINVAL\<close> as an unsigned number past the end of the file.\<close>

definition truncate_size :: "ext4_inode \<Rightarrow> u64 \<Rightarrow> u64 \<Rightarrow> u64" where
  "truncate_size inode sz offset = (
     let inode_size = EXT4_INODE_GET_SIZE inode in
     if inode_size = 0 then 0
     else if offset \<ge> inode_size then - 22
     else if offset + sz \<ge> inode_size then inode_size - offset
     else sz)"

definition first_read :: "ext4_inode \<Rightarrow> u64 \<Rightarrow> u64 \<Rightarrow> kfs \<Rightarrow> u8 list option" where
  "first_read inode sz offset s = do {
     start \<leftarrow> cdiv offset (BLOCK_SIZE s);
     end \<leftarrow> cdiv (offset + (sz - 1)) (BLOCK_SIZE s);
     let start_lblock = (ucast start :: u32);
     let end_lblock = (ucast end :: u32);
     off \<leftarrow> cmod offset (BLOCK_SIZE s);
     let start_block_off = (ucast off :: u32);
     (start_pblock, _) \<leftarrow> inode_get_data_pblock inode start_lblock s;
     if start_lblock = end_lblock
     then k_read (BLOCKS2BYTES (sb s) start_pblock + ucast start_block_off) sz s
     else do {
       let size_to_block_end = ALIGN_TO_BLOCKSIZE (sb s) offset - offset;
       ASSERT ((offset + size_to_block_end) mod BLOCK_SIZE s = 0);
       k_read (BLOCKS2BYTES (sb s) start_pblock + ucast start_block_off) size_to_block_end s
     }
   }"

text \<open>The loop over the extents: \<open>cap\<close> is the size of the buffer, \<open>bytes\<close> are the bytes read so
  far and \<open>extent_len\<close> is the local variable of that name, \<open>None\<close> while it is not initialised.\<close>

partial_function (option) read_loop ::
  "ext4_inode \<Rightarrow> u64 \<Rightarrow> u64 \<Rightarrow> u32 \<Rightarrow> u32 option \<Rightarrow> u8 list \<Rightarrow> kfs \<Rightarrow> u8 list option" where
  "read_loop inode cap sz lblock extent_len bytes s = do {
     let ret = (word_of_nat (length bytes) :: u64);
     if \<not> sz > ret then Some bytes
     else do {
       (pblock, len) \<leftarrow> inode_get_data_pblock inode lblock s;
       let extent_len = (case len of Some l \<Rightarrow> Some l | None \<Rightarrow> extent_len);
       l \<leftarrow> extent_len;
       let read_bytes = ucast l * BLOCK_SIZE s;
       let read_bytes = (if sz - ret \<le> read_bytes then sz - ret else read_bytes);
       bs \<leftarrow> k_read (BLOCKS2BYTES (sb s) pblock) read_bytes s;
       VALID (length bytes + length bs \<le> unat cap);
       read_loop inode cap sz (lblock + l) extent_len (bytes @ bs) s
     }
   }"

text \<open>What \<open>op_read\<close> does with the inode: \<open>size < 0\<close> is never true of an unsigned number.\<close>

definition read_inode :: "ext4_inode \<Rightarrow> u64 \<Rightarrow> u64 \<Rightarrow> kfs \<Rightarrow> u8 list option" where
  "read_inode inode cap offset s = do {
     let sz = truncate_size inode cap offset;
     if sz = 0 then Some []
     else do {
       first \<leftarrow> first_read inode sz offset s;
       VALID (length first \<le> unat cap);
       if word_of_nat (length first) = sz then Some first
       else do {
         let un_offset = offset + word_of_nat (length first);
         ASSERT (un_offset mod BLOCK_SIZE s = 0);
         bytes \<leftarrow> read_loop inode cap sz (ucast (un_offset div BLOCK_SIZE s)) None first s;
         ASSERT (sz = word_of_nat (length bytes));
         Some bytes
       }
     }
   }"

definition op_read ::
  "cstr \<Rightarrow> u64 \<Rightarrow> u64 \<Rightarrow> fuse_file_info option \<Rightarrow> kfs \<Rightarrow> ((errno + u8 list) \<times> kfs) option" where
  "op_read path sz offset fi s = do {
     ASSERT (sint offset \<ge> 0);
     (r, s) \<leftarrow> (case fi of
         Some f \<Rightarrow> if fi_fh f > 0 then inode_get_by_number (ucast (fi_fh f)) s
                   else do { (r, s) \<leftarrow> inode_get_by_path path s; Some (map_sum id fst r, s) }
       | None \<Rightarrow> do { (r, s) \<leftarrow> inode_get_by_path path s; Some (map_sum id fst r, s) });
     case r of
       Inl _ \<Rightarrow> Some (Inl ENOENT, s)
     | Inr i \<Rightarrow> do {
         inode \<leftarrow> ino i s;
         bytes \<leftarrow> read_inode inode sz offset s;
         Some (Inr bytes, s)
       }
   }"

section \<open>Writing\<close>

text \<open>The loop over the blocks of a write that spans several: \<open>k\<close> blocks from \<open>lblock\<close> on are
  left, \<open>ret\<close> is the result of the last \<open>disk_write\<close> and \<open>remain\<close> counts down the bytes.\<close>

fun write_loop ::
  "nat \<Rightarrow> u64 \<Rightarrow> u64 \<Rightarrow> u64 \<Rightarrow> u64 \<Rightarrow> u64 \<Rightarrow> nat \<Rightarrow> u8 list \<Rightarrow> u64 \<Rightarrow> u64 \<Rightarrow> kfs \<Rightarrow>
     (u64 \<times> u64 \<times> kfs) option" where
  "write_loop i start_lblock end_lblock offset sz lblock 0 buf ret remain s = Some (ret, remain, s)"
| "write_loop i start_lblock end_lblock offset sz lblock (Suc k) buf ret remain s = do {
     start_off \<leftarrow> cmod offset (BLOCK_SIZE s);
     let block_off = (if lblock = start_lblock then (ucast start_off :: u32) else 0);
     let block_size = (if lblock = end_lblock then offset + sz - lblock * BLOCK_SIZE s
                       else BLOCK_SIZE s - ucast block_off);
     ASSERT (block_size \<le> BLOCK_SIZE s);
     inode \<leftarrow> ino i s;
     (pblock, _) \<leftarrow> extent_get_pblock s (i_block inode) (ucast lblock);
     VALID (unat block_size \<le> length buf);
     s \<leftarrow> k_write (BLOCKS2BYTES (sb s) pblock + ucast block_off) (take (unat block_size) buf) s;
     write_loop i start_lblock end_lblock offset sz (lblock + 1) k (drop (unat block_size) buf)
       block_size (remain - block_size) s
   }"

text \<open>The part of \<open>op_write\<close> after the permission check. \<open>inode_idx\<close> is \<open>None\<close> when the request
  came with a file handle: the local variable is then not initialised.\<close>

definition write_inode ::
  "nat \<Rightarrow> u32 option \<Rightarrow> u8 list \<Rightarrow> u64 \<Rightarrow> kfs \<Rightarrow> (u64 \<times> kfs) option" where
  "write_inode i inode_idx buf offset s = do {
     let sz = (word_of_nat (length buf) :: u64);
     start_lblock \<leftarrow> cdiv offset (BLOCK_SIZE s);
     end_lblock \<leftarrow> cdiv (offset + sz - 1) (BLOCK_SIZE s);
     off \<leftarrow> cmod offset (BLOCK_SIZE s);
     let start_block_off = (ucast off :: u32);
     (ret, remain, s) \<leftarrow> (if start_lblock = end_lblock then do {
         inode \<leftarrow> ino i s;
         (pblock_idx, s) \<leftarrow> (if EXT4_INODE_GET_BLOCKS inode = 0 then do {
             inode_idx \<leftarrow> inode_idx;
             pblock_idx \<leftarrow> bitmap_pblock_find inode_idx s;
             s \<leftarrow> inode_init_pblock i pblock_idx s;
             Some (pblock_idx, s)
           } else do {
             (pblock_idx, _) \<leftarrow> inode_get_data_pblock inode (ucast start_lblock) s;
             Some (pblock_idx, s)
           });
         s \<leftarrow> k_write (BLOCKS2BYTES (sb s) pblock_idx + ucast start_block_off) buf s;
         Some (sz, sz - sz, s)
       } else write_loop i start_lblock end_lblock offset sz start_lblock
                (unat end_lblock + 1 - unat start_lblock) buf 0 sz s);
     s \<leftarrow> upd_ino i (EXT4_INODE_SET_SIZE (offset + sz)) s;
     s \<leftarrow> ICACHE_SET_DIRTY i s;
     ASSERT (remain = 0);
     Some (ret, s)
   }"

definition op_write ::
  "env \<Rightarrow> cstr \<Rightarrow> u8 list \<Rightarrow> u64 \<Rightarrow> fuse_file_info option \<Rightarrow> kfs \<Rightarrow> ((errno + u64) \<times> kfs) option" where
  "op_write ev path buf offset fi s = do {
     (r, s) \<leftarrow> (case fi of
         Some f \<Rightarrow> if fi_fh f > 0
                   then do { (r, s) \<leftarrow> inode_get_by_number (ucast (fi_fh f)) s;
                             Some (map_sum id (\<lambda>i. (i, None)) r, s) }
                   else do { (r, s) \<leftarrow> inode_get_by_path path s;
                             Some (map_sum id (\<lambda>(i, n). (i, Some n)) r, s) }
       | None \<Rightarrow> do { (r, s) \<leftarrow> inode_get_by_path path s;
                       Some (map_sum id (\<lambda>(i, n). (i, Some n)) r, s) });
     case r of
       Inl _ \<Rightarrow> Some (Inl ENOENT, s)
     | Inr (i, inode_idx) \<Rightarrow> do {
         inode \<leftarrow> ino i s;
         if inode_check_permission ev inode WRITE \<noteq> Inr () then Some (Inl EACCES, s)
         else do {
           (ret, s) \<leftarrow> write_inode i inode_idx buf offset s;
           Some (Inr ret, s)
         }
       }
   }"

section \<open>Reading back what was written\<close>

lemma ic_modify_ino:
  assumes "ino i s = Some v"
  obtains s' where "ic_modify i f s = Some s'" "ino i s' = Some (f v)" "image s' = image s" "sb s' = sb s"
proof -
  have i: "i < length (ics s)" "ic_inode (ics s ! i) = v"
    using assms by (simp_all add: ino_def ic_get_def split: if_splits)
  show ?thesis
    by (rule that [of "ic_set i ((ics s ! i)\<lparr>ic_inode := f v, ic_status := ICACHE_S_DIRTY\<rparr>) s"])
      (use i in \<open>simp_all add: ic_modify_def upd_ino_def ICACHE_SET_DIRTY_def ic_upd_def ino_def ic_get_def ic_set_def\<close>)
qed

text \<open>A range of \<open>n\<close> bytes inside one block of the file.\<close>

lemma one_block:
  fixes offset :: u64
  assumes ok: "blocks_ok s" and n: "0 < n" "unat offset mod bsize s + n \<le> bsize s" "unat offset + n < 2 ^ 63"
  shows "unat (word_of_nat n :: u64) = n" "BLOCK_SIZE s \<noteq> 0"
    "(offset + word_of_nat n - 1) div BLOCK_SIZE s = offset div BLOCK_SIZE s"
    "(offset + (word_of_nat n - 1)) div BLOCK_SIZE s = offset div BLOCK_SIZE s"
    "unat (ucast (offset mod BLOCK_SIZE s) :: u32) = unat offset mod bsize s"
    "unat (offset + word_of_nat n) = unat offset + n"
proof -
  note B = bsize_eq(2,3) [OF ok]
  show u: "unat (word_of_nat n :: u64) = n" using n(3) by (simp add: unsigned_of_nat take_bit_nat_eq_self)
  show "BLOCK_SIZE s \<noteq> 0" using B by auto
  show add: "unat (offset + word_of_nat n) = unat offset + n" using n(3) by (subst unat_add_nowrap) (simp_all add: u)
  have "1 \<le> offset + word_of_nat n" using n(1) by (simp add: word_le_nat_alt add)
  then have "unat (offset + word_of_nat n - 1) = unat offset + n - 1" by (simp add: unat_sub add)
  moreover have "(unat offset + n - 1) div bsize s = unat offset div bsize s"
  proof -
    have "unat offset + n - 1 = unat offset div bsize s * bsize s + (unat offset mod bsize s + (n - 1))"
      using n(1) by (simp add: add.assoc [symmetric])
    moreover have "unat offset mod bsize s + (n - 1) < bsize s" using n(1,2) by simp
    ultimately show ?thesis by (metis add.right_neutral div_less div_mult_self3 mod_less_divisor not_less_zero zero_less_iff_neq_zero)
  qed
  ultimately show d: "(offset + word_of_nat n - 1) div BLOCK_SIZE s = offset div BLOCK_SIZE s"
    by (simp add: word_unat_eq_iff unat_div)
  then show "(offset + (word_of_nat n - 1)) div BLOCK_SIZE s = offset div BLOCK_SIZE s" by (simp add: add_diff_eq)
  have "unat offset mod bsize s < 2 ^ 32" using B by (intro less_le_trans [OF mod_less_divisor]) simp_all
  then show "unat (ucast (offset mod BLOCK_SIZE s) :: u32) = unat offset mod bsize s"
    by (simp add: unat_ucast_narrow unat_mod)
qed

lemma data_address:
  assumes ok: "blocks_ok s" and p: "block_in s (unat p)" and o': "o' < bsize s" "unat (w :: u32) = o'"
  shows "unat (BLOCKS2BYTES (sb s) p + ucast w) = unat p * bsize s + o'"
proof -
  note B = BLOCKS2BYTES_eq [OF ok p]
  have "unat (BLOCKS2BYTES (sb s) p) + unat (ucast w :: u64) < 2 ^ 64"
    using B o' ok by (simp add: unat_ucast_wider blocks_ok_def)
  then show ?thesis using B(1) o'(2) by (simp add: unat_add_nowrap unat_ucast_wider)
qed

lemma first_read_one_block:
  assumes ok: "blocks_ok s" and n: "0 < n" "unat offset mod bsize s + n \<le> bsize s" "unat offset + n < 2 ^ 63"
    and map: "inode_get_data_pblock inode (ucast (offset div BLOCK_SIZE s)) s = Some (p, l)" and p: "block_in s (unat p)"
  shows "first_read inode (word_of_nat n) offset s = Some (d_slice (image s) (unat p * bsize s + unat offset mod bsize s) n)"
proof -
  note b = one_block [OF ok n]
  have "unat offset mod bsize s < bsize s" using n(1,2) by simp
  from k_read_in_block [OF ok p n(2) data_address [OF ok p this b(5)] b(1)] show ?thesis
    using map b(2) by (simp add: first_read_def b(4) Let_def cong: bind_weak_cong)
qed

text \<open>A leaf root: the block map of the inode does not depend on the image.\<close>

lemma leaf_block_map:
  assumes "eh_ok (i_block inode) k True" "i_block inode' = i_block inode" "i_flags inode' = i_flags inode"
    and "i_flags inode AND EXT4_EXTENTS_FL \<noteq> 0"
  shows "inode_get_data_pblock inode' l s' = inode_get_data_pblock inode l s"
  using assms by (simp add: inode_get_data_pblock_def extent_get_pblock_leaf)

text \<open>C4: Bytes written into one allocated block of a file with its extents in the inode are the bytes a read at the same
  offset returns. The call reports all bytes as written, and the size of the file becomes the end of the write,
  also when the file was longer before.\<close>

theorem write_read_roundtrip:
  assumes ok: "blocks_ok s" and ino: "ino i s = Some inode" "EXT4_INODE_GET_BLOCKS inode \<noteq> 0"
    and ext: "eh_ok (i_block inode) k True" "i_flags inode AND EXT4_EXTENTS_FL \<noteq> 0"
    and map: "inode_get_data_pblock inode (ucast (offset div BLOCK_SIZE s)) s = Some (p, l)" and p: "block_in s (unat p)"
    and buf: "buf \<noteq> []" "unat offset mod bsize s + length buf \<le> bsize s" "unat offset + length buf < 2 ^ 63"
  shows "\<exists>s' inode'. write_inode i inode_idx buf offset s = Some (word_of_nat (length buf), s') \<and>
    ino i s' = Some inode' \<and> EXT4_INODE_GET_SIZE inode' = offset + word_of_nat (length buf) \<and>
    read_inode inode' (word_of_nat (length buf)) offset s' = Some buf"
proof -
  let ?n = "length buf" and ?f = "EXT4_INODE_SET_SIZE (offset + word_of_nat (length buf))"
  have n: "0 < ?n" using buf(1) by simp
  note b = one_block [OF ok n buf(2,3)]
  have m: "unat offset mod bsize s < bsize s" using n buf(2) by linarith
  define off where "off = BLOCKS2BYTES (sb s) p + ucast (ucast (offset mod BLOCK_SIZE s) :: u32)"
  have off: "unat off = unat p * bsize s + unat offset mod bsize s"
    unfolding off_def by (rule data_address [OF ok p m b(5)])
  have ind: "in_disk (image s) (unat off) ?n"
    using off buf(2) BLOCKS2BYTES_eq(2) [OF ok p] bsize_eq(3) [OF ok] ok by (auto simp: in_disk_def blocks_ok_def MAX_RW_COUNT_def)
  obtain d where d: "disk_write off buf (image s) = Some d" using disk_write_in_disk [OF ind] by blast
  let ?s = "s\<lparr>image := d\<rparr>"
  have w: "k_write off buf s = Some ?s" by (simp add: k_write_def d)
  have ino1: "ino i ?s = Some inode" using ino(1) by (simp add: ino_def ic_get_def)
  show ?thesis
  proof (rule ic_modify_ino [OF ino1, of ?f])
    fix s'
    assume s': "ic_modify i ?f ?s = Some s'" "ino i s' = Some (?f inode)" "image s' = image ?s" "sb s' = sb ?s"
    have wr: "write_inode i inode_idx buf offset s = Some (word_of_nat ?n, s')"
      using b(2) ino map w s'(1)
      by (simp add: write_inode_def b(3) Let_def ic_modify_bind cong: bind_weak_cong flip: off_def)
    have ok': "blocks_ok s'" "block_in s' (unat p)" "bsize s' = bsize s"
      using ok p s'(3,4) disk_write_size [OF ind d] disk_write_frame(1) [OF d] by (simp_all add: blocks_ok_def block_in_def)
    have map': "inode_get_data_pblock (?f inode) (ucast (offset div BLOCK_SIZE s')) s' = Some (p, l)"
      using leaf_block_map [OF ext(1) _ _ ext(2), of "?f inode" "ucast (offset div BLOCK_SIZE s)" s' s] map s'(4)
      by (simp add: EXT4_INODE_SET_SIZE_def)
    have "first_read (?f inode) (word_of_nat ?n) offset s' = Some buf"
      using first_read_one_block [OF ok'(1) n _ buf(3) map' ok'(2)] buf(2) d_slice_write_same [OF d] s'(3) off by (simp add: ok'(3))
    moreover have "truncate_size (?f inode) (word_of_nat ?n) offset = word_of_nat ?n"
      using n b(1,6) by (auto simp: truncate_size_def Let_def word_le_nat_alt word_unat_eq_iff)
    moreover have "(word_of_nat ?n :: u64) \<noteq> 0" using b(1) n by auto
    ultimately have "read_inode (?f inode) (word_of_nat ?n) offset s' = Some buf"
      using b(1) by (simp add: read_inode_def Let_def cong: bind_weak_cong)
    then show ?thesis using wr s'(2) by (intro exI [of _ s'] exI [of _ "?f inode"]) simp
  qed
qed

text \<open>A file with one cluster of blocks, block 20 first.\<close>

definition sample_file_inode :: ext4_inode where
  "sample_file_inode = init_pblock_inode 20 (new_inode \<lparr>cntx = None, now = 0\<rparr> 0x81a4 1024)"

definition sample_file_kfs :: kfs where
  "sample_file_kfs = sample_kfs\<lparr>icache := \<lparr>ic_entries = (replicate 64 sample_icache_entry)[0 := sample_icache_entry\<lparr>
     ic_inode := sample_file_inode, ic_inode_idx := 12, ic_status := ICACHE_S_VALID\<rparr>], ic_count = 1\<rparr>\<rparr>"

theorem write_read_roundtrip_witness:
  "\<exists>s' inode'. write_inode 0 None [1, 2, 3] 5 sample_file_kfs = Some (word_of_nat (length [1 :: u8, 2, 3]), s') \<and>
    ino 0 s' = Some inode' \<and> EXT4_INODE_GET_SIZE inode' = 5 + word_of_nat (length [1 :: u8, 2, 3]) \<and>
    read_inode inode' (word_of_nat (length [1 :: u8, 2, 3])) 5 s' = Some [1, 2, 3]"
proof (rule write_read_roundtrip)
  have bs: "BLOCK_SIZE sample_file_kfs = 1024"
    by (simp add: sample_file_kfs_def sample_kfs_def sample_sb_def EXT4_BLOCK_SIZE_def)
  show "blocks_ok sample_file_kfs" by (simp add: blocks_ok_def sample_file_kfs_def sample_kfs_def sample_sb_def)
  show "ino 0 sample_file_kfs = Some sample_file_inode" by (simp add: ino_def ic_get_def sample_file_kfs_def)
  show "eh_ok (i_block sample_file_inode) 1 True"
    by (rule init_pblock_node [of 20 "\<lparr>cntx = None, now = 0\<rparr>" "0x81a4" 1024]) (simp_all add: sample_file_inode_def)
  show "inode_get_data_pblock sample_file_inode (ucast (5 div BLOCK_SIZE sample_file_kfs)) sample_file_kfs = Some (20, Some 4)"
    using init_pblock_map [of 20 0 "\<lparr>cntx = None, now = 0\<rparr>" "0x81a4" 1024 sample_file_kfs] by (simp add: bs sample_file_inode_def)
  show "block_in sample_file_kfs (unat (20 :: u64))" by (simp add: block_in_def bs) (simp add: sample_file_kfs_def sample_kfs_def)
  show "EXT4_INODE_GET_BLOCKS sample_file_inode \<noteq> 0"
    by (simp add: sample_file_inode_def init_pblock_inode_def Let_def GET_SET_BLOCKS EXT4_INODE_PBLOCK_NUM_def)
  show "i_flags sample_file_inode AND EXT4_EXTENTS_FL \<noteq> 0" unfolding sample_file_inode_def by (rule init_pblock_extents)
qed (simp_all add: sample_file_kfs_def sample_kfs_def sample_sb_def EXT4_BLOCK_SIZE_def)

section \<open>Reading past the end\<close>

text \<open>The loop ends with all the bytes asked for, and no more than the buffer holds.\<close>

lemma read_loop_bound:
  assumes "read_loop inode cap sz lblock extent_len bytes s = Some bs"
  shows "sz \<le> word_of_nat (length bs) \<and> (length bytes \<le> unat cap \<longrightarrow> length bs \<le> unat cap)"
proof (rule read_loop.raw_induct [where P = "\<lambda>inode cap sz lblock extent_len bytes s bs.
    sz \<le> word_of_nat (length bs) \<and> (length bytes \<le> unat cap \<longrightarrow> length bs \<le> unat cap)", OF _ assms])
  fix rec and inode :: ext4_inode and cap sz :: u64 and lblock :: u32 and extent_len :: "u32 option" and bytes bs :: "u8 list" and s :: kfs
  assume IH: "\<And>inode cap sz lblock extent_len bytes s bs. rec inode cap sz lblock extent_len bytes s = Some bs \<Longrightarrow>
      sz \<le> word_of_nat (length bs) \<and> (length bytes \<le> unat cap \<longrightarrow> length bs \<le> unat cap)"
    and r: "(let ret = word_of_nat (length bytes) in if \<not> sz > ret then Some bytes
     else inode_get_data_pblock inode lblock s \<bind> (\<lambda>(pblock, len). let extent_len = (case len of Some l \<Rightarrow> Some l | None \<Rightarrow> extent_len) in
       extent_len \<bind> (\<lambda>l. let read_bytes = ucast l * BLOCK_SIZE s; read_bytes = (if sz - ret \<le> read_bytes then sz - ret else read_bytes) in
       k_read (BLOCKS2BYTES (sb s) pblock) read_bytes s \<bind> (\<lambda>bs. VALID (length bytes + length bs \<le> unat cap) \<bind>
       (\<lambda>_. rec inode cap sz (lblock + l) extent_len (bytes @ bs) s))))) = Some bs"
  show "sz \<le> word_of_nat (length bs) \<and> (length bytes \<le> unat cap \<longrightarrow> length bs \<le> unat cap)"
  proof (cases "sz > word_of_nat (length bytes)")
    case False
    then show ?thesis using r by (simp add: Let_def linorder_not_less)
  next
    case True
    with r obtain pblock len l bs' where "length bytes + length bs' \<le> unat cap"
      "rec inode cap sz (lblock + l) len (bytes @ bs') s = Some bs"
      by (auto simp: Let_def bind_eq_Some_conv split: if_splits)
    with IH show ?thesis by fastforce
  qed
qed

text \<open>C35: Reading a non-empty file at or beyond its end never returns: the error code of \<open>truncate_size\<close> is taken for a size of
  almost 2 to the 64 bytes, and an assertion or a memory access fails.\<close>

theorem read_past_end_aborts:
  assumes "EXT4_INODE_GET_SIZE inode \<noteq> 0" "EXT4_INODE_GET_SIZE inode \<le> offset" "cap < - 22"
  shows "read_inode inode cap offset s = None"
proof (rule ccontr)
  assume "read_inode inode cap offset s \<noteq> None"
  then obtain bs where bs: "read_inode inode cap offset s = Some bs" by blast
  have t: "truncate_size inode cap offset = - 22" using assms by (simp add: truncate_size_def Let_def)
  have no: "word_of_nat (length xs) \<noteq> (- 22 :: u64)" if "length xs \<le> unat cap" for xs :: "u8 list"
  proof
    assume "word_of_nat (length xs) = (- 22 :: u64)"
    moreover have "unat (word_of_nat (length xs) :: u64) = length xs"
      using that unat_less_2p64 [of cap] by (simp add: unsigned_of_nat take_bit_nat_eq_self)
    ultimately show False using that assms(3) by (simp add: word_less_nat_alt)
  qed
  show False using bs t no
    by (auto simp: read_inode_def Let_def bind_eq_Some_conv VALID_def ASSERT_def split: if_splits dest!: read_loop_bound)
qed

theorem read_past_end_aborts_witness:
  "read_inode (EXT4_INODE_SET_SIZE 5 (dec_inode (replicate 160 0))) 4096 5 sample_kfs = None"
  by (rule read_past_end_aborts) simp_all

end
