(* ===== verification/Mount.thy ===== *)
theory Mount
  imports Ops_Dir Ops_File
begin

text \<open>
  Mounting and unmounting: \<open>src/op_init.c\<close>, \<open>cache_init\<close> of \<open>src/cache.c\<close>, \<open>src/op_destory.c\<close> and the
  checks of \<open>src/main.c\<close> before \<open>fuse_main\<close>. The thread that serves \<open>kfsctl\<close> is not part of the
  state.
\<close>

section \<open>Before mounting\<close>

text \<open>\<open>e4f_opt_proc\<close>: the first argument that is not an option is the disk. The result is the return
  value and \<open>e4f.disk\<close>; the keys are libfuse's.\<close>

definition FUSE_OPT_KEY_OPT :: int where "FUSE_OPT_KEY_OPT = -1"
definition FUSE_OPT_KEY_NONOPT :: int where "FUSE_OPT_KEY_NONOPT = -2"

definition e4f_opt_proc :: "cstr \<Rightarrow> int \<Rightarrow> cstr option \<Rightarrow> (int \<times> cstr option) option" where
  "e4f_opt_proc arg key e4f_disk =
     (if key = FUSE_OPT_KEY_OPT then Some (1, e4f_disk)
      else if key = FUSE_OPT_KEY_NONOPT
      then (case e4f_disk of None \<Rightarrow> Some (0, Some arg) | Some _ \<Rightarrow> Some (1, e4f_disk))
      else None)"

text \<open>The magic number of the disk; \<open>s_magic\<close> is at offset 56 of the super block.\<close>

definition main_magic_ok :: "disk \<Rightarrow> bool option" where
  "main_magic_ok d = do {
     bs \<leftarrow> disk_read (BOOT_SECTOR_SIZE + 56) 2 d;
     Some (get16 bs 0 = EXT4_S_MAGIC)
   }"

section \<open>Mounting\<close>

definition super_fill :: "env \<Rightarrow> kfs \<Rightarrow> kfs option" where
  "super_fill ev s = do {
     bs \<leftarrow> k_read BOOT_SECTOR_SIZE SIZEOF_SUPER_BLOCK s;
     let sp = dec_super_block bs;
     _ \<leftarrow> EXT4_N_BLOCK_GROUPS sp;
     Some (s\<lparr>sb := sp\<lparr>s_mtime := ucast (now ev), s_mnt_count := s_mnt_count sp + 1\<rparr>\<rparr>)
   }"

text \<open>The offset of the group descriptors.\<close>

definition gdt_off :: "ext4_super_block \<Rightarrow> u64" where
  "gdt_off sp = ALIGN_TO_BLOCKSIZE sp (BOOT_SECTOR_SIZE + SIZEOF_SUPER_BLOCK)"

text \<open>The loop of \<open>super_group_fill\<close> on the bytes of the array \<open>gdt\<close>: a descriptor of
  \<open>s_desc_size\<close> bytes is read into a 64-byte element, and its clean flag is in bytes 52 to 55.\<close>

fun gdt_fill ::
  "ext4_super_block \<Rightarrow> (u64 \<Rightarrow> u64 \<Rightarrow> u8 list option) \<Rightarrow> u64 \<Rightarrow> nat \<Rightarrow> nat \<Rightarrow> u8 list \<Rightarrow> u8 list option" where
  "gdt_fill sp rd off i 0 buf = Some buf"
| "gdt_fill sp rd off i (Suc k) buf = do {
     d \<leftarrow> rd off (ucast (s_desc_size sp));
     VALID (64 * i + length d \<le> length buf);
     let buf = splice (64 * i) d buf;
     let buf = splice (64 * i + 52) (put32 0) buf;
     gdt_fill sp rd (off + ucast (s_desc_size sp)) (Suc i) k buf
   }"

definition super_group_fill :: "kfs \<Rightarrow> kfs option" where
  "super_group_fill s = do {
     n \<leftarrow> EXT4_N_BLOCK_GROUPS (sb s);
     let group_num = unat (ucast n :: u32);
     VALID (group_num < 2 ^ 31);
     buf \<leftarrow> gdt_fill (sb s) (\<lambda>off n. k_read off n s) (gdt_off (sb s)) 0 group_num
              (replicate (64 * group_num) 0);
     Some (s\<lparr>gdt := map (\<lambda>i. dec_group_desc (slice (64 * i) 64 buf)) [0..<group_num]\<rparr>)
   }"

definition zero_icache_entry :: icache_entry where
  "zero_icache_entry = \<lparr>ic_inode = zero_inode, ic_inode_idx = 0, ic_lru_count = 0,
     ic_status = ICACHE_S_INVAL, ic_last_de = None\<rparr>"

text \<open>\<open>mem\<close> is what \<open>malloc\<close> left in the buffer of the dcache.\<close>

definition cache_init :: "(nat \<Rightarrow> u8) \<Rightarrow> kfs \<Rightarrow> kfs option" where
  "cache_init mem s = do {
     d \<leftarrow> decache_init_root EXT4_ROOT_INO (decache s);
     Some (s\<lparr>decache := d,
             dcache := \<lparr>dc_inode_idx = 0, dc_lblock = - 1, dc_pblock = - 1,
                        dc_buf = map mem [0..<unat (BLOCK_SIZE s)]\<rparr>,
             icache := \<lparr>ic_entries = replicate ICACHE_MAX_COUNT zero_icache_entry, ic_count = 0\<rparr>\<rparr>)
   }"

definition op_init :: "env \<Rightarrow> u32 \<Rightarrow> (nat \<Rightarrow> u8) \<Rightarrow> kfs \<Rightarrow> kfs option" where
  "op_init ev capable mem s = do {
     let s = s\<lparr>fuse_capable := capable\<rparr>;
     s \<leftarrow> super_fill ev s;
     s \<leftarrow> super_group_fill s;
     s \<leftarrow> bitmap_init s;
     cache_init mem s
   }"

section \<open>Unmounting\<close>

definition write_bitmap :: "bitmap_group \<Rightarrow> u32 \<Rightarrow> kfs \<Rightarrow> kfs option" where
  "write_bitmap g n s =
     (if bg_dirty g then do {
        VALID (unat n \<le> length (bg_bitmap g));
        k_write (bg_off g) (take (unat n) (bg_bitmap g)) s
      } else Some s)"

fun destroy_bitmaps :: "nat \<Rightarrow> nat \<Rightarrow> kfs \<Rightarrow> kfs option" where
  "destroy_bitmaps i 0 s = Some s"
| "destroy_bitmaps i (Suc k) s = do {
     ig \<leftarrow> index (bm_groups (i_bitmap s)) i;
     s \<leftarrow> write_bitmap ig (s_inodes_per_group (sb s) div 8) s;
     dg \<leftarrow> index (bm_groups (d_bitmap s)) i;
     s \<leftarrow> write_bitmap dg (s_blocks_per_group (sb s) div 8) s;
     destroy_bitmaps (Suc i) k s
   }"

fun destroy_icache :: "nat \<Rightarrow> nat \<Rightarrow> kfs \<Rightarrow> kfs option" where
  "destroy_icache i 0 s = Some s"
| "destroy_icache i (Suc k) s = do {
     e \<leftarrow> ic_get i s;
     s \<leftarrow> (if ic_status e = ICACHE_S_DIRTY then icache_write_back e s else Some s);
     destroy_icache (Suc i) k s
   }"

text \<open>The bytes from \<open>&gdt[i]\<close> on are those of the elements \<open>i\<close>, \<open>i + 1\<close> and so on.\<close>

fun destroy_gdt :: "u64 \<Rightarrow> nat \<Rightarrow> nat \<Rightarrow> kfs \<Rightarrow> kfs option" where
  "destroy_gdt off i 0 s = Some s"
| "destroy_gdt off i (Suc k) s = do {
     g \<leftarrow> index (gdt s) i;
     s \<leftarrow> (if EXT4_GDT_DIRTY_FLAG g = 1 then do {
              let s = s\<lparr>gdt := (gdt s)[i := EXT4_GDT_SET_CLEAN g]\<rparr>;
              let bytes = concat (map enc_group_desc (drop i (gdt s)));
              let n = unat (s_desc_size (sb s));
              VALID (n \<le> length bytes);
              k_write (off + word_of_nat (i * n)) (take n bytes) s
            } else Some s);
     destroy_gdt off (Suc i) k s
   }"

text \<open>What is left of the process is its disk, which \<open>disk_close\<close> closes.\<close>

definition op_destory :: "kfs \<Rightarrow> disk option" where
  "op_destory s = do {
     d \<leftarrow> decache_free (dh_root (decache s)) (decache s);
     let s = s\<lparr>decache := d\<rparr>;
     s \<leftarrow> destroy_bitmaps 0 (unat (bm_group_num (i_bitmap s))) s;
     s \<leftarrow> destroy_icache 0 (ic_count (icache s)) s;
     n \<leftarrow> EXT4_N_BLOCK_GROUPS (sb s);
     s \<leftarrow> destroy_gdt (gdt_off (sb s)) 0 (unat n) s;
     s \<leftarrow> k_write BOOT_SECTOR_SIZE (enc_super_block (sb s)) s;
     Some (image s)
   }"

end
