(* ===== verification/Mkfs.thy ===== *)
theory Mkfs
  imports Inode
begin

text \<open>
  The formatter \<open>mkfs/main.c\<close> with the constants of \<open>mkfs/config.h\<close>. It writes the disk directly;
  \<open>tmp_mem_area\<close>, one block that every step reuses, is an explicit buffer. The first component of the
  result is whether the exit status is \<open>EXIT_SUCCESS\<close>.
\<close>

section \<open>Constants\<close>

definition MKFS_EXT4_DISK_MIN_SIZE :: u64 where "MKFS_EXT4_DISK_MIN_SIZE = 524288"
definition MKFS_EXT4_LOG_BLOCK_SIZE :: u32 where "MKFS_EXT4_LOG_BLOCK_SIZE = 2"
definition MKFS_EXT4_BLOCK_SIZE :: u64 where "MKFS_EXT4_BLOCK_SIZE = 4096"
definition MKFS_EXT4_GROUP_BLOCK_CNT :: u64 where "MKFS_EXT4_GROUP_BLOCK_CNT = 32768"
definition MKFS_EXT4_INODE_SIZE :: u16 where "MKFS_EXT4_INODE_SIZE = 256"
definition MKFS_EXT4_INODE_RATIO :: u64 where "MKFS_EXT4_INODE_RATIO = 16384"
definition MKFS_EXT4_DESC_SIZE :: u16 where "MKFS_EXT4_DESC_SIZE = 64"
definition MKFS_EXT4_RESV_DESC_CNT :: u64 where "MKFS_EXT4_RESV_DESC_CNT = 0"
definition CACHE_SIGNATURE :: u32 where "CACHE_SIGNATURE = 0x12345678"
definition CACHE_VERSION :: u32 where "CACHE_VERSION = 1"

lemmas mkfs_consts = MKFS_EXT4_DISK_MIN_SIZE_def MKFS_EXT4_LOG_BLOCK_SIZE_def MKFS_EXT4_BLOCK_SIZE_def
  MKFS_EXT4_GROUP_BLOCK_CNT_def MKFS_EXT4_INODE_SIZE_def MKFS_EXT4_INODE_RATIO_def
  MKFS_EXT4_DESC_SIZE_def MKFS_EXT4_RESV_DESC_CNT_def

section \<open>Layout\<close>

record mkfs_layout =
  ml_block_count :: u64
  ml_group_count :: u64
  ml_inode_count :: u64
  ml_inodes_per_group :: u32
  ml_d_bitmap_start :: u64
  ml_i_bitmap_start :: u64
  ml_inode_table_start :: u64
  ml_inode_table_len :: u64

text \<open>The image size is rounded down to whole blocks; \<open>s_inodes_per_group * MKFS_EXT4_INODE_SIZE\<close>
  is computed in 32 bits.\<close>

definition mkfs_layout_of :: "u64 \<Rightarrow> mkfs_layout" where
  "mkfs_layout_of img_size = (
     let img_size = (if img_size div MKFS_EXT4_BLOCK_SIZE > 0 \<and> img_size mod MKFS_EXT4_BLOCK_SIZE \<noteq> 0
                     then (img_size div MKFS_EXT4_BLOCK_SIZE) * MKFS_EXT4_BLOCK_SIZE else img_size);
         block_count = img_size div MKFS_EXT4_BLOCK_SIZE;
         group_count = (block_count + MKFS_EXT4_GROUP_BLOCK_CNT - 1) div MKFS_EXT4_GROUP_BLOCK_CNT;
         inode_count = block_count * MKFS_EXT4_BLOCK_SIZE div MKFS_EXT4_INODE_RATIO;
         ipg = (ucast (inode_count div group_count) :: u32);
         d_bitmap_start = 2 + MKFS_EXT4_RESV_DESC_CNT;
         i_bitmap_start = d_bitmap_start + group_count;
         inode_table_start = i_bitmap_start + group_count
     in \<lparr>ml_block_count = block_count, ml_group_count = group_count, ml_inode_count = inode_count,
         ml_inodes_per_group = ipg, ml_d_bitmap_start = d_bitmap_start,
         ml_i_bitmap_start = i_bitmap_start, ml_inode_table_start = inode_table_start,
         ml_inode_table_len =
           ucast (ipg * ucast MKFS_EXT4_INODE_SIZE) div MKFS_EXT4_BLOCK_SIZE\<rparr>)"

definition mkfs_sb :: "mkfs_layout \<Rightarrow> ext4_super_block" where
  "mkfs_sb l = (dec_super_block (replicate 1024 0))\<lparr>
     s_inodes_count := ucast (ml_inode_count l),
     s_magic := EXT4_S_MAGIC,
     s_log_block_size := MKFS_EXT4_LOG_BLOCK_SIZE,
     s_blocks_count_hi := ucast (drop_bit 32 (ml_block_count l)),
     s_blocks_count_lo := ucast (ml_block_count l),
     s_blocks_per_group := ucast MKFS_EXT4_GROUP_BLOCK_CNT,
     s_inode_size := MKFS_EXT4_INODE_SIZE,
     s_inodes_per_group := ml_inodes_per_group l,
     s_desc_size := MKFS_EXT4_DESC_SIZE\<rparr>"

definition mkfs_free_blocks :: "mkfs_layout \<Rightarrow> u64 \<Rightarrow> u64" where
  "mkfs_free_blocks l i =
     (if i = ml_group_count l - 1
      then ml_block_count l - (ml_group_count l - 1) * MKFS_EXT4_GROUP_BLOCK_CNT
      else if i = 0 then MKFS_EXT4_GROUP_BLOCK_CNT - 1 else MKFS_EXT4_GROUP_BLOCK_CNT)"

definition mkfs_free_inodes :: "mkfs_layout \<Rightarrow> u64 \<Rightarrow> u64" where
  "mkfs_free_inodes l i =
     (if i = ml_group_count l - 1
      then ml_inode_count l - (ml_group_count l - 1) * ucast (ml_inodes_per_group l)
      else if i = 0 then ucast (ml_inodes_per_group l) - 1 else ucast (ml_inodes_per_group l))"

text \<open>One descriptor of the loop over the groups. The counts are stored in 16-bit fields.\<close>

definition mkfs_gd :: "mkfs_layout \<Rightarrow> u64 \<Rightarrow> ext4_group_desc" where
  "mkfs_gd l i = (
     let table = ml_inode_table_start l + i * ml_inode_table_len l;
         free_blocks_count = mkfs_free_blocks l i;
         free_inode_count = mkfs_free_inodes l i
     in (dec_group_desc (replicate 64 0))\<lparr>
          bg_block_bitmap_lo := ucast (ml_d_bitmap_start l + i),
          bg_block_bitmap_hi := ucast (drop_bit 32 (ml_d_bitmap_start l + i)),
          bg_inode_bitmap_lo := ucast (ml_i_bitmap_start l + i),
          bg_inode_bitmap_hi := ucast (drop_bit 32 (ml_i_bitmap_start l + i)),
          bg_inode_table_lo := ucast table,
          bg_inode_table_hi := ucast (drop_bit 32 table),
          bg_free_blocks_count_lo := ucast free_blocks_count,
          bg_free_blocks_count_hi := ucast (drop_bit 32 free_blocks_count),
          bg_free_inodes_count_lo := ucast free_inode_count,
          bg_free_inodes_count_hi := 0,
          bg_used_dirs_count_lo := 0,
          bg_used_dirs_count_hi := 0,
          bg_itable_unused_lo := ucast free_inode_count,
          bg_itable_unused_hi := 0\<rparr>)"

text \<open>The descriptors as they are written: the root directory counts as used.\<close>

definition mkfs_gdt :: "mkfs_layout \<Rightarrow> ext4_group_desc list" where
  "mkfs_gdt l = (
     let gs = map (\<lambda>i. mkfs_gd l (word_of_nat i)) [0..<unat (ml_group_count l)]
     in case gs of [] \<Rightarrow> []
        | g # gs \<Rightarrow> g\<lparr>bg_used_dirs_count_lo := bg_used_dirs_count_lo g + 1\<rparr> # gs)"

text \<open>\<open>inode_create\<close> of the formatter; the owner is the user who runs it.\<close>

record mkfs_env =
  me_uid :: u32
  me_gid :: u32
  me_now :: u64

definition mkfs_inode :: "mkfs_env \<Rightarrow> u32 \<Rightarrow> u64 \<Rightarrow> u64 \<Rightarrow> ext4_inode" where
  "mkfs_inode ev mode pblock bsz = (
     let t = ucast (me_now ev);
         inode = zero_inode\<lparr>i_mode := ucast mode, i_atime := t, i_ctime := t, i_mtime := t\<rparr>;
         inode = EXT4_INODE_SET_GID (me_gid ev) (EXT4_INODE_SET_UID (me_uid ev) inode);
         inode = inode\<lparr>i_links_count := (if mode AND S_IFDIR \<noteq> 0 then 2 else 1)\<rparr>;
         inode = EXT4_INODE_SET_BLOCKS (ucast EXT4_INODE_PBLOCK_NUM) inode;
         inode = EXT4_INODE_SET_SIZE (if mode AND S_IFDIR \<noteq> 0 then bsz else 0) inode;
         eh = \<lparr>eh_magic = EXT4_EXT_MAGIC, eh_entries = 1, eh_max = EXT4_EXT_LEAF_EH_MAX, eh_depth = 0,
               eh_generation = EXT4_EXT_EH_GENERATION\<rparr>;
         ee = EXT4_EXT_SET_PADDR pblock
                \<lparr>ee_block = 0, ee_len = 4, ee_start_hi = 0, ee_start_lo = 0\<rparr>
     in inode\<lparr>i_flags := i_flags inode OR EXT4_EXTENTS_FL,
              i_block := enc_extent_header eh @ enc_extent ee @ replicate 36 0\<rparr>)"

section \<open>Writing the file system\<close>

definition mkfs_write_block :: "u64 \<Rightarrow> u8 list \<Rightarrow> disk \<Rightarrow> disk option" where
  "mkfs_write_block b buf d = disk_write (b * MKFS_EXT4_BLOCK_SIZE) buf d"

text \<open>Zeroing the two bitmaps of the groups \<open>i\<close>, \<open>i + 1\<close>, ...; \<open>k\<close> groups are left.\<close>

fun mkfs_zero_bitmaps :: "mkfs_layout \<Rightarrow> u64 \<Rightarrow> nat \<Rightarrow> disk \<Rightarrow> disk option" where
  "mkfs_zero_bitmaps l i 0 d = Some d"
| "mkfs_zero_bitmaps l i (Suc k) d = do {
     d \<leftarrow> mkfs_write_block (ml_d_bitmap_start l + i) (replicate 4096 0) d;
     d \<leftarrow> mkfs_write_block (ml_i_bitmap_start l + i) (replicate 4096 0) d;
     mkfs_zero_bitmaps l (i + 1) k d
   }"

text \<open>The root directory block, written over the buffer \<open>tmp\<close>.\<close>

definition mkfs_entry :: "nat \<Rightarrow> u32 \<Rightarrow> u16 \<Rightarrow> u8 \<Rightarrow> cstr \<Rightarrow> u8 list \<Rightarrow> u8 list" where
  "mkfs_entry off idx rec_len ft name buf =
     splice off (put32 idx @ put16 rec_len @ put8 (word_of_nat (length name)) @ put8 ft @ name @ [0]) buf"

definition mkfs_root_block :: "u8 list \<Rightarrow> u8 list" where
  "mkfs_root_block tmp = (
     let dot = word_of_nat EXT4_DE_DOT_SIZE;
         tmp = splice (4096 - EXT4_DE_TAIL_SIZE)
                 (put32 0 @ put16 (word_of_nat EXT4_DE_TAIL_SIZE) @ put8 0 @ put8 EXT4_FT_DIR_CSUM @ put32 0) tmp;
         tmp = mkfs_entry 0 EXT4_ROOT_INO dot EXT4_FT_DIR (str ''.'') tmp;
         tmp = mkfs_entry EXT4_DE_DOT_SIZE EXT4_ROOT_INO dot EXT4_FT_DIR (str ''..'') tmp
     in mkfs_entry (EXT4_DE_DOT_SIZE * 2) EXT4_KFSCTL_INO
          (4096 - word_of_nat (EXT4_DE_DOT_SIZE * 2) - word_of_nat EXT4_DE_TAIL_SIZE)
          EXT4_FT_REG_FILE (str ''.kfsctl'') tmp)"

text \<open>The block bitmap of group 0: the first \<open>n\<close> blocks are in use.\<close>

definition mkfs_block_bitmap :: "u64 \<Rightarrow> u8 list \<Rightarrow> u8 list option" where
  "mkfs_block_bitmap n tmp = do {
     let k = unat (n div 8);
     VALID (k \<le> length tmp);
     let tmp = splice 0 (replicate k 0xff) tmp;
     if n mod 8 \<noteq> 0 then do {
       b \<leftarrow> index tmp k;
       Some (tmp[k := b OR (push_bit (unat (n mod 8)) 1 - 1)])
     } else Some tmp
   }"

text \<open>Everything after the descriptors.\<close>

definition mkfs_init_fs :: "mkfs_env \<Rightarrow> mkfs_layout \<Rightarrow> disk \<Rightarrow> (bool \<times> disk) option" where
  "mkfs_init_fs ev l d = do {
     tmp \<leftarrow> SET_BIT1 (replicate 4096 0) 0 True;
     tmp \<leftarrow> SET_BIT1 tmp 1 True;
     tmp \<leftarrow> SET_BIT1 tmp 2 True;
     d \<leftarrow> disk_write (ml_i_bitmap_start l * MKFS_EXT4_BLOCK_SIZE) (take 2 tmp) d;
     let data_block_start = ALIGN_TO (ml_inode_table_start l + ml_group_count l * ml_inode_table_len l) 4;
     let alloced_block_cnt = data_block_start + ucast (EXT4_INODE_PBLOCK_NUM * 2);
     if alloced_block_cnt > MKFS_EXT4_BLOCK_SIZE then Some (False, d)
     else do {
       tmp \<leftarrow> mkfs_block_bitmap alloced_block_cnt tmp;
       d \<leftarrow> mkfs_write_block (ml_d_bitmap_start l) tmp d;
       let table = ml_inode_table_start l * MKFS_EXT4_BLOCK_SIZE;
       let tmp = splice 0 (enc_inode (mkfs_inode ev (S_IFDIR OR 0x1ed) data_block_start MKFS_EXT4_BLOCK_SIZE)) tmp;
       d \<leftarrow> disk_write (table + ucast ((EXT4_ROOT_INO - 1) * ucast MKFS_EXT4_INODE_SIZE)) (take 256 tmp) d;
       let ctl_block = data_block_start + ucast EXT4_INODE_PBLOCK_NUM;
       let ctl = EXT4_INODE_SET_SIZE (ucast EXT4_INODE_PBLOCK_NUM * MKFS_EXT4_BLOCK_SIZE)
                   (mkfs_inode ev (S_IFREG OR 0x1ed) ctl_block MKFS_EXT4_BLOCK_SIZE);
       let tmp = splice 0 (enc_inode ctl) tmp;
       d \<leftarrow> disk_write (table + ucast ((EXT4_KFSCTL_INO - 1) * ucast MKFS_EXT4_INODE_SIZE)) (take 256 tmp) d;
       let tmp = splice 0 (put32 CACHE_SIGNATURE @ put32 CACHE_VERSION @ put32 0) tmp;
       d \<leftarrow> mkfs_write_block ctl_block tmp d;
       d \<leftarrow> mkfs_write_block data_block_start (mkfs_root_block tmp) d;
       Some (True, d)
     }
   }"

definition mkfs_main :: "mkfs_env \<Rightarrow> disk \<Rightarrow> (bool \<times> disk) option" where
  "mkfs_main ev d = do {
     let img_size = disk_size d;
     if img_size < MKFS_EXT4_DISK_MIN_SIZE then Some (False, d)
     else do {
       let l = mkfs_layout_of img_size;
       d \<leftarrow> disk_write 0 (replicate (unat BOOT_SECTOR_SIZE) 0) d;
       ipg \<leftarrow> cdiv (ml_inode_count l) (ml_group_count l);
       ASSERT (ipg \<le> MKFS_EXT4_GROUP_BLOCK_CNT);
       d \<leftarrow> disk_write BOOT_SECTOR_SIZE (enc_super_block (mkfs_sb l)) d;
       let bg_off = ALIGN_TO_BLOCKSIZE (mkfs_sb l) (BOOT_SECTOR_SIZE + SIZEOF_SUPER_BLOCK);
       d \<leftarrow> mkfs_zero_bitmaps l 0 (unat (ml_group_count l)) d;
       VALID (ml_group_count l \<noteq> 0);
       d \<leftarrow> disk_write bg_off (concat (map enc_group_desc (mkfs_gdt l))) d;
       mkfs_init_fs ev l d
     }
   }"

end
