(* ===== verification/Ctl.thy ===== *)
theory Ctl
  imports Mount Mkfs
begin

text \<open>
  The control service, \<open>src/ctl.c\<close>: the handlers of the commands of \<open>kfsctl\<close>, which keep compressed
  snapshots of files and their index in the file \<open>/.kfsctl\<close>. The handlers call the FUSE operations
  directly. zlib, the C library's time formatting and the contents of fresh memory are parameters; a
  read of memory that was never written is \<open>None\<close>.
\<close>

section \<open>Requests and responses\<close>

datatype kfs_cmd = CMD_STATUS | CMD_LOG | CMD_ADD | CMD_RESTORE

record Request =
  rq_cmd :: "kfs_cmd option"
  rq_filename :: cstr
  rq_data :: int

record Response =
  rs_need_print :: bool
  rs_msg :: cstr

text \<open>\<open>compress\<close> and \<open>uncompress\<close> take the size of the destination and the source, and return what
  they store there with the new \<open>*destLen\<close>.\<close>

record ctl_env =
  ct_env :: env
  ct_nsec :: u64
  ct_mem :: "nat \<Rightarrow> u8"
  ct_compress :: "u64 \<Rightarrow> u8 list \<Rightarrow> u8 list \<times> u64"
  ct_uncompress :: "u64 \<Rightarrow> u8 list \<Rightarrow> u8 list \<times> u64"
  ct_strftime :: "u64 \<Rightarrow> cstr"

definition BUFFER_SIZE :: u64 where "BUFFER_SIZE = 128"
definition MAX_ENTRIES :: u32 where "MAX_ENTRIES = 10"
definition SIZEOF_CACHE_HEADER :: nat where "SIZEOF_CACHE_HEADER = 12"
definition SIZEOF_CACHE_ENTRY :: nat where "SIZEOF_CACHE_ENTRY = 464"

section \<open>Messages\<close>

fun dec_str :: "nat \<Rightarrow> cstr" where
  "dec_str n = (if n < 10 then [48 + word_of_nat n] else dec_str (n div 10) @ [48 + word_of_nat (n mod 10)])"

definition dec_int :: "int \<Rightarrow> cstr" where
  "dec_int i = (if i < 0 then [45] @ dec_str (nat (- i)) else dec_str (nat i))"

definition newline :: cstr where "newline = [10]"
definition tab :: cstr where "tab = [9]"

text \<open>A \<open>sprintf\<close> at the end of the 1024 bytes of \<open>msg\<close>.\<close>

definition put_msg :: "cstr \<Rightarrow> cstr \<Rightarrow> cstr option" where
  "put_msg msg t = do {
     VALID (length msg + length t < 1024);
     Some (msg @ t)
   }"

definition sb_status :: "kfs \<Rightarrow> cstr option" where
  "sb_status s = do {
     n \<leftarrow> EXT4_N_BLOCK_GROUPS (sb s);
     msg \<leftarrow> put_msg [] (str ''  BLOCK SIZE:'' @ tab @ tab @ str '' '' @ dec_str (unat (BLOCK_SIZE s)) @ newline);
     msg \<leftarrow> put_msg msg (str ''  N BLOCK GROUPS:'' @ tab @ str '' '' @ dec_str (unat n) @ newline);
     msg \<leftarrow> put_msg msg (str ''  INODE SIZE:'' @ tab @ tab @ str '' '' @ dec_str (unat (s_inode_size (sb s))) @ newline);
     msg \<leftarrow> put_msg msg (str ''  INODES PER GROUP:'' @ tab @ str '' '' @ dec_int (sint (s_inodes_per_group (sb s))) @ newline);
     put_msg msg (str ''  BLOCKS PER GROUP:'' @ tab @ str '' '' @ dec_int (sint (s_blocks_per_group (sb s))) @ newline)
   }"

definition ctl_status :: "kfs \<Rightarrow> Response option" where
  "ctl_status s = do {
     msg \<leftarrow> sb_status s;
     (used_inode_num, free_inode_num) \<leftarrow> bitmap_inode_count s;
     msg \<leftarrow> put_msg msg (str ''  inode[free:total]'' @ tab @ str '' ['' @ dec_str (unat used_inode_num) @
                          str ''/'' @ dec_str (unat (free_inode_num + used_inode_num)) @ str '']'' @ newline);
     (used_pblock_num, free_pblock_num) \<leftarrow> bitmap_pblock_count s;
     msg \<leftarrow> put_msg msg (str ''  pblock[free:total]'' @ tab @ str '' ['' @ dec_str (unat used_pblock_num) @
                          str ''/'' @ dec_str (unat (free_pblock_num + used_pblock_num)) @ str '']'' @ newline);
     Some \<lparr>rs_need_print = True, rs_msg = msg\<rparr>
   }"

section \<open>The index of snapshots\<close>

text \<open>The header is three 32-bit numbers. An entry has its name in bytes 0 to 255, \<open>count\<close> in 256,
  \<open>inode_idx\<close> from 260 on and \<open>timestamp\<close>, pairs of 64-bit numbers, from 304 on.\<close>

definition ce_off :: "nat \<Rightarrow> nat" where
  "ce_off i = SIZEOF_CACHE_HEADER + SIZEOF_CACHE_ENTRY * i"

definition cache_size :: "u32 \<Rightarrow> u64" where
  "cache_size n = word_of_nat (SIZEOF_CACHE_HEADER) + word_of_nat SIZEOF_CACHE_ENTRY * ucast n"

definition ce_count :: "u8 list \<Rightarrow> nat \<Rightarrow> u32 option" where
  "ce_count buf i = do {
     VALID (ce_off i + 260 \<le> length buf);
     Some (get32 buf (ce_off i + 256))
   }"

definition ce_inode_idx :: "u8 list \<Rightarrow> nat \<Rightarrow> nat \<Rightarrow> u32 option" where
  "ce_inode_idx buf i j = do {
     VALID (ce_off i + 260 + 4 * j + 4 \<le> length buf);
     Some (get32 buf (ce_off i + 260 + 4 * j))
   }"

definition ce_name_eq :: "u8 list \<Rightarrow> nat \<Rightarrow> cstr \<Rightarrow> bool option" where
  "ce_name_eq buf i path = strncmp_eq (drop (ce_off i) buf) path (length path + 1)"

definition write_buf :: "nat \<Rightarrow> u8 list \<Rightarrow> u8 list \<Rightarrow> u8 list option" where
  "write_buf off bs buf = do {
     VALID (off + length bs \<le> length buf);
     Some (splice off bs buf)
   }"

text \<open>Storing a snapshot as number \<open>j\<close> of the entry \<open>i\<close>, and making it the first of a new entry.\<close>

definition ce_store :: "ctl_env \<Rightarrow> nat \<Rightarrow> nat \<Rightarrow> u32 \<Rightarrow> u8 list \<Rightarrow> u8 list option" where
  "ce_store ce i j cache_ino buf = do {
     buf \<leftarrow> write_buf (ce_off i + 260 + 4 * j) (put32 cache_ino) buf;
     write_buf (ce_off i + 304 + 16 * j) (put64 (now (ct_env ce)) @ put64 (ct_nsec ce)) buf
   }"

definition ce_new :: "ctl_env \<Rightarrow> nat \<Rightarrow> cstr \<Rightarrow> u32 \<Rightarrow> u8 list \<Rightarrow> u8 list option" where
  "ce_new ce i path cache_ino buf = do {
     buf \<leftarrow> write_buf (ce_off i) (path @ [0]) buf;
     buf \<leftarrow> write_buf (ce_off i + 256) (put32 1) buf;
     ce_store ce i 0 cache_ino buf
   }"

text \<open>The search of \<open>ctl_add_cache\<close> over the entries from \<open>i\<close> on, \<open>k\<close> of them: \<open>Inl ENOSPC\<close> for a
  full entry, \<open>Inr (Some buf)\<close> for the updated buffer, \<open>Inr None\<close> if no entry has the name.\<close>

fun ce_update :: "ctl_env \<Rightarrow> cstr \<Rightarrow> u32 \<Rightarrow> nat \<Rightarrow> nat \<Rightarrow> u8 list \<Rightarrow> (errno + u8 list option) option" where
  "ce_update ce path cache_ino i 0 buf = Some (Inr None)"
| "ce_update ce path cache_ino i (Suc k) buf = do {
     eq \<leftarrow> ce_name_eq buf i path;
     if eq then do {
       c \<leftarrow> ce_count buf i;
       if c < MAX_ENTRIES then do {
         buf \<leftarrow> ce_store ce i (unat c) cache_ino buf;
         buf \<leftarrow> write_buf (ce_off i + 256) (put32 (c + 1)) buf;
         Some (Inr (Some buf))
       } else Some (Inl ENOSPC)
     } else ce_update ce path cache_ino (Suc i) k buf
   }"

text \<open>Reading the first \<open>n\<close> bytes of \<open>/.kfsctl\<close>: all of them must be there, since the caller goes on
  to use them.\<close>

definition read_kfsctl :: "u64 \<Rightarrow> kfs \<Rightarrow> ((errno + u8 list) \<times> kfs) option" where
  "read_kfsctl n s = do {
     (r, s) \<leftarrow> op_read KFSCTL_FILENAME n 0 None s;
     case r of
       Inl e \<Rightarrow> Some (Inl e, s)
     | Inr bs \<Rightarrow> do { VALID (length bs = unat n); Some (Inr bs, s) }
   }"

definition header_ok :: "u8 list \<Rightarrow> bool" where
  "header_ok h \<longleftrightarrow> get32 h 0 = CACHE_SIGNATURE \<and> get32 h 4 = CACHE_VERSION"

text \<open>\<open>header\<close> is a local copy: the count of the entries in it is raised, the one in the buffer is
  not, unless the buffer is the first one.\<close>

definition ctl_add_cache :: "ctl_env \<Rightarrow> cstr \<Rightarrow> u32 \<Rightarrow> kfs \<Rightarrow> ((errno + unit) \<times> kfs) option" where
  "ctl_add_cache ce cache_path cache_ino s = do {
     (r, s) \<leftarrow> inode_get_by_path KFSCTL_FILENAME s;
     case r of
       Inl _ \<Rightarrow> Some (Inl ENOENT, s)
     | Inr _ \<Rightarrow> do {
         (r, s) \<leftarrow> read_kfsctl (word_of_nat SIZEOF_CACHE_HEADER) s;
         case r of
           Inl _ \<Rightarrow> Some (Inl EIO, s)
         | Inr header \<Rightarrow>
             if \<not> header_ok header then Some (Inl EINVAL, s)
             else do {
               let entries = get32 header 8;
               let fresh = map (ct_mem ce) [0..<SIZEOF_CACHE_ENTRY];
               (r, s) \<leftarrow> (if entries \<noteq> 0 then do {
                   (r, s) \<leftarrow> read_kfsctl (cache_size entries) s;
                   case r of
                     Inl _ \<Rightarrow> Some (Inl EIO, s)
                   | Inr buffer \<Rightarrow> do {
                       u \<leftarrow> ce_update ce cache_path cache_ino 0 (unat entries) buffer;
                       case u of
                         Inl e \<Rightarrow> Some (Inl e, s)
                       | Inr (Some buffer) \<Rightarrow> Some (Inr buffer, s)
                       | Inr None \<Rightarrow> do {
                           buffer \<leftarrow> ce_new ce (unat entries) cache_path cache_ino (buffer @ fresh);
                           Some (Inr buffer, s)
                         }
                     }
                 } else do {
                   buffer \<leftarrow> ce_new ce 0 cache_path cache_ino (splice 8 (put32 1) header @ fresh);
                   Some (Inr buffer, s)
                 });
               case r of
                 Inl e \<Rightarrow> Some (Inl e, s)
               | Inr buffer \<Rightarrow> do {
                   (r, s) \<leftarrow> op_write (ct_env ce) KFSCTL_FILENAME buffer 0 None s;
                   Some (case r of Inl _ \<Rightarrow> Inl EIO | Inr _ \<Rightarrow> Inr (), s)
                 }
             }
       }
   }"

section \<open>Commands\<close>

definition ctl_add :: "ctl_env \<Rightarrow> cstr \<Rightarrow> kfs \<Rightarrow> ((errno + unit) \<times> kfs) option" where
  "ctl_add ce filename s = do {
     (r, s) \<leftarrow> inode_get_by_path filename s;
     case r of
       Inl _ \<Rightarrow> Some (Inl ENOENT, s)
     | Inr (i, _) \<Rightarrow> do {
         inode \<leftarrow> ino i s;
         let inode_size = EXT4_INODE_GET_SIZE inode;
         (r, s) \<leftarrow> op_read filename inode_size 0 None s;
         case r of
           Inl _ \<Rightarrow> Some (Inl EIO, s)
         | Inr buffer \<Rightarrow> do {
             VALID (length buffer = unat inode_size);
             let (compress_buffer, compress_size) =
               ct_compress ce (if inode_size \<le> BUFFER_SIZE then BUFFER_SIZE else inode_size) buffer;
             new_inode_idx \<leftarrow> bitmap_inode_find EXT4_ROOT_INO s;
             if new_inode_idx = 0 then Some (Inl ENOSPC, s)
             else do {
               (i, s) \<leftarrow> inode_create (ct_env ce) new_inode_idx 0x124 s;
               s \<leftarrow> bitmap_inode_set new_inode_idx True s;
               pblock_idx \<leftarrow> bitmap_pblock_find new_inode_idx s;
               s \<leftarrow> inode_init_pblock i pblock_idx s;
               s \<leftarrow> upd_ino i (EXT4_INODE_SET_SIZE compress_size) s;
               VALID (unat compress_size \<le> length compress_buffer);
               s \<leftarrow> k_write (BLOCKS2BYTES (sb s) pblock_idx) (take (unat compress_size) compress_buffer) s;
               ctl_add_cache ce filename new_inode_idx s
             }
           }
       }
   }"

text \<open>The lines of one entry in the log, snapshot \<open>j\<close> on, \<open>k\<close> of them.\<close>

fun log_snapshots :: "ctl_env \<Rightarrow> u8 list \<Rightarrow> nat \<Rightarrow> nat \<Rightarrow> nat \<Rightarrow> cstr \<Rightarrow> cstr option" where
  "log_snapshots ce buf i j 0 msg = Some msg"
| "log_snapshots ce buf i j (Suc k) msg = do {
     VALID (ce_off i + 304 + 16 * j + 8 \<le> length buf);
     let seconds = get64 buf (ce_off i + 304 + 16 * j);
     let num = dec_str j;
     msg \<leftarrow> put_msg msg (str ''  ['' @ replicate (2 - length num) 32 @ num @ str ''] '' @
                          ct_strftime ce seconds @ newline);
     log_snapshots ce buf i (Suc j) k msg
   }"

fun log_entries :: "ctl_env \<Rightarrow> u8 list \<Rightarrow> nat \<Rightarrow> nat \<Rightarrow> cstr \<Rightarrow> cstr option" where
  "log_entries ce buf i 0 msg = Some msg"
| "log_entries ce buf i (Suc k) msg = do {
     VALID (0 \<in> set (drop (ce_off i) buf));
     msg \<leftarrow> put_msg msg (takeWhile (\<lambda>b. b \<noteq> 0) (drop (ce_off i) buf) @ newline);
     c \<leftarrow> ce_count buf i;
     msg \<leftarrow> log_snapshots ce buf i 0 (unat c) msg;
     log_entries ce buf (Suc i) k msg
   }"

definition ctl_log :: "ctl_env \<Rightarrow> kfs \<Rightarrow> (Response \<times> kfs) option" where
  "ctl_log ce s = do {
     (r, s) \<leftarrow> read_kfsctl (word_of_nat SIZEOF_CACHE_HEADER) s;
     case r of
       Inl _ \<Rightarrow> Some (\<lparr>rs_need_print = True, rs_msg = str ''fail to read /.kfsctl'' @ newline\<rparr>, s)
     | Inr header \<Rightarrow>
         if \<not> header_ok header
         then Some (\<lparr>rs_need_print = True, rs_msg = str ''invalid /.kfsctl signature or version'' @ newline\<rparr>, s)
         else if get32 header 8 = 0
         then Some (\<lparr>rs_need_print = True, rs_msg = str ''no entries in /.kfsctl'' @ newline\<rparr>, s)
         else do {
           msg \<leftarrow> put_msg [] (dec_str (unat (get32 header 8)) @ str '' entries found'' @ newline);
           (r, s) \<leftarrow> read_kfsctl (cache_size (get32 header 8)) s;
           case r of
             Inl _ \<Rightarrow> Some (\<lparr>rs_need_print = True, rs_msg = msg\<rparr>, s)
           | Inr buffer \<Rightarrow> do {
               msg \<leftarrow> log_entries ce buffer 0 (unat (get32 buffer 8)) msg;
               Some (\<lparr>rs_need_print = True, rs_msg = msg\<rparr>, s)
             }
         }
   }"

text \<open>The loop of \<open>ctl_restore_cache\<close>: the size of the buffer doubles, but \<open>*destLen\<close> still says what
  the call before left there.\<close>

partial_function (option) uncompress_loop ::
  "ctl_env \<Rightarrow> u8 list \<Rightarrow> u64 \<Rightarrow> u8 list \<Rightarrow> u64 \<Rightarrow> (u8 list \<times> u64) option" where
  "uncompress_loop ce src buffer_size out temp_len =
     (if \<not> temp_len \<ge> buffer_size then Some (out, temp_len)
      else do {
        let buffer_size = buffer_size * 2;
        let (out, temp_len) = ct_uncompress ce temp_len src;
        VALID (length out \<le> unat (buffer_size + 1) \<and> unat temp_len < unat (buffer_size + 1));
        uncompress_loop ce src buffer_size out temp_len
      })"

definition ctl_restore_cache :: "ctl_env \<Rightarrow> cstr \<Rightarrow> u64 \<Rightarrow> kfs \<Rightarrow> (int \<times> kfs) option" where
  "ctl_restore_cache ce filename inode_idx s = do {
     (r, s) \<leftarrow> inode_get_by_number (ucast inode_idx) s;
     case r of
       Inl _ \<Rightarrow> Some (- 1, s)
     | Inr i \<Rightarrow> do {
         inode \<leftarrow> ino i s;
         let inode_size = EXT4_INODE_GET_SIZE inode;
         (r, s) \<leftarrow> op_read [] inode_size 0 (Some \<lparr>fi_fh = inode_idx, fi_flags = 0\<rparr>) s;
         case r of
           Inl _ \<Rightarrow> Some (- 5, s)
         | Inr buffer \<Rightarrow> do {
             VALID (length buffer = unat inode_size);
             let (out, temp_len) = ct_uncompress ce BUFFER_SIZE buffer;
             VALID (length out \<le> unat (BUFFER_SIZE + 1));
             (out, temp_len) \<leftarrow> uncompress_loop ce buffer BUFFER_SIZE out temp_len;
             (r, s) \<leftarrow> op_getattr (ct_env ce) filename s;
             s \<leftarrow> (case r of
                 Inl _ \<Rightarrow> map_option snd (op_create (ct_env ce) filename (0x1ed OR S_IFREG) s)
               | Inr _ \<Rightarrow> Some s);
             VALID (unat temp_len \<le> length out);
             (_, s) \<leftarrow> op_write (ct_env ce) filename (take (unat temp_len) out) 0 None s;
             Some (0, s)
           }
       }
   }"

text \<open>The loop over the entries. The message is the result; \<open>data\<close> is compared as an unsigned
  number.\<close>

fun restore_entries ::
  "ctl_env \<Rightarrow> cstr \<Rightarrow> int \<Rightarrow> u8 list \<Rightarrow> nat \<Rightarrow> nat \<Rightarrow> kfs \<Rightarrow> (cstr \<times> kfs) option" where
  "restore_entries ce filename data buf i 0 s = do {
     msg \<leftarrow> put_msg [] (str ''file ['' @ filename @ str ''] not found'' @ newline);
     Some (msg, s)
   }"
| "restore_entries ce filename data buf i (Suc k) s = do {
     eq \<leftarrow> ce_name_eq buf i filename;
     if \<not> eq then restore_entries ce filename data buf (Suc i) k s
     else do {
       c \<leftarrow> ce_count buf i;
       let latest = data \<ge> uint c \<or> data = 2147483647;
       msg \<leftarrow> put_msg [] (if latest then str ''restore to lastest version'' @ newline
                          else str ''restore to version '' @ dec_int data @ newline);
       let version = (if latest then sint (c - 1) else data);
       VALID (version \<ge> 0);
       idx \<leftarrow> ce_inode_idx buf i (nat version);
       VALID (0 \<in> set (drop (ce_off i) buf));
       (r, s) \<leftarrow> ctl_restore_cache ce (takeWhile (\<lambda>b. b \<noteq> 0) (drop (ce_off i) buf)) (ucast idx) s;
       if r < 0 then do {
         msg \<leftarrow> put_msg msg (str ''fail to restore cache'' @ newline);
         Some (msg, s)
       } else Some (msg, s)
     }
   }"

definition ctl_restore :: "ctl_env \<Rightarrow> cstr \<Rightarrow> int \<Rightarrow> kfs \<Rightarrow> (Response \<times> kfs) option" where
  "ctl_restore ce filename data s = do {
     ASSERT (data \<ge> 0);
     (r, s) \<leftarrow> read_kfsctl (word_of_nat SIZEOF_CACHE_HEADER) s;
     case r of
       Inl _ \<Rightarrow> Some (\<lparr>rs_need_print = True, rs_msg = str ''fail to read /.kfsctl'' @ newline\<rparr>, s)
     | Inr header \<Rightarrow>
         if \<not> header_ok header
         then Some (\<lparr>rs_need_print = True, rs_msg = str ''invalid /.kfsctl signature or version'' @ newline\<rparr>, s)
         else if get32 header 8 = 0
         then Some (\<lparr>rs_need_print = True, rs_msg = str ''no entries'' @ newline\<rparr>, s)
         else do {
           (r, s) \<leftarrow> read_kfsctl (cache_size (get32 header 8)) s;
           case r of
             Inl _ \<Rightarrow> Some (\<lparr>rs_need_print = True, rs_msg = []\<rparr>, s)
           | Inr buffer \<Rightarrow> do {
               (msg, s) \<leftarrow> restore_entries ce filename data buffer 0 (unat (get32 buffer 8)) s;
               Some (\<lparr>rs_need_print = True, rs_msg = msg\<rparr>, s)
             }
         }
   }"

text \<open>The dispatch of \<open>ctl_init\<close> on one request. The response to an unknown command is not
  initialised, and \<open>ctl_add\<close> leaves the message as it is.\<close>

definition ctl_dispatch :: "ctl_env \<Rightarrow> Request \<Rightarrow> kfs \<Rightarrow> (Response option \<times> kfs) option" where
  "ctl_dispatch ce req s = (case rq_cmd req of
       Some CMD_STATUS \<Rightarrow> do { resp \<leftarrow> ctl_status s; Some (Some resp, s) }
     | Some CMD_LOG \<Rightarrow> do { (resp, s) \<leftarrow> ctl_log ce s; Some (Some resp, s) }
     | Some CMD_ADD \<Rightarrow> do {
         (_, s) \<leftarrow> ctl_add ce (rq_filename req) s;
         Some (Some \<lparr>rs_need_print = False, rs_msg = []\<rparr>, s)
       }
     | Some CMD_RESTORE \<Rightarrow> do {
         (resp, s) \<leftarrow> ctl_restore ce (rq_filename req) (rq_data req) s;
         Some (Some resp, s)
       }
     | None \<Rightarrow> Some (None, s))"

end
