(* ===== verification/Hashtable.thy ===== *)
theory Hashtable
  imports Kfs_Prelude "HOL-Library.Multiset"
begin

text \<open>
  The chained hash table of \<open>include/hashtable\<close>. Keys and values are byte objects of the sizes given
  to \<open>ht_setup\<close>; a chain is the list of its nodes, and \<open>nodes\<close> is \<open>None\<close> for a null pointer. The
  result of each \<open>malloc\<close> is a parameter: \<open>ok\<close> for the array of chains, \<open>ok'\<close> for a node.
\<close>

section \<open>The table\<close>

type_synonym HTNode = "u8 list \<times> u8 list"

record HashTable =
  ht_size :: u64
  ht_threshold :: u64
  ht_capacity :: u64
  ht_key_size :: u64
  ht_value_size :: u64
  ht_compare :: "u8 list \<Rightarrow> u8 list \<Rightarrow> u64 \<Rightarrow> int"
  ht_hash :: "u8 list \<Rightarrow> u64 \<Rightarrow> u64"
  ht_nodes :: "HTNode list list option"

definition HT_MINIMUM_CAPACITY :: u64 where "HT_MINIMUM_CAPACITY = 8"
definition HT_LOAD_FACTOR :: u64 where "HT_LOAD_FACTOR = 5"
definition HT_GROWTH_FACTOR :: u64 where "HT_GROWTH_FACTOR = 2"
definition HT_SHRINK_THRESHOLD :: u64 where "HT_SHRINK_THRESHOLD = 1 div 4"
definition HT_ERROR :: int where "HT_ERROR = -1"
definition HT_SUCCESS :: int where "HT_SUCCESS = 0"
definition HT_UPDATED :: int where "HT_UPDATED = 1"
definition HT_INSERTED :: int where "HT_INSERTED = 0"
definition HT_NOT_FOUND :: int where "HT_NOT_FOUND = 0"
definition HT_FOUND :: int where "HT_FOUND = 1"

lemmas ht_consts = HT_MINIMUM_CAPACITY_def HT_LOAD_FACTOR_def HT_GROWTH_FACTOR_def
  HT_SHRINK_THRESHOLD_def HT_ERROR_def HT_SUCCESS_def HT_UPDATED_def HT_INSERTED_def
  HT_NOT_FOUND_def HT_FOUND_def

definition ht_is_initialized :: "HashTable \<Rightarrow> bool" where
  "ht_is_initialized t \<longleftrightarrow> ht_nodes t \<noteq> None"

section \<open>Hashing and comparing\<close>

fun memcmp :: "u8 list \<Rightarrow> u8 list \<Rightarrow> int" where
  "memcmp (a # as) (b # bs) = (if a = b then memcmp as bs else uint a - uint b)"
| "memcmp _ _ = 0"

definition ht_default_compare :: "u8 list \<Rightarrow> u8 list \<Rightarrow> u64 \<Rightarrow> int" where
  "ht_default_compare k1 k2 n = memcmp (take (unat n) k1) (take (unat n) k2)"

text \<open>A key byte is a signed \<open>char\<close>.\<close>

definition ht_default_hash :: "u8 list \<Rightarrow> u64 \<Rightarrow> u64" where
  "ht_default_hash key n = foldl (\<lambda>h b. (push_bit 5 h + h) XOR scast b) 5381 (take (unat n) key)"

definition ht_hash_index :: "HashTable \<Rightarrow> u8 list \<Rightarrow> u64 option" where
  "ht_hash_index t key = cmod (ht_hash t key (ht_key_size t)) (ht_capacity t)"

definition ht_equal :: "HashTable \<Rightarrow> u8 list \<Rightarrow> u8 list \<Rightarrow> bool" where
  "ht_equal t k1 k2 \<longleftrightarrow> ht_compare t k1 k2 (ht_key_size t) = 0"

section \<open>Capacity\<close>

definition ht_should_grow :: "HashTable \<Rightarrow> bool option" where
  "ht_should_grow t = do {
     ASSERT (ht_size t \<le> ht_capacity t);
     Some (ht_size t = ht_capacity t)
   }"

definition ht_should_shrink :: "HashTable \<Rightarrow> bool option" where
  "ht_should_shrink t = do {
     ASSERT (ht_size t \<le> ht_capacity t);
     Some (ht_size t = ht_capacity t * HT_SHRINK_THRESHOLD)
   }"

text \<open>The array has \<open>capacity * sizeof(HTNode *)\<close> bytes, a product of 64-bit numbers.\<close>

definition ht_allocate :: "bool \<Rightarrow> HashTable \<Rightarrow> u64 \<Rightarrow> int \<times> HashTable" where
  "ht_allocate ok t capacity =
     (if ok
      then (HT_SUCCESS, t\<lparr>ht_nodes := Some (replicate (unat (capacity * 8) div 8) []),
                          ht_capacity := capacity, ht_threshold := capacity * HT_LOAD_FACTOR\<rparr>)
      else (HT_ERROR, t\<lparr>ht_nodes := None\<rparr>))"

text \<open>\<open>table->nodes[index]\<close> and an assignment to it.\<close>

definition ht_chain :: "HashTable \<Rightarrow> u64 \<Rightarrow> HTNode list option" where
  "ht_chain t i = do { ns \<leftarrow> ht_nodes t; index ns (unat i) }"

definition ht_set_chain :: "HashTable \<Rightarrow> u64 \<Rightarrow> HTNode list \<Rightarrow> HashTable option" where
  "ht_set_chain t i c = do {
     ns \<leftarrow> ht_nodes t;
     VALID (unat i < length ns);
     Some (t\<lparr>ht_nodes := Some (ns[unat i := c])\<rparr>)
   }"

text \<open>The nodes of the old chains are linked into the new array in the order of the walk.\<close>

fun ht_rehash :: "HashTable \<Rightarrow> HTNode list \<Rightarrow> HashTable option" where
  "ht_rehash t [] = Some t"
| "ht_rehash t (node # rest) = do {
     new_index \<leftarrow> ht_hash_index t (fst node);
     c \<leftarrow> ht_chain t new_index;
     t \<leftarrow> ht_set_chain t new_index (node # c);
     ht_rehash t rest
   }"

definition ht_resize :: "bool \<Rightarrow> HashTable \<Rightarrow> u64 \<Rightarrow> (int \<times> HashTable) option" where
  "ht_resize ok t new_capacity =
     (if new_capacity < HT_MINIMUM_CAPACITY \<and> \<not> ht_capacity t > HT_MINIMUM_CAPACITY
      then Some (HT_SUCCESS, t)
      else do {
        let new_capacity = (if new_capacity < HT_MINIMUM_CAPACITY then HT_MINIMUM_CAPACITY else new_capacity);
        let old = ht_nodes t;
        let old_capacity = ht_capacity t;
        let (r, t) = ht_allocate ok t new_capacity;
        if r = HT_ERROR then Some (HT_ERROR, t)
        else do {
          old \<leftarrow> old;
          VALID (unat old_capacity \<le> length old);
          t \<leftarrow> ht_rehash t (concat (take (unat old_capacity) old));
          Some (HT_SUCCESS, t)
        }
      })"

definition ht_adjust_capacity :: "bool \<Rightarrow> HashTable \<Rightarrow> (int \<times> HashTable) option" where
  "ht_adjust_capacity ok t = ht_resize ok t (ht_size t * HT_GROWTH_FACTOR)"

section \<open>Operations\<close>

definition ht_setup :: "bool \<Rightarrow> HashTable \<Rightarrow> u64 \<Rightarrow> u64 \<Rightarrow> u64 \<Rightarrow> int \<times> HashTable" where
  "ht_setup ok t key_size value_size capacity = (
     let capacity = (if capacity < HT_MINIMUM_CAPACITY then HT_MINIMUM_CAPACITY else capacity);
         (r, t) = ht_allocate ok t capacity in
     if r = HT_ERROR then (HT_ERROR, t)
     else (HT_SUCCESS, t\<lparr>ht_key_size := key_size, ht_value_size := value_size,
                         ht_hash := ht_default_hash, ht_compare := ht_default_compare, ht_size := 0\<rparr>))"

text \<open>A node holds copies of the key and of the value; without memory for one, the chain is lost.\<close>

definition ht_create_node :: "bool \<Rightarrow> HashTable \<Rightarrow> u8 list \<Rightarrow> u8 list \<Rightarrow> HTNode option option" where
  "ht_create_node ok' t key val =
     (if \<not> ok' then Some None
      else do {
        VALID (unat (ht_key_size t) \<le> length key);
        VALID (unat (ht_value_size t) \<le> length val);
        Some (Some (take (unat (ht_key_size t)) key, take (unat (ht_value_size t)) val))
      })"

definition ht_push_front ::
  "bool \<Rightarrow> HashTable \<Rightarrow> u64 \<Rightarrow> u8 list \<Rightarrow> u8 list \<Rightarrow> (int \<times> HashTable) option" where
  "ht_push_front ok' t i key val = do {
     c \<leftarrow> ht_chain t i;
     node \<leftarrow> ht_create_node ok' t key val;
     case node of
       None \<Rightarrow> do { t \<leftarrow> ht_set_chain t i []; Some (HT_ERROR, t) }
     | Some node \<Rightarrow> do { t \<leftarrow> ht_set_chain t i (node # c); Some (HT_SUCCESS, t) }
   }"

fun chain_find :: "HashTable \<Rightarrow> u8 list \<Rightarrow> HTNode list \<Rightarrow> u8 list option" where
  "chain_find t key [] = None"
| "chain_find t key (node # rest) =
     (if ht_equal t key (fst node) then Some (snd node) else chain_find t key rest)"

fun chain_update :: "HashTable \<Rightarrow> u8 list \<Rightarrow> u8 list \<Rightarrow> HTNode list \<Rightarrow> HTNode list option" where
  "chain_update t key val [] = None"
| "chain_update t key val (node # rest) =
     (if ht_equal t key (fst node) then Some ((fst node, val) # rest)
      else map_option (Cons node) (chain_update t key val rest))"

fun chain_remove :: "HashTable \<Rightarrow> u8 list \<Rightarrow> HTNode list \<Rightarrow> HTNode list option" where
  "chain_remove t key [] = None"
| "chain_remove t key (node # rest) =
     (if ht_equal t key (fst node) then Some rest
      else map_option (Cons node) (chain_remove t key rest))"

definition ht_insert ::
  "bool \<Rightarrow> bool \<Rightarrow> HashTable \<Rightarrow> u8 list \<Rightarrow> u8 list \<Rightarrow> (int \<times> HashTable) option" where
  "ht_insert ok ok' t key val = do {
     ASSERT (ht_is_initialized t);
     grow \<leftarrow> ht_should_grow t;
     t \<leftarrow> (if grow then map_option snd (ht_adjust_capacity ok t) else Some t);
     i \<leftarrow> ht_hash_index t key;
     c \<leftarrow> ht_chain t i;
     case chain_update t key (take (unat (ht_value_size t)) val) c of
       Some c \<Rightarrow> do { t \<leftarrow> ht_set_chain t i c; Some (HT_UPDATED, t) }
     | None \<Rightarrow> do {
         (r, t) \<leftarrow> ht_push_front ok' t i key val;
         if r = HT_ERROR then Some (HT_ERROR, t)
         else Some (HT_INSERTED, t\<lparr>ht_size := ht_size t + 1\<rparr>)
       }
   }"

definition ht_contains :: "HashTable \<Rightarrow> u8 list \<Rightarrow> int option" where
  "ht_contains t key = do {
     ASSERT (ht_is_initialized t);
     i \<leftarrow> ht_hash_index t key;
     c \<leftarrow> ht_chain t i;
     Some (if chain_find t key c \<noteq> None then HT_FOUND else HT_NOT_FOUND)
   }"

definition ht_lookup :: "HashTable \<Rightarrow> u8 list \<Rightarrow> u8 list option option" where
  "ht_lookup t key = do {
     i \<leftarrow> ht_hash_index t key;
     c \<leftarrow> ht_chain t i;
     Some (chain_find t key c)
   }"

definition ht_const_lookup :: "HashTable \<Rightarrow> u8 list \<Rightarrow> u8 list option option" where
  "ht_const_lookup t key = do {
     i \<leftarrow> ht_hash_index t key;
     c \<leftarrow> ht_chain t i;
     Some (chain_find t key c)
   }"

definition ht_erase :: "bool \<Rightarrow> HashTable \<Rightarrow> u8 list \<Rightarrow> (int \<times> HashTable) option" where
  "ht_erase ok t key = do {
     i \<leftarrow> ht_hash_index t key;
     c \<leftarrow> ht_chain t i;
     case chain_remove t key c of
       None \<Rightarrow> Some (HT_NOT_FOUND, t)
     | Some c \<Rightarrow> do {
         t \<leftarrow> ht_set_chain t i c;
         let t = t\<lparr>ht_size := ht_size t - 1\<rparr>;
         shrink \<leftarrow> ht_should_shrink t;
         if shrink then do {
           (r, t) \<leftarrow> ht_adjust_capacity ok t;
           Some (if r = HT_ERROR then HT_ERROR else HT_SUCCESS, t)
         } else Some (HT_SUCCESS, t)
       }
   }"

text \<open>A freed array of chains has no elements.\<close>

definition ht_destroy :: "HashTable \<Rightarrow> (int \<times> HashTable) option" where
  "ht_destroy t = do {
     ns \<leftarrow> ht_nodes t;
     VALID (unat (ht_capacity t) \<le> length ns);
     Some (HT_SUCCESS, t\<lparr>ht_nodes := Some []\<rparr>)
   }"

definition ht_clear :: "bool \<Rightarrow> HashTable \<Rightarrow> (int \<times> HashTable) option" where
  "ht_clear ok t = do {
     ASSERT (ht_nodes t \<noteq> None);
     (_, t) \<leftarrow> ht_destroy t;
     let (_, t) = ht_allocate ok t HT_MINIMUM_CAPACITY;
     Some (HT_SUCCESS, t\<lparr>ht_size := 0\<rparr>)
   }"

definition ht_is_empty :: "HashTable \<Rightarrow> bool" where
  "ht_is_empty t \<longleftrightarrow> ht_size t = 0"

definition ht_reserve :: "bool \<Rightarrow> HashTable \<Rightarrow> u64 \<Rightarrow> (int \<times> HashTable) option" where
  "ht_reserve ok t minimum_capacity = do {
     ASSERT (ht_is_initialized t);
     if minimum_capacity > ht_threshold t then ht_resize ok t (minimum_capacity div HT_LOAD_FACTOR)
     else Some (HT_SUCCESS, t)
   }"

text \<open>The loop of \<open>ht_copy\<close> over the nodes of the chains; \<open>mem\<close> says of each node whether there is
  memory for it.\<close>

fun ht_copy_chain :: "(nat \<Rightarrow> bool) \<Rightarrow> nat \<Rightarrow> HashTable \<Rightarrow> u64 \<Rightarrow> HTNode list \<Rightarrow> (nat \<times> int \<times> HashTable) option" where
  "ht_copy_chain mem n t i [] = Some (n, HT_SUCCESS, t)"
| "ht_copy_chain mem n t i (node # rest) = do {
     (r, t) \<leftarrow> ht_push_front (mem n) t i (fst node) (snd node);
     if r = HT_ERROR then Some (n, HT_ERROR, t) else ht_copy_chain mem (Suc n) t i rest
   }"

fun ht_copy_chains :: "(nat \<Rightarrow> bool) \<Rightarrow> nat \<Rightarrow> HashTable \<Rightarrow> u64 \<Rightarrow> HTNode list list \<Rightarrow> (int \<times> HashTable) option" where
  "ht_copy_chains mem n t i [] = Some (HT_SUCCESS, t)"
| "ht_copy_chains mem n t i (c # cs) = do {
     (n, r, t) \<leftarrow> ht_copy_chain mem n t i c;
     if r = HT_ERROR then Some (HT_ERROR, t) else ht_copy_chains mem n t (i + 1) cs
   }"

definition ht_copy :: "bool \<Rightarrow> (nat \<Rightarrow> bool) \<Rightarrow> HashTable \<Rightarrow> HashTable \<Rightarrow> (int \<times> HashTable) option" where
  "ht_copy ok mem first second = do {
     ns \<leftarrow> ht_nodes second;
     let (r, first) = ht_allocate ok first (ht_capacity second);
     if r = HT_ERROR then Some (HT_ERROR, first)
     else do {
       let first = first\<lparr>ht_key_size := ht_key_size second, ht_value_size := ht_value_size second,
                         ht_hash := ht_hash second, ht_compare := ht_compare second,
                         ht_size := ht_size second\<rparr>;
       VALID (unat (ht_capacity second) \<le> length ns);
       ht_copy_chains mem 0 first 0 (take (unat (ht_capacity second)) ns)
     }
   }"

definition ht_move :: "HashTable \<Rightarrow> HashTable \<Rightarrow> (HashTable \<times> HashTable) option" where
  "ht_move first second = do {
     ASSERT (ht_is_initialized second);
     Some (second, second\<lparr>ht_nodes := None\<rparr>)
   }"

text \<open>\<open>ht_swap\<close> exchanges every field but the capacity and the threshold.\<close>

definition ht_swap :: "HashTable \<Rightarrow> HashTable \<Rightarrow> (HashTable \<times> HashTable) option" where
  "ht_swap first second = do {
     ASSERT (ht_is_initialized first);
     ASSERT (ht_is_initialized second);
     Some (first\<lparr>ht_key_size := ht_key_size second, ht_value_size := ht_value_size second,
                 ht_size := ht_size second, ht_hash := ht_hash second,
                 ht_compare := ht_compare second, ht_nodes := ht_nodes second\<rparr>,
           second\<lparr>ht_key_size := ht_key_size first, ht_value_size := ht_value_size first,
                  ht_size := ht_size first, ht_hash := ht_hash first,
                  ht_compare := ht_compare first, ht_nodes := ht_nodes first\<rparr>)
   }"

section \<open>The invariant and the map of a table\<close>

definition ht_idx :: "HashTable \<Rightarrow> u8 list \<Rightarrow> nat" where
  "ht_idx t key = unat (ht_default_hash key (ht_key_size t) mod ht_capacity t)"

definition ht_key_ok :: "HashTable \<Rightarrow> u8 list \<Rightarrow> bool" where
  "ht_key_ok t key \<longleftrightarrow> length key = unat (ht_key_size t)"

definition ht_val_ok :: "HashTable \<Rightarrow> u8 list \<Rightarrow> bool" where
  "ht_val_ok t val \<longleftrightarrow> length val = unat (ht_value_size t)"

text \<open>Every node is in the chain of its key and no key is there twice.\<close>

definition ht_core :: "HashTable \<Rightarrow> HTNode list list \<Rightarrow> bool" where
  "ht_core t ns \<longleftrightarrow> ht_nodes t = Some ns \<and> length ns = unat (ht_capacity t) \<and> ht_capacity t \<noteq> 0 \<and>
     ht_hash t = ht_default_hash \<and> ht_compare t = ht_default_compare \<and>
     (\<forall>i < length ns. \<forall>kv \<in> set (ns ! i). ht_key_ok t (fst kv) \<and> ht_val_ok t (snd kv) \<and> ht_idx t (fst kv) = i) \<and>
     distinct (map fst (concat ns))"

definition ht_ok :: "HashTable \<Rightarrow> bool" where
  "ht_ok t \<longleftrightarrow> (\<exists>ns. ht_core t ns \<and> unat (ht_size t) = length (concat ns)) \<and>
     ht_size t \<le> ht_capacity t \<and> 8 \<le> ht_capacity t \<and> ht_capacity t < 2 ^ 60"

definition ht_map :: "HashTable \<Rightarrow> u8 list \<rightharpoonup> u8 list" where
  "ht_map t = (case ht_nodes t of None \<Rightarrow> Map.empty | Some ns \<Rightarrow> map_of (concat ns))"

lemma memcmp_eq_0: "length a = length b \<Longrightarrow> memcmp a b = 0 \<longleftrightarrow> a = b"
  by (induction a b rule: list_induct2) (auto simp flip: word_uint_eq_iff)

lemma ht_equal_core:
  assumes "ht_core t ns" "ht_key_ok t k" "ht_key_ok t k'"
  shows "ht_equal t k k' \<longleftrightarrow> k = k'"
  using assms by (simp add: ht_equal_def ht_core_def ht_default_compare_def ht_key_ok_def memcmp_eq_0)

lemma ht_idx_less: "ht_core t ns \<Longrightarrow> ht_idx t k < length ns"
  by (simp add: ht_core_def ht_idx_def word_mod_less_divisor word_gt_0 flip: word_less_nat_alt)

lemma ht_hash_index_core: "ht_core t ns \<Longrightarrow> ht_hash_index t k = Some (ht_default_hash k (ht_key_size t) mod ht_capacity t)"
  by (simp add: ht_core_def ht_hash_index_def cmod_def)

lemma ht_chain_core: "ht_core t ns \<Longrightarrow> ht_chain t (ht_default_hash k (ht_key_size t) mod ht_capacity t) = Some (ns ! ht_idx t k)"
  using ht_idx_less [of t ns k] by (simp add: ht_core_def ht_chain_def ht_idx_def)

lemma ht_set_chain_core:
  "ht_core t ns \<Longrightarrow> ht_set_chain t (ht_default_hash k (ht_key_size t) mod ht_capacity t) c =
     Some (t\<lparr>ht_nodes := Some (ns[ht_idx t k := c])\<rparr>)"
  using ht_idx_less [of t ns k] by (simp add: ht_core_def ht_set_chain_def ht_idx_def)

section \<open>Chains\<close>

text \<open>The array of chains as one list, split at the chain \<open>i\<close>.\<close>

lemma concat_split:
  assumes "i < length ns"
  obtains A B where "concat ns = A @ ns ! i @ B" "\<And>c. concat (ns[i := c]) = A @ c @ B"
proof
  show "concat ns = concat (take i ns) @ ns ! i @ concat (drop (Suc i) ns)"
    using assms by (metis concat.simps(2) concat_append id_take_nth_drop)
  show "concat (ns[i := c]) = concat (take i ns) @ c @ concat (drop (Suc i) ns)" for c
    using assms by (simp add: upd_conv_take_nth_drop)
qed

lemma map_of_middle:
  assumes "k \<notin> fst ` set A"
  shows "map_of (A @ (k, v) # B) = (map_of (A @ B))(k \<mapsto> v)"
proof -
  have "map_of A k = None" using assms by (simp add: map_of_eq_None_iff)
  then show ?thesis by (auto simp: fun_eq_iff map_add_def split: option.splits)
qed

lemma chain_find_map_of:
  assumes "ht_core t ns" "ht_key_ok t k" "\<forall>kv \<in> set c. ht_key_ok t (fst kv)"
  shows "chain_find t k c = map_of c k"
  using assms(3) by (induction c) (auto simp: ht_equal_core [OF assms(1,2)])

lemma chain_update_cases:
  assumes "ht_core t ns" "ht_key_ok t k" "\<forall>kv \<in> set c. ht_key_ok t (fst kv)"
  shows "(k \<notin> fst ` set c \<and> chain_update t k v c = None) \<or>
    (\<exists>xs w ys. c = xs @ (k, w) # ys \<and> chain_update t k v c = Some (xs @ (k, v) # ys) \<and> k \<notin> fst ` set xs)"
  using assms(3)
proof (induction c)
  case (Cons kv c)
  show ?case
  proof (cases "k = fst kv")
    case True
    then have "kv # c = [] @ (k, snd kv) # c" "chain_update t k v (kv # c) = Some ([] @ (k, v) # c)"
      using ht_equal_core [OF assms(1,2,2)] by auto
    then show ?thesis by (metis empty_iff image_empty list.set(1))
  next
    case False
    then have "\<not> ht_equal t k (fst kv)" using Cons.prems by (simp add: ht_equal_core [OF assms(1,2)])
    moreover from Cons.prems have "\<forall>kv \<in> set c. ht_key_ok t (fst kv)" by simp
    then consider "k \<notin> fst ` set c" "chain_update t k v c = None"
      | xs w ys where "c = xs @ (k, w) # ys" "chain_update t k v c = Some (xs @ (k, v) # ys)" "k \<notin> fst ` set xs"
      using Cons.IH by metis
    then show ?thesis
    proof cases
      case 1
      with False \<open>\<not> ht_equal t k (fst kv)\<close> show ?thesis by auto
    next
      case (2 xs w ys)
      with False \<open>\<not> ht_equal t k (fst kv)\<close>
      have "kv # c = (kv # xs) @ (k, w) # ys \<and> chain_update t k v (kv # c) = Some ((kv # xs) @ (k, v) # ys) \<and>
        k \<notin> fst ` set (kv # xs)" by auto
      then show ?thesis by blast
    qed
  qed
qed simp

lemma chain_remove_update:
  "chain_update t k v c = Some (xs @ (k, v) # ys) \<Longrightarrow> c = xs @ (k, w) # ys \<Longrightarrow> \<forall>kv \<in> set xs. \<not> ht_equal t k (fst kv) \<Longrightarrow>
    ht_equal t k k \<Longrightarrow> chain_remove t k c = Some (xs @ ys)"
  by (induction xs arbitrary: c) (auto split: if_splits)

lemma chain_remove_cases:
  assumes "ht_core t ns" "ht_key_ok t k" "\<forall>kv \<in> set c. ht_key_ok t (fst kv)"
  shows "(k \<notin> fst ` set c \<and> chain_remove t k c = None) \<or>
    (\<exists>xs w ys. c = xs @ (k, w) # ys \<and> chain_remove t k c = Some (xs @ ys) \<and> k \<notin> fst ` set xs)"
proof (cases "k \<in> fst ` set c")
  case False
  then have "chain_remove t k c = None"
    using assms(3) by (induction c) (auto simp: ht_equal_core [OF assms(1,2)])
  with False show ?thesis by blast
next
  case True
  with chain_update_cases [OF assms, of "[]"]
  obtain xs w ys where c: "c = xs @ (k, w) # ys" "chain_update t k [] c = Some (xs @ (k, []) # ys)" "k \<notin> fst ` set xs"
    by auto
  moreover have "\<forall>kv \<in> set xs. \<not> ht_equal t k (fst kv)" "ht_equal t k k"
    using c(3) assms(3) unfolding c(1) by (auto simp: ht_equal_core [OF assms(1,2)] ht_equal_core [OF assms(1,2,2)])
  ultimately have "chain_remove t k c = Some (xs @ ys)" using chain_remove_update by blast
  with c show ?thesis by blast
qed

section \<open>Replacing one chain\<close>

lemma ht_upd_simps [simp]:
  "ht_idx (t\<lparr>ht_nodes := x\<rparr>) = ht_idx t" "ht_idx (t\<lparr>ht_size := y\<rparr>) = ht_idx t"
  "ht_key_ok (t\<lparr>ht_nodes := x\<rparr>) = ht_key_ok t" "ht_key_ok (t\<lparr>ht_size := y\<rparr>) = ht_key_ok t"
  "ht_val_ok (t\<lparr>ht_nodes := x\<rparr>) = ht_val_ok t" "ht_val_ok (t\<lparr>ht_size := y\<rparr>) = ht_val_ok t"
  "ht_core (t\<lparr>ht_size := y\<rparr>) ns = ht_core t ns" "ht_map (t\<lparr>ht_size := y\<rparr>) = ht_map t"
  by (simp_all add: ht_idx_def ht_key_ok_def ht_val_ok_def ht_core_def ht_map_def fun_eq_iff)

lemma core_node:
  "ht_core t ns \<Longrightarrow> i < length ns \<Longrightarrow> kv \<in> set (ns ! i) \<Longrightarrow>
     ht_key_ok t (fst kv) \<and> ht_val_ok t (snd kv) \<and> ht_idx t (fst kv) = i"
  unfolding ht_core_def by blast

lemma core_chain:
  assumes "ht_core t ns" "kv \<in> set (ns ! ht_idx t k)"
  shows "ht_key_ok t (fst kv)" "ht_val_ok t (snd kv)" "ht_idx t (fst kv) = ht_idx t k"
  using core_node [OF assms(1) ht_idx_less [OF assms(1)] assms(2)] by simp_all

lemma core_not_in_other:
  assumes "ht_core t ns" "concat ns = A @ ns ! ht_idx t k @ B" "k \<in> fst ` set (concat ns)"
  shows "k \<in> fst ` set (ns ! ht_idx t k)"
proof -
  obtain c v where c: "c \<in> set ns" "(k, v) \<in> set c" using assms(3) by auto
  then obtain i where i: "i < length ns" "c = ns ! i" by (auto simp: in_set_conv_nth)
  with c have "ht_idx t k = i" using core_node [OF assms(1), of i "(k, v)"] by simp
  with c i show ?thesis by force
qed

lemma core_replace:
  assumes "ht_core t ns" "\<forall>kv \<in> set c. ht_key_ok t (fst kv) \<and> ht_val_ok t (snd kv) \<and> ht_idx t (fst kv) = i"
    and "i < length ns" "distinct (map fst (concat (ns[i := c])))"
  shows "ht_core (t\<lparr>ht_nodes := Some (ns[i := c])\<rparr>) (ns[i := c])"
  using assms by (auto simp: ht_core_def nth_list_update)

lemma ht_map_core: "ht_core t ns \<Longrightarrow> ht_map t = map_of (concat ns)"
  by (simp add: ht_core_def ht_map_def)

text \<open>A chain edited at a key changes the map at that key only.\<close>

lemma core_update:
  assumes core: "ht_core t ns" and k: "ht_key_ok t k" and v: "ht_val_ok t v"
    and c: "ns ! ht_idx t k = xs @ (k, w) # ys"
  defines "ns' \<equiv> ns[ht_idx t k := xs @ (k, v) # ys]"
  shows "ht_core (t\<lparr>ht_nodes := Some ns'\<rparr>) ns'" "length (concat ns') = length (concat ns)"
    and "map_of (concat ns') = (map_of (concat ns))(k \<mapsto> v)" "k \<in> dom (map_of (concat ns))"
proof -
  obtain A B where AB: "concat ns = A @ ns ! ht_idx t k @ B" "\<And>c. concat (ns[ht_idx t k := c]) = A @ c @ B"
    by (rule concat_split [OF ht_idx_less [OF core, of k]]) (rule that, assumption, simp)
  have d: "distinct (map fst (A @ (xs @ (k, w) # ys) @ B))"
    using core AB(1) c by (simp add: ht_core_def)
  have ns': "concat ns' = (A @ xs) @ (k, v) # (ys @ B)" "concat ns = (A @ xs) @ (k, w) # (ys @ B)"
    using AB c by (simp_all add: ns'_def)
  show "ht_core (t\<lparr>ht_nodes := Some ns'\<rparr>) ns'"
    unfolding ns'_def
  proof (rule core_replace [OF core _ ht_idx_less [OF core]])
    show "\<forall>kv \<in> set (xs @ (k, v) # ys). ht_key_ok t (fst kv) \<and> ht_val_ok t (snd kv) \<and> ht_idx t (fst kv) = ht_idx t k"
      using core_chain [OF core, where k = k] c k v by auto
    show "distinct (map fst (concat (ns[ht_idx t k := xs @ (k, v) # ys])))"
      using d AB(2) by simp
  qed
  show "length (concat ns') = length (concat ns)" using ns' by simp
  have nk: "k \<notin> fst ` set (A @ xs)" using d by auto
  show "map_of (concat ns') = (map_of (concat ns))(k \<mapsto> v)"
    unfolding ns' map_of_middle [OF nk] by simp
  show "k \<in> dom (map_of (concat ns))" unfolding ns'(2) by (simp add: dom_map_of_conv_image_fst)
qed

lemma core_push:
  assumes core: "ht_core t ns" and k: "ht_key_ok t k" and v: "ht_val_ok t v"
    and c: "k \<notin> fst ` set (ns ! ht_idx t k)"
  defines "ns' \<equiv> ns[ht_idx t k := (k, v) # ns ! ht_idx t k]"
  shows "ht_core (t\<lparr>ht_nodes := Some ns'\<rparr>) ns'" "length (concat ns') = Suc (length (concat ns))"
    and "map_of (concat ns') = (map_of (concat ns))(k \<mapsto> v)" "k \<notin> dom (map_of (concat ns))"
    and "mset (concat ns') = add_mset (k, v) (mset (concat ns))"
proof -
  obtain A B where AB: "concat ns = A @ ns ! ht_idx t k @ B" "\<And>c. concat (ns[ht_idx t k := c]) = A @ c @ B"
    by (rule concat_split [OF ht_idx_less [OF core, of k]]) (rule that, assumption, simp)
  have n: "k \<notin> fst ` set (concat ns)" using core_not_in_other [OF core AB(1)] c by blast
  then have nA: "k \<notin> fst ` set A" unfolding AB(1) by auto
  have ns': "concat ns' = A @ (k, v) # (ns ! ht_idx t k @ B)" using AB(2) by (simp add: ns'_def)
  show "ht_core (t\<lparr>ht_nodes := Some ns'\<rparr>) ns'"
    unfolding ns'_def
  proof (rule core_replace [OF core _ ht_idx_less [OF core]])
    show "\<forall>kv \<in> set ((k, v) # ns ! ht_idx t k). ht_key_ok t (fst kv) \<and> ht_val_ok t (snd kv) \<and> ht_idx t (fst kv) = ht_idx t k"
      using core_chain [OF core, where k = k] k v by auto
    have "distinct (map fst (concat ns))" using core by (simp add: ht_core_def)
    then show "distinct (map fst (concat (ns[ht_idx t k := (k, v) # ns ! ht_idx t k])))"
      using n unfolding AB by auto
  qed
  show "length (concat ns') = Suc (length (concat ns))" unfolding ns' AB(1) by simp
  show "map_of (concat ns') = (map_of (concat ns))(k \<mapsto> v)"
    unfolding ns' AB(1) by (rule map_of_middle [OF nA])
  show "k \<notin> dom (map_of (concat ns))" using n by (simp add: dom_map_of_conv_image_fst)
  show "mset (concat ns') = add_mset (k, v) (mset (concat ns))" unfolding ns' AB(1) by simp
qed

lemma core_delete:
  assumes core: "ht_core t ns" and k: "ht_key_ok t k"
    and c: "ns ! ht_idx t k = xs @ (k, w) # ys"
  defines "ns' \<equiv> ns[ht_idx t k := xs @ ys]"
  shows "ht_core (t\<lparr>ht_nodes := Some ns'\<rparr>) ns'" "Suc (length (concat ns')) = length (concat ns)"
    and "map_of (concat ns') = (map_of (concat ns))(k := None)" "k \<in> dom (map_of (concat ns))"
proof -
  obtain A B where AB: "concat ns = A @ ns ! ht_idx t k @ B" "\<And>c. concat (ns[ht_idx t k := c]) = A @ c @ B"
    by (rule concat_split [OF ht_idx_less [OF core, of k]]) (rule that, assumption, simp)
  have d: "distinct (map fst (A @ (xs @ (k, w) # ys) @ B))"
    using core AB(1) c by (simp add: ht_core_def)
  have ns': "concat ns' = (A @ xs) @ (ys @ B)" "concat ns = (A @ xs) @ (k, w) # (ys @ B)"
    using AB c by (simp_all add: ns'_def)
  show "ht_core (t\<lparr>ht_nodes := Some ns'\<rparr>) ns'"
    unfolding ns'_def
  proof (rule core_replace [OF core _ ht_idx_less [OF core]])
    show "\<forall>kv \<in> set (xs @ ys). ht_key_ok t (fst kv) \<and> ht_val_ok t (snd kv) \<and> ht_idx t (fst kv) = ht_idx t k"
      using core_chain [OF core, where k = k] c by auto
    show "distinct (map fst (concat (ns[ht_idx t k := xs @ ys])))"
      using d AB(2) by auto
  qed
  show "Suc (length (concat ns')) = length (concat ns)" using ns' by simp
  have nk: "k \<notin> fst ` set (A @ xs)" "k \<notin> fst ` set (concat ns')" using d unfolding ns' by auto
  then have "map_of (concat ns') k = None" by (simp add: map_of_eq_None_iff)
  then show "map_of (concat ns') = (map_of (concat ns))(k := None)"
    unfolding ns'(2) map_of_middle [OF nk(1)] ns'(1) [symmetric] by (simp add: fun_upd_idem)
  show "k \<in> dom (map_of (concat ns))" unfolding ns'(2) by (simp add: dom_map_of_conv_image_fst)
qed

section \<open>Resizing\<close>

text \<open>The sizes and functions of a table, which no resizing changes.\<close>

definition ht_same :: "HashTable \<Rightarrow> HashTable \<Rightarrow> bool" where
  "ht_same t t' \<longleftrightarrow> ht_key_size t' = ht_key_size t \<and> ht_value_size t' = ht_value_size t \<and> ht_size t' = ht_size t"

lemma ht_same_ok: "ht_same t t' \<Longrightarrow> ht_key_ok t' = ht_key_ok t \<and> ht_val_ok t' = ht_val_ok t"
  by (auto simp: ht_same_def ht_key_ok_def ht_val_ok_def fun_eq_iff)

lemma ht_rehash_core:
  assumes "ht_core t ns" "distinct (map fst (nodes @ concat ns))"
    and "\<forall>kv \<in> set nodes. ht_key_ok t (fst kv) \<and> ht_val_ok t (snd kv)"
  shows "\<exists>t' ns'. ht_rehash t nodes = Some t' \<and> ht_core t' ns' \<and> ht_same t t' \<and>
    ht_capacity t' = ht_capacity t \<and> mset (concat ns') = mset nodes + mset (concat ns)"
  using assms
proof (induction nodes arbitrary: t ns)
  case Nil
  then show ?case by (auto simp: ht_same_def)
next
  case (Cons kv nodes)
  let ?k = "fst kv"
  let ?ns = "ns[ht_idx t ?k := kv # ns ! ht_idx t ?k]"
  let ?t = "t\<lparr>ht_nodes := Some ?ns\<rparr>"
  have "set (ns ! ht_idx t ?k) \<subseteq> set (concat ns)"
    using nth_mem [OF ht_idx_less [OF Cons.prems(1), of ?k]] by auto
  moreover have "?k \<notin> fst ` set (concat ns)" using Cons.prems(2) by simp
  ultimately have k: "?k \<notin> fst ` set (ns ! ht_idx t ?k)" by blast
  have ok: "ht_key_ok t ?k" "ht_val_ok t (snd kv)" using Cons.prems(3) by simp_all
  have push: "ht_core ?t ?ns" "mset (concat ?ns) = add_mset kv (mset (concat ns))"
    using core_push(1,5) [OF Cons.prems(1) ok k] by (simp_all only: prod.collapse)
  note m = push(2)
  have "mset (map fst (nodes @ concat ?ns)) = mset (map fst ((kv # nodes) @ concat ns))" using m by simp
  then have "distinct (map fst (nodes @ concat ?ns))"
    using Cons.prems(2) mset_eq_imp_distinct_iff by blast
  moreover have "\<forall>kv \<in> set nodes. ht_key_ok ?t (fst kv) \<and> ht_val_ok ?t (snd kv)"
    using Cons.prems(3) by simp
  ultimately obtain t' ns' where IH: "ht_rehash ?t nodes = Some t'" "ht_core t' ns'" "ht_same ?t t'"
    "ht_capacity t' = ht_capacity ?t" "mset (concat ns') = mset nodes + mset (concat ?ns)"
    using Cons.IH [OF push(1)] by blast
  have "ht_rehash t (kv # nodes) = Some t'"
    using IH(1) by (simp add: ht_hash_index_core [OF Cons.prems(1)] ht_chain_core [OF Cons.prems(1)]
        ht_set_chain_core [OF Cons.prems(1)])
  moreover have "ht_same t t'" using IH(3) by (simp add: ht_same_def)
  moreover have "ht_capacity t' = ht_capacity t" using IH(4) by simp
  moreover have "mset (concat ns') = mset (kv # nodes) + mset (concat ns)" using IH(5) m by simp
  ultimately show ?case using IH(2) by blast
qed

lemma map_of_mset:
  assumes "mset xs = mset ys" "distinct (map fst xs)"
  shows "map_of xs = map_of ys"
proof -
  have "distinct (map fst ys)" using assms by (metis mset_eq_imp_distinct_iff mset_map)
  moreover have "set xs = set ys" using assms(1) by (rule mset_eq_setD)
  ultimately show ?thesis using assms(2) by (simp add: map_of_inject_set)
qed

lemma allocate_core:
  assumes "ht_core t ns" "n \<noteq> 0" "n < 2 ^ 61"
  shows "ht_core (snd (ht_allocate True t n)) (replicate (unat n) [])"
proof -
  have "unat (n * 8) = unat n * 8"
    using assms(3) by (simp add: unat_word_ariths word_less_nat_alt)
  then show ?thesis using assms(1,2) by (simp add: ht_core_def ht_allocate_def)
qed

lemma ht_resize_rehash:
  assumes "ht_nodes t = Some ns" "length ns = unat (ht_capacity t)" "\<not> (n < 8 \<and> \<not> ht_capacity t > 8)"
  shows "ht_resize True t n =
    map_option (Pair HT_SUCCESS) (ht_rehash (snd (ht_allocate True t (if n < 8 then 8 else n))) (concat ns))"
  using assms
  by (cases "n < 8"; cases "ht_rehash (snd (ht_allocate True t (if n < 8 then 8 else n))) (concat ns)")
     (simp_all add: ht_resize_def HT_MINIMUM_CAPACITY_def ht_allocate_def HT_SUCCESS_def HT_ERROR_def)

text \<open>With memory for the new array, resizing keeps every node.\<close>

lemma ht_resize_core:
  assumes "ht_core t ns" "n < 2 ^ 60"
  obtains t' ns' where "ht_resize True t n = Some (HT_SUCCESS, t')" "ht_core t' ns'" "ht_same t t'"
    "mset (concat ns') = mset (concat ns)"
    "ht_capacity t' = (if n < 8 \<and> \<not> ht_capacity t > 8 then ht_capacity t else if n < 8 then 8 else n)"
proof (cases "n < 8 \<and> \<not> ht_capacity t > 8")
  case True
  then have "ht_resize True t n = Some (HT_SUCCESS, t)" by (simp add: ht_resize_def HT_MINIMUM_CAPACITY_def)
  with True assms(1) that [of t ns] show ?thesis by (simp add: ht_same_def)
next
  case False
  define n' where "n' = (if n < 8 then 8 else n)"
  have n': "n' \<noteq> 0" "n' < 2 ^ 61" using assms(2) by (auto simp: n'_def word_less_nat_alt)
  let ?t = "snd (ht_allocate True t n')"
  have core: "ht_core ?t (replicate (unat n') [])" by (rule allocate_core [OF assms(1) n'])
  have same: "ht_same t ?t" by (simp add: ht_same_def ht_allocate_def)
  have "distinct (map fst (concat ns @ concat (replicate (unat n') [])))" using assms(1) by (simp add: ht_core_def)
  moreover have "ht_key_ok ?t (fst kv) \<and> ht_val_ok ?t (snd kv)" if kv: "kv \<in> set (concat ns)" for kv
  proof -
    obtain c where "c \<in> set ns" "kv \<in> set c" using kv by auto
    then obtain i where "i < length ns" "kv \<in> set (ns ! i)" by (metis in_set_conv_nth)
    then show ?thesis using core_node [OF assms(1)] ht_same_ok [OF same] by simp
  qed
  ultimately obtain t' ns' where t': "ht_rehash ?t (concat ns) = Some t'" "ht_core t' ns'" "ht_same ?t t'"
    "ht_capacity t' = n'" "mset (concat ns') = mset (concat ns)"
    using ht_rehash_core [OF core, of "concat ns"] by (auto simp: ht_allocate_def)
  have "ht_resize True t n = Some (HT_SUCCESS, t')"
    using t'(1) ht_resize_rehash [of t ns n] False assms(1) by (simp add: n'_def ht_core_def)
  moreover have "ht_same t t'" using t'(3) same by (simp add: ht_same_def)
  ultimately show ?thesis using t' False by (intro that [of t' ns']) (auto simp: n'_def)
qed

section \<open>Operations on the map\<close>

lemma ht_ok_core:
  assumes "ht_ok t"
  obtains ns where "ht_core t ns" "unat (ht_size t) = length (concat ns)" "ht_map t = map_of (concat ns)"
  using assms ht_map_core by (auto simp: ht_ok_def)

lemma ht_lookup_map: "ht_ok t \<Longrightarrow> ht_key_ok t k \<Longrightarrow> ht_lookup t k = Some (ht_map t k)"
proof -
  assume ok: "ht_ok t" and k: "ht_key_ok t k"
  obtain ns where core: "ht_core t ns" and m: "ht_map t = map_of (concat ns)"
    using ht_ok_core [OF ok] by metis
  have l: "ht_idx t k < length ns" by (rule ht_idx_less [OF core])
  have eq: "chain_find t k (ns ! ht_idx t k) = map_of (ns ! ht_idx t k) k"
    using core_chain(1) [OF core] by (intro chain_find_map_of [OF core k]) blast
  have "map_of (ns ! ht_idx t k) k = map_of (concat ns) k"
  proof (cases "k \<in> fst ` set (ns ! ht_idx t k)")
    case True
    then obtain v where v: "(k, v) \<in> set (ns ! ht_idx t k)" by auto
    then have "(k, v) \<in> set (concat ns)" using nth_mem [OF l] by auto
    moreover have d: "distinct (map fst (concat ns))" using core by (simp add: ht_core_def)
    moreover have "distinct (map fst (ns ! ht_idx t k))"
      using d nth_mem [OF l] by (auto simp: map_concat distinct_concat_iff)
    ultimately show ?thesis using v by simp
  next
    case False
    then have "k \<notin> fst ` set (concat ns)"
      by (metis concat_split core core_not_in_other l)
    with False show ?thesis by (simp add: map_of_eq_None_iff [THEN iffD2])
  qed
  with eq m show ?thesis
    by (simp add: ht_lookup_def ht_hash_index_core [OF core] ht_chain_core [OF core])
qed

text \<open>The part of \<open>ht_insert\<close> after the growth.\<close>

lemma ht_insert_core:
  assumes core: "ht_core t ns" and k: "ht_key_ok t k" and v: "ht_val_ok t v" and "ht_size t < ht_capacity t"
  obtains t' ns' where
    "ht_insert True True t k v = Some (if k \<in> dom (map_of (concat ns)) then HT_UPDATED else HT_INSERTED, t')"
    "ht_core t' ns'" "map_of (concat ns') = (map_of (concat ns))(k \<mapsto> v)"
    "length (concat ns') = length (concat ns) + (if k \<in> dom (map_of (concat ns)) then 0 else 1)"
    "ht_size t' = ht_size t + (if k \<in> dom (map_of (concat ns)) then 0 else 1)"
    "ht_capacity t' = ht_capacity t" "ht_key_ok t' = ht_key_ok t" "ht_val_ok t' = ht_val_ok t"
proof -
  have kl: "unat (ht_key_size t) = length k" "unat (ht_value_size t) = length v"
    using k v by (simp_all add: ht_key_ok_def ht_val_ok_def)
  have pre: "ht_is_initialized t" "ht_should_grow t = Some False"
    using core assms(4) by (auto simp: ht_core_def ht_is_initialized_def ht_should_grow_def)
  let ?c = "ns ! ht_idx t k"
  note step = ht_hash_index_core [OF core] ht_chain_core [OF core] ht_set_chain_core [OF core]
  have "\<forall>kv \<in> set ?c. ht_key_ok t (fst kv)" using core_chain(1) [OF core] by blast
  from chain_update_cases [OF core k this, of v] show ?thesis
  proof (elim disjE exE conjE)
    assume n: "k \<notin> fst ` set ?c" "chain_update t k v ?c = None"
    let ?ns = "ns[ht_idx t k := (k, v) # ?c]"
    note push = core_push [OF core k v n(1)]
    show ?thesis
    proof (rule that [of "t\<lparr>ht_nodes := Some ?ns, ht_size := ht_size t + 1\<rparr>" ?ns])
      show "ht_insert True True t k v = Some (if k \<in> dom (map_of (concat ns)) then HT_UPDATED else HT_INSERTED,
          t\<lparr>ht_nodes := Some ?ns, ht_size := ht_size t + 1\<rparr>)"
        using n push(4) pre kl
        by (simp add: ht_insert_def step ht_push_front_def ht_create_node_def HT_SUCCESS_def HT_ERROR_def)
    qed (use push in simp_all)
  next
    fix xs w ys
    assume u: "?c = xs @ (k, w) # ys" "chain_update t k v ?c = Some (xs @ (k, v) # ys)"
    let ?ns = "ns[ht_idx t k := xs @ (k, v) # ys]"
    note upd = core_update [OF core k v u(1)]
    show ?thesis
    proof (rule that [of "t\<lparr>ht_nodes := Some ?ns\<rparr>" ?ns])
      show "ht_insert True True t k v = Some (if k \<in> dom (map_of (concat ns)) then HT_UPDATED else HT_INSERTED,
          t\<lparr>ht_nodes := Some ?ns\<rparr>)"
        using u(2) upd(4) pre kl by (simp add: ht_insert_def step)
    qed (use upd in simp_all)
  qed
qed

text \<open>A table that has room for a growth.\<close>

definition ht_room :: "HashTable \<Rightarrow> bool" where
  "ht_room t \<longleftrightarrow> ht_capacity t < 2 ^ 59"

lemma unat_inc_below: "x < y \<Longrightarrow> unat (x + 1) = unat x + 1" for x y :: u64
  using unat_less_2p64 [of y] by (subst unat_add_nowrap) (simp_all add: word_less_nat_alt)

text \<open>A full table is grown first; the insertion goes on in the larger one.\<close>

lemma ht_insert_grow:
  assumes core: "ht_core t ns" and full: "ht_size t = ht_capacity t" and "8 \<le> ht_capacity t" "ht_room t"
  obtains t' ns' where "ht_core t' ns'" "ht_same t t'" "mset (concat ns') = mset (concat ns)"
    "ht_capacity t' = ht_capacity t * 2" "ht_size t' < ht_capacity t'"
    "\<forall>k v. ht_insert True True t k v = ht_insert True True t' k v"
proof -
  have two: "unat (ht_capacity t * 2) = unat (ht_capacity t) * 2"
    using assms(4) by (simp add: ht_room_def unat_word_ariths word_less_nat_alt)
  have big: "8 \<le> unat (ht_capacity t)" "unat (ht_capacity t) < 2 ^ 59"
    using assms(3,4) by (simp_all add: ht_room_def word_le_nat_alt word_less_nat_alt)
  have bnd: "ht_capacity t * 2 < 2 ^ 60" "\<not> ht_capacity t * 2 < 8"
    using two big by (simp_all add: word_less_nat_alt)
  obtain t' ns' where t': "ht_resize True t (ht_capacity t * 2) = Some (HT_SUCCESS, t')" "ht_core t' ns'" "ht_same t t'"
    "mset (concat ns') = mset (concat ns)" "ht_capacity t' = ht_capacity t * 2"
    using bnd(2) by (auto intro: ht_resize_core [OF core bnd(1)])
  have sz: "ht_size t' < ht_capacity t'"
    using t'(3,5) full two big by (simp add: ht_same_def word_less_nat_alt)
  have init: "ht_is_initialized t" "ht_is_initialized t'"
    using core t'(2) by (auto simp: ht_core_def ht_is_initialized_def)
  have g: "ht_should_grow t = Some True" "ht_should_grow t' = Some False"
    using full sz by (auto simp: ht_should_grow_def)
  have "ht_insert True True t k v = ht_insert True True t' k v" for k v
    using init g t'(1) full by (simp add: ht_insert_def ht_adjust_capacity_def HT_GROWTH_FACTOR_def)
  with t' sz show ?thesis by (intro that [of t' ns']) simp_all
qed

lemma ht_insert_ok_below:
  assumes "ht_core t ns" "unat (ht_size t) = length (concat ns)" "ht_size t < ht_capacity t" "8 \<le> ht_capacity t"
    and "ht_capacity t < 2 ^ 60" "ht_key_ok t k" "ht_val_ok t v"
  shows "\<exists>t'. ht_insert True True t k v =
      Some (if k \<in> dom (map_of (concat ns)) then HT_UPDATED else HT_INSERTED, t') \<and> ht_ok t' \<and>
    ht_map t' = (map_of (concat ns))(k \<mapsto> v) \<and> ht_key_ok t' = ht_key_ok t \<and> ht_val_ok t' = ht_val_ok t"
proof -
  obtain t' ns' where t':
    "ht_insert True True t k v = Some (if k \<in> dom (map_of (concat ns)) then HT_UPDATED else HT_INSERTED, t')"
    "ht_core t' ns'" "map_of (concat ns') = (map_of (concat ns))(k \<mapsto> v)"
    "length (concat ns') = length (concat ns) + (if k \<in> dom (map_of (concat ns)) then 0 else 1)"
    "ht_size t' = ht_size t + (if k \<in> dom (map_of (concat ns)) then 0 else 1)"
    "ht_capacity t' = ht_capacity t" "ht_key_ok t' = ht_key_ok t" "ht_val_ok t' = ht_val_ok t"
    by (rule ht_insert_core [OF assms(1,6,7,3)])
  have "unat (ht_size t') = length (concat ns')"
    unfolding t'(4,5) using assms(2) unat_inc_below [OF assms(3)] by (cases "k \<in> dom (map_of (concat ns))") simp_all
  moreover have "ht_size t' \<le> ht_capacity t'"
    unfolding t'(5,6) using assms(3) by (auto intro: inc_le)
  ultimately have "ht_ok t'" using t'(2,6) assms(4,5) by (auto simp: ht_ok_def)
  with t' ht_map_core [OF t'(2)] show ?thesis by auto
qed

lemma ht_insert_map:
  assumes ok: "ht_ok t" and "ht_room t" "ht_key_ok t k" "ht_val_ok t v"
  shows "\<exists>t'. ht_insert True True t k v =
      Some (if k \<in> dom (ht_map t) then HT_UPDATED else HT_INSERTED, t') \<and> ht_ok t' \<and>
    ht_map t' = (ht_map t)(k \<mapsto> v) \<and> ht_key_ok t' = ht_key_ok t \<and> ht_val_ok t' = ht_val_ok t"
proof -
  obtain ns where ns: "ht_core t ns" "unat (ht_size t) = length (concat ns)" "ht_map t = map_of (concat ns)"
    by (rule ht_ok_core [OF ok])
  have c: "8 \<le> ht_capacity t" "ht_capacity t < 2 ^ 60" "ht_size t \<le> ht_capacity t" using ok by (simp_all add: ht_ok_def)
  show ?thesis
  proof (cases "ht_size t < ht_capacity t")
    case True
    show ?thesis unfolding ns(3) by (rule ht_insert_ok_below [OF ns(1,2) True c(1,2) assms(3,4)])
  next
    case False
    then have full: "ht_size t = ht_capacity t" using c(3) by simp
    obtain t1 ns1 where t1: "ht_core t1 ns1" "ht_same t t1" "mset (concat ns1) = mset (concat ns)"
      "ht_capacity t1 = ht_capacity t * 2" "ht_size t1 < ht_capacity t1"
      and ins: "\<forall>k v. ht_insert True True t k v = ht_insert True True t1 k v"
      by (rule ht_insert_grow [OF ns(1) full c(1) assms(2)])
    have "unat (ht_capacity t * 2) = unat (ht_capacity t) * 2"
      using assms(2) by (simp add: ht_room_def unat_word_ariths word_less_nat_alt)
    then have cap: "8 \<le> ht_capacity t1" "ht_capacity t1 < 2 ^ 60"
      using c(1) assms(2) t1(4) by (simp_all add: ht_room_def word_le_nat_alt word_less_nat_alt)
    have sz: "unat (ht_size t1) = length (concat ns1)"
      using t1(2) ns(2) mset_eq_length [OF t1(3)] by (simp add: ht_same_def)
    have kv: "ht_key_ok t1 = ht_key_ok t" "ht_val_ok t1 = ht_val_ok t" using ht_same_ok [OF t1(2)] by auto
    have "map_of (concat ns1) = map_of (concat ns)"
      using t1(1) by (intro map_of_mset [OF t1(3)]) (simp add: ht_core_def)
    then show ?thesis
      using ht_insert_ok_below [OF t1(1) sz t1(5) cap, of k v] assms(3,4) ins kv ns(3) by simp
  qed
qed

lemma ht_should_shrink_empty: "ht_size t \<le> ht_capacity t \<Longrightarrow> ht_should_shrink t = Some (ht_size t = 0)"
  by (simp add: ht_should_shrink_def HT_SHRINK_THRESHOLD_def)

lemma bind_pair_Some: "Option.bind x (\<lambda>(r, t). Some (f r, t)) = map_option (\<lambda>(r, t). (f r, t)) x"
  by (cases x) auto

text \<open>After a removal: the table shrinks to the minimal capacity when it has become empty.\<close>

lemma ht_erase_found:
  assumes core: "ht_core t ns" and sz: "unat (ht_size t) = length (concat ns)" and cap: "ht_size t \<le> ht_capacity t"
    "8 \<le> ht_capacity t" "ht_capacity t < 2 ^ 60"
    and k: "ht_key_ok t k" and c: "ns ! ht_idx t k = xs @ (k, w) # ys" "chain_remove t k (ns ! ht_idx t k) = Some (xs @ ys)"
  shows "\<exists>t'. ht_erase True t k = Some (HT_SUCCESS, t') \<and> ht_ok t' \<and> ht_map t' = (ht_map t)(k := None) \<and>
    ht_key_ok t' = ht_key_ok t \<and> ht_val_ok t' = ht_val_ok t"
proof -
  let ?ns = "ns[ht_idx t k := xs @ ys]"
  let ?t = "t\<lparr>ht_nodes := Some ?ns, ht_size := ht_size t - 1\<rparr>"
  note del = core_delete [OF core k c(1)]
  have "unat (ht_size t) \<noteq> 0" unfolding sz using del(2) by linarith
  then have "ht_size t \<noteq> 0" by auto
  then have sz': "unat (ht_size t - 1) = length (concat ?ns)"
    using del(2) sz by (simp add: unat_minus_one)
  have le: "ht_size ?t \<le> ht_capacity ?t"
    using cap(1) sz' sz del(2) by (simp add: word_le_nat_alt)
  have core': "ht_core ?t ?ns" using del(1) by simp
  have m: "map_of (concat ?ns) = (ht_map t)(k := None)" using del(3) ht_map_core [OF core] by simp
  note step = ht_hash_index_core [OF core] ht_chain_core [OF core] ht_set_chain_core [OF core]
  have er: "ht_erase True t k = (if ht_size ?t = 0
      then map_option (\<lambda>(r, t). (if r = HT_ERROR then HT_ERROR else HT_SUCCESS, t)) (ht_adjust_capacity True ?t)
      else Some (HT_SUCCESS, ?t))"
    using c(2) ht_should_shrink_empty [OF le]
    by (simp add: ht_erase_def step bind_pair_Some)
  show ?thesis
  proof (cases "ht_size ?t = 0")
    case False
    have "ht_ok ?t" using core' sz' le cap by (auto simp: ht_ok_def)
    with False er m ht_map_core [OF core'] show ?thesis by simp
  next
    case True
    have "(0 :: u64) < 2 ^ 60" by simp
    then obtain t' ns' where t': "ht_resize True ?t 0 = Some (HT_SUCCESS, t')" "ht_core t' ns'" "ht_same ?t t'"
      "mset (concat ns') = mset (concat ?ns)"
      "ht_capacity t' = (if (0 :: u64) < 8 \<and> \<not> ht_capacity ?t > 8 then ht_capacity ?t else if (0 :: u64) < 8 then 8 else 0)"
      by (rule ht_resize_core [OF core'])
    have "ht_adjust_capacity True ?t = Some (HT_SUCCESS, t')"
      using True t'(1) by (simp add: ht_adjust_capacity_def)
    then have r: "ht_erase True t k = Some (HT_SUCCESS, t')" using er True by (simp add: HT_SUCCESS_def HT_ERROR_def)
    have "length (concat ns') = 0" using True sz' mset_eq_length [OF t'(4)] by simp
    moreover have "ht_size t' = 0" using t'(3) True by (simp add: ht_same_def)
    moreover have "8 \<le> ht_capacity t'" "ht_capacity t' < 2 ^ 60" using t'(5) cap by auto
    ultimately have "ht_ok t'" using t'(2) by (auto simp: ht_ok_def)
    moreover have "map_of (concat ns') = map_of (concat ?ns)"
      using t'(2) by (intro map_of_mset [OF t'(4)]) (simp add: ht_core_def)
    ultimately show ?thesis using r m ht_map_core [OF t'(2)] ht_same_ok [OF t'(3)] by simp
  qed
qed

lemma ht_erase_map:
  assumes ok: "ht_ok t" and k: "ht_key_ok t k"
  shows "\<exists>t'. ht_erase True t k = Some (if k \<in> dom (ht_map t) then HT_SUCCESS else HT_NOT_FOUND, t') \<and> ht_ok t' \<and>
    ht_map t' = (ht_map t)(k := None) \<and> ht_key_ok t' = ht_key_ok t \<and> ht_val_ok t' = ht_val_ok t"
proof -
  obtain ns where ns: "ht_core t ns" "unat (ht_size t) = length (concat ns)" "ht_map t = map_of (concat ns)"
    by (rule ht_ok_core [OF ok])
  have cap: "ht_size t \<le> ht_capacity t" "8 \<le> ht_capacity t" "ht_capacity t < 2 ^ 60" using ok by (simp_all add: ht_ok_def)
  have "\<forall>kv \<in> set (ns ! ht_idx t k). ht_key_ok t (fst kv)" using core_chain(1) [OF ns(1)] by blast
  from chain_remove_cases [OF ns(1) k this] show ?thesis
  proof (elim disjE exE conjE)
    assume n: "k \<notin> fst ` set (ns ! ht_idx t k)" "chain_remove t k (ns ! ht_idx t k) = None"
    have "k \<notin> fst ` set (concat ns)"
      using n(1) by (metis concat_split core_not_in_other ht_idx_less ns(1))
    then have "k \<notin> dom (ht_map t)" by (simp add: ns(3) dom_map_of_conv_image_fst)
    moreover from this have "ht_map t = (ht_map t)(k := None)" by (auto simp: fun_eq_iff domIff)
    moreover have "ht_erase True t k = Some (HT_NOT_FOUND, t)"
      using n(2) by (simp add: ht_erase_def ht_hash_index_core [OF ns(1)] ht_chain_core [OF ns(1)])
    ultimately show ?thesis using ok by auto
  next
    fix xs w ys
    assume c: "ns ! ht_idx t k = xs @ (k, w) # ys" "chain_remove t k (ns ! ht_idx t k) = Some (xs @ ys)"
    have "k \<in> dom (ht_map t)" using core_delete(4) [OF ns(1) k c(1)] ns(3) by simp
    then show ?thesis using ht_erase_found [OF ns(1,2) cap k c] by simp
  qed
qed

section \<open>The contract of a dictionary\<close>

text \<open>What a client of a dictionary relies on: lookups read an abstract map, insertions and
  removals change it at one key.\<close>

locale dictionary =
  fixes inv :: "'t \<Rightarrow> bool" and room :: "'t \<Rightarrow> bool"
    and key :: "'t \<Rightarrow> 'k \<Rightarrow> bool" and val :: "'t \<Rightarrow> 'v \<Rightarrow> bool"
    and abs :: "'t \<Rightarrow> 'k \<rightharpoonup> 'v"
    and lookup :: "'t \<Rightarrow> 'k \<Rightarrow> 'v option option"
    and insert :: "'t \<Rightarrow> 'k \<Rightarrow> 'v \<Rightarrow> (int \<times> 't) option"
    and erase :: "'t \<Rightarrow> 'k \<Rightarrow> (int \<times> 't) option"
  assumes lookup_abs: "inv t \<Longrightarrow> key t k \<Longrightarrow> lookup t k = Some (abs t k)"
    and insert_abs: "inv t \<Longrightarrow> room t \<Longrightarrow> key t k \<Longrightarrow> val t v \<Longrightarrow>
      \<exists>r t'. insert t k v = Some (r, t') \<and> inv t' \<and> abs t' = (abs t)(k \<mapsto> v) \<and> key t' = key t \<and> val t' = val t"
    and erase_abs: "inv t \<Longrightarrow> key t k \<Longrightarrow>
      \<exists>r t'. erase t k = Some (r, t') \<and> inv t' \<and> abs t' = (abs t)(k := None) \<and> key t' = key t \<and> val t' = val t"
begin

lemma lookup_insert:
  assumes "inv t" "room t" "key t k" "val t v" "key t k'"
  shows "\<exists>r t'. insert t k v = Some (r, t') \<and> inv t' \<and>
    lookup t' k' = (if k' = k then Some (Some v) else lookup t k')"
proof -
  obtain r t' where t': "insert t k v = Some (r, t')" "inv t'" "abs t' = (abs t)(k \<mapsto> v)" "key t' = key t"
    using insert_abs [OF assms(1-4)] by blast
  have "lookup t' k' = Some (abs t' k')" "lookup t k' = Some (abs t k')"
    using lookup_abs t'(2,4) assms(1,5) by simp_all
  with t' show ?thesis by auto
qed

lemma erase_insert:
  assumes "inv t" "room t" "key t k" "val t v" "abs t k = None"
  shows "\<exists>r t1 r' t2. insert t k v = Some (r, t1) \<and> erase t1 k = Some (r', t2) \<and> inv t2 \<and> abs t2 = abs t"
proof -
  obtain r t1 where t1: "insert t k v = Some (r, t1)" "inv t1" "abs t1 = (abs t)(k \<mapsto> v)" "key t1 = key t"
    using insert_abs [OF assms(1-4)] by blast
  moreover obtain r' t2 where t2: "erase t1 k = Some (r', t2)" "inv t2" "abs t2 = (abs t1)(k := None)"
    using erase_abs t1(2,4) assms(3) by metis
  moreover have "abs t2 = abs t" using t1(3) t2(3) assms(5) by (auto simp: fun_eq_iff)
  ultimately show ?thesis by blast
qed

end

interpretation hash_dict: dictionary ht_ok ht_room ht_key_ok ht_val_ok ht_map ht_lookup
    "ht_insert True True" "ht_erase True"
proof
  show "\<exists>r t'. ht_insert True True t k v = Some (r, t') \<and> ht_ok t' \<and> ht_map t' = (ht_map t)(k \<mapsto> v) \<and>
      ht_key_ok t' = ht_key_ok t \<and> ht_val_ok t' = ht_val_ok t"
    if "ht_ok t" "ht_room t" "ht_key_ok t k" "ht_val_ok t v" for t k v
    using ht_insert_map [OF that] by blast
  show "\<exists>r t'. ht_erase True t k = Some (r, t') \<and> ht_ok t' \<and> ht_map t' = (ht_map t)(k := None) \<and>
      ht_key_ok t' = ht_key_ok t \<and> ht_val_ok t' = ht_val_ok t"
    if "ht_ok t" "ht_key_ok t k" for t k
    using ht_erase_map [OF that] by blast
qed (rule ht_lookup_map)

section \<open>Properties\<close>

text \<open>A table of one-byte keys and values, as \<open>ht_setup\<close> makes it.\<close>

definition sample_table :: HashTable where
  "sample_table = snd (ht_setup True
     \<lparr>ht_size = 0, ht_threshold = 0, ht_capacity = 0, ht_key_size = 0, ht_value_size = 0,
      ht_compare = ht_default_compare, ht_hash = ht_default_hash, ht_nodes = None\<rparr> 1 1 8)"

lemma sample_table_eq:
  "sample_table = \<lparr>ht_size = 0, ht_threshold = 40, ht_capacity = 8, ht_key_size = 1, ht_value_size = 1,
     ht_compare = ht_default_compare, ht_hash = ht_default_hash, ht_nodes = Some (replicate 8 [])\<rparr>"
  by (simp add: sample_table_def ht_setup_def ht_allocate_def ht_consts)

lemma ht_setup_ok:
  assumes "capacity < 2 ^ 60"
  shows "ht_ok (snd (ht_setup True t ks vs capacity))" "ht_map (snd (ht_setup True t ks vs capacity)) = Map.empty"
proof -
  define n where "n = (if capacity < 8 then 8 else capacity)"
  have n: "8 \<le> n" "n < 2 ^ 60" using assms by (auto simp: n_def)
  then have "unat (n * 8) div 8 = unat n" by (simp add: unat_word_ariths word_less_nat_alt)
  then have eq: "snd (ht_setup True t ks vs capacity) = t\<lparr>ht_nodes := Some (replicate (unat n) []),
      ht_capacity := n, ht_threshold := n * 5, ht_key_size := ks, ht_value_size := vs,
      ht_hash := ht_default_hash, ht_compare := ht_default_compare, ht_size := 0\<rparr>"
    by (cases "capacity < 8") (simp_all add: ht_setup_def ht_allocate_def ht_consts n_def)
  have "ht_core (snd (ht_setup True t ks vs capacity)) (replicate (unat n) [])"
    unfolding eq using n by (auto simp: ht_core_def)
  moreover have "unat (ht_size (snd (ht_setup True t ks vs capacity))) = length (concat (replicate (unat n) []))"
    unfolding eq by simp
  ultimately show "ht_ok (snd (ht_setup True t ks vs capacity))"
    unfolding ht_ok_def using n by (auto simp: eq)
  show "ht_map (snd (ht_setup True t ks vs capacity)) = Map.empty"
    unfolding eq by (simp add: ht_map_def)
qed

lemma sample_table_ok: "ht_ok sample_table" "ht_map sample_table = Map.empty" "ht_room sample_table"
  unfolding sample_table_def by (rule ht_setup_ok, simp)+
    (simp add: ht_room_def ht_setup_def ht_allocate_def ht_consts)

lemma sample_table_fits [simp]:
  "ht_key_ok sample_table k \<longleftrightarrow> length k = 1" "ht_val_ok sample_table v \<longleftrightarrow> length v = 1"
  by (simp_all add: sample_table_eq ht_key_ok_def ht_val_ok_def)

text \<open>C24: \<open>ht_insert\<close> with memory at hand: on every well-formed table with room to grow, full or
  not, it returns, says whether the key was new, keeps the table well-formed, and updates the
  table's map at the key and nowhere else.\<close>

theorem ht_insert_refines:
  assumes "ht_ok t" "ht_room t" "ht_key_ok t k" "ht_val_ok t v"
  shows "\<exists>t'. ht_insert True True t k v =
      Some (if k \<in> dom (ht_map t) then HT_UPDATED else HT_INSERTED, t') \<and> ht_ok t' \<and>
    ht_map t' = (ht_map t)(k \<mapsto> v)"
  using ht_insert_map [OF assms] by blast

theorem ht_insert_refines_witness:
  "\<exists>t'. ht_insert True True sample_table [7] [9] = Some (HT_INSERTED, t') \<and> ht_ok t' \<and> ht_map t' = [[7] \<mapsto> [9]]"
  using ht_insert_refines [of sample_table "[7]" "[9]"] by (simp add: sample_table_ok)

text \<open>C25: \<open>ht_erase\<close> with memory at hand: on a well-formed table it returns, reports whether the key was there, keeps the
  table well-formed and removes the key from its map, also when the table becomes empty and
  shrinks.\<close>

theorem ht_erase_refines:
  assumes "ht_ok t" "ht_key_ok t k"
  shows "\<exists>t'. ht_erase True t k = Some (if k \<in> dom (ht_map t) then HT_SUCCESS else HT_NOT_FOUND, t') \<and>
    ht_ok t' \<and> ht_map t' = (ht_map t)(k := None)"
  using ht_erase_map [OF assms] by blast

theorem ht_erase_refines_witness:
  "\<exists>t t'. ht_insert True True sample_table [7] [9] = Some (HT_INSERTED, t) \<and>
    ht_erase True t [7] = Some (HT_SUCCESS, t') \<and> ht_ok t' \<and> ht_map t' = Map.empty"
proof -
  obtain t where "ht_insert True True sample_table [7] [9] = Some (HT_INSERTED, t)" "ht_ok t"
      "ht_map t = [[7] \<mapsto> [9]]" "ht_key_ok t = ht_key_ok sample_table"
    using ht_insert_map [of sample_table "[7]" "[9]"] by (auto simp: sample_table_ok)
  then show ?thesis using ht_erase_refines [of t "[7]"] by auto
qed

text \<open>Insert, then look up: the inserted key gives the inserted value, every other key what it
  gave before.\<close>

theorem ht_insert_lookup:
  assumes "ht_ok t" "ht_room t" "ht_key_ok t k" "ht_val_ok t v" "ht_key_ok t k'"
  shows "\<exists>r t'. ht_insert True True t k v = Some (r, t') \<and> ht_ok t' \<and>
    ht_lookup t' k' = (if k' = k then Some (Some v) else ht_lookup t k')"
  by (rule hash_dict.lookup_insert [OF assms])

theorem ht_insert_lookup_witness:
  "\<exists>r t'. ht_insert True True sample_table [7] [9] = Some (r, t') \<and> ht_ok t' \<and> ht_lookup t' [7] = Some (Some [9])"
  using ht_insert_lookup [of sample_table "[7]" "[9]" "[7]"] by (simp add: sample_table_ok)

text \<open>\<open>ht_swap\<close> leaves the capacities in place: swapping two well-formed tables of different
  capacity gives two tables that are not well-formed.\<close>

theorem ht_swap_breaks:
  assumes "ht_ok a" "ht_ok b" "ht_capacity a \<noteq> ht_capacity b"
  shows "\<exists>a' b'. ht_swap a b = Some (a', b') \<and> \<not> ht_ok a' \<and> \<not> ht_ok b'"
proof -
  obtain na where na: "ht_nodes a = Some na" "length na = unat (ht_capacity a)"
    using ht_ok_core [OF assms(1)] by (metis ht_core_def)
  obtain nb where nb: "ht_nodes b = Some nb" "length nb = unat (ht_capacity b)"
    using ht_ok_core [OF assms(2)] by (metis ht_core_def)
  have "unat (ht_capacity a) \<noteq> unat (ht_capacity b)" using assms(3) by (simp add: word_unat_eq_iff)
  with na nb show ?thesis by (simp add: ht_swap_def ht_is_initialized_def ht_ok_def ht_core_def)
qed

theorem ht_swap_breaks_witness:
  "\<exists>a' b'. ht_swap sample_table (snd (ht_setup True sample_table 1 1 16)) = Some (a', b') \<and> \<not> ht_ok a' \<and> \<not> ht_ok b'"
proof (rule ht_swap_breaks [OF sample_table_ok(1)])
  show "ht_ok (snd (ht_setup True sample_table 1 1 16))" by (rule ht_setup_ok) simp
  show "ht_capacity sample_table \<noteq> ht_capacity (snd (ht_setup True sample_table 1 1 16))"
    by (simp add: sample_table_eq ht_setup_def ht_allocate_def ht_consts)
qed

end
