(* ===== verification/Vring.thy ===== *)
theory Vring
  imports Kfs_Prelude
begin

text \<open>
  The ring buffers of \<open>include/vhost-user/vring.c\<close>: a table of descriptors, the ring of the
  available and the ring of the used ones, in memory that client and server share.

  The memory of a process is a record of four stores, one for each type of object the code reaches
  through a pointer: the bytes of the packet buffers, the descriptor tables, the available rings and
  the used rings. An address without an object (a null pointer among them) gives \<open>None\<close>, and
  objects of different types do not overlap. \<open>sync_shm\<close> has no effect on the contents of the memory.
\<close>

section \<open>Data\<close>

definition VHOST_VRING_SIZE :: nat where "VHOST_VRING_SIZE = 32 * 1024"
definition VIRTIO_DESC_F_NEXT :: u16 where "VIRTIO_DESC_F_NEXT = 1"
definition VIRTIO_DESC_F_WRITE :: u16 where "VIRTIO_DESC_F_WRITE = 2"
definition VRING_IDX_NONE :: u16 where "VRING_IDX_NONE = - 1"
definition VHOST_CLIENT_VRING_IDX_RX :: nat where "VHOST_CLIENT_VRING_IDX_RX = 0"
definition VHOST_CLIENT_VRING_IDX_TX :: nat where "VHOST_CLIENT_VRING_IDX_TX = 1"
definition VHOST_CLIENT_VRING_NUM :: nat where "VHOST_CLIENT_VRING_NUM = 2"

text \<open>The size of \<open>struct virtio_net_hdr\<close>: two bytes and four 16-bit numbers.\<close>

definition virtio_net_hdr_len :: nat where "virtio_net_hdr_len = 2 + 4 * 2"
definition ETH_PACKET_SIZE :: nat where "ETH_PACKET_SIZE = 1518"
definition BUFFER_SIZE :: nat where "BUFFER_SIZE = virtio_net_hdr_len + ETH_PACKET_SIZE"
definition BUFFER_ALIGNMENT :: u64 where "BUFFER_ALIGNMENT = 8"
definition ONEMEG :: u64 where "ONEMEG = 1024 * 1024"

definition ALIGN :: "u64 \<Rightarrow> u64 \<Rightarrow> u64" where
  "ALIGN v b = (v + b - 1) AND (- b)"

lemmas vring_consts = VHOST_VRING_SIZE_def VIRTIO_DESC_F_NEXT_def VIRTIO_DESC_F_WRITE_def
  VRING_IDX_NONE_def VHOST_CLIENT_VRING_IDX_RX_def VHOST_CLIENT_VRING_IDX_TX_def
  VHOST_CLIENT_VRING_NUM_def virtio_net_hdr_len_def ETH_PACKET_SIZE_def BUFFER_SIZE_def
  BUFFER_ALIGNMENT_def ONEMEG_def

record vring_desc =
  vd_addr :: u64
  vd_len :: u32
  vd_flags :: u16
  vd_next :: u16

record vring_avail =
  va_flags :: u16
  va_idx :: u16
  va_ring :: "u16 list"

record vring_used_elem =
  ue_id :: u32
  ue_len :: u32

record vring_used =
  vu_flags :: u16
  vu_idx :: u16
  vu_ring :: "vring_used_elem list"

text \<open>The offsets of the parts of \<open>struct vhost_vring\<close>, from the sizes and alignments of its
  members, and its size.\<close>

definition vhost_vring_desc :: u64 where "vhost_vring_desc = 2 * 4"
definition vhost_vring_avail :: u64 where
  "vhost_vring_avail = vhost_vring_desc + 16 * of_nat VHOST_VRING_SIZE"
definition vhost_vring_used :: u64 where
  "vhost_vring_used = ALIGN (vhost_vring_avail + 4 + 2 * of_nat VHOST_VRING_SIZE) 4096"
definition sizeof_vhost_vring :: u64 where
  "sizeof_vhost_vring = ALIGN (vhost_vring_used + 4 + 8 * of_nat VHOST_VRING_SIZE) 4096"

record Vring =
  vr_kickfd :: int
  vr_callfd :: int
  vr_desc :: u64
  vr_avail :: u64
  vr_used :: u64
  vr_num :: u32
  vr_last_avail_idx :: u16
  vr_last_used_idx :: u16

record vmem =
  vm_bytes :: "u64 \<Rightarrow> u8 option"
  vm_desc :: "u64 \<Rightarrow> vring_desc list option"
  vm_avail :: "u64 \<Rightarrow> vring_avail option"
  vm_used :: "u64 \<Rightarrow> vring_used option"

text \<open>A \<open>VringTable\<close> with the memory it points into. The handler of the table is an argument of the
  operations that call it; its context, of type \<open>'c\<close>, is threaded through them.\<close>

record VringTable =
  vt_vring :: "Vring list"
  vt_mem :: vmem

record 'c ProcessHandler =
  ph_avail_handler :: "(u8 list \<Rightarrow> u64 \<Rightarrow> 'c \<Rightarrow> (int \<times> 'c) option) option"
  ph_map_handler :: "('c \<Rightarrow> u64 \<Rightarrow> u64) option"

section \<open>Bytes of the memory\<close>

fun load :: "(u64 \<Rightarrow> u8 option) \<Rightarrow> u64 \<Rightarrow> nat \<Rightarrow> u8 list option" where
  "load m a 0 = Some []"
| "load m a (Suc n) = do { b \<leftarrow> m a; bs \<leftarrow> load m (a + 1) n; Some (b # bs) }"

fun store :: "(u64 \<Rightarrow> u8 option) \<Rightarrow> u64 \<Rightarrow> u8 list \<Rightarrow> (u64 \<Rightarrow> u8 option) option" where
  "store m a [] = Some m"
| "store m a (b # bs) = do { _ \<leftarrow> m a; store (m(a \<mapsto> b)) (a + 1) bs }"

definition map_addr :: "'c ProcessHandler \<Rightarrow> 'c \<Rightarrow> u64 \<Rightarrow> u64" where
  "map_addr h c a = (case ph_map_handler h of Some f \<Rightarrow> f c a | None \<Rightarrow> a)"

section \<open>Creating a ring\<close>

fun layout_desc :: "nat \<Rightarrow> nat \<Rightarrow> u64 \<Rightarrow> vring_desc list" where
  "layout_desc i 0 ptr = []"
| "layout_desc i (Suc n) ptr =
     (let ptr = ALIGN ptr BUFFER_ALIGNMENT
      in \<lparr>vd_addr = ptr, vd_len = of_nat BUFFER_SIZE, vd_flags = VIRTIO_DESC_F_WRITE,
          vd_next = of_nat (i + 1)\<rparr> # layout_desc (Suc i) n (ptr + of_nat BUFFER_SIZE))"

text \<open>The fields that are not set keep what the shared memory holds: the flags and the ring entries
  \<open>av\<close> and \<open>us\<close> of the two rings.\<close>

definition new_vring :: "u64 \<Rightarrow> vmem \<Rightarrow> (u64 \<times> vmem) option" where
  "new_vring base m = do {
     av \<leftarrow> vm_avail m (base + vhost_vring_avail);
     us \<leftarrow> vm_used m (base + vhost_vring_used);
     old \<leftarrow> vm_desc m (base + vhost_vring_desc);
     VALID (VHOST_VRING_SIZE \<le> length old);
     let desc = layout_desc 0 VHOST_VRING_SIZE (base + sizeof_vhost_vring);
     let desc = desc[VHOST_VRING_SIZE - 1 :=
                     (desc ! (VHOST_VRING_SIZE - 1))\<lparr>vd_next := VRING_IDX_NONE\<rparr>];
     Some (base, m\<lparr>vm_desc := (vm_desc m)(base + vhost_vring_desc \<mapsto> desc),
                   vm_avail := (vm_avail m)(base + vhost_vring_avail \<mapsto> av\<lparr>va_idx := 0\<rparr>),
                   vm_used := (vm_used m)(base + vhost_vring_used \<mapsto> us\<lparr>vu_idx := 0\<rparr>)\<rparr>)
   }"

text \<open>The addresses of the regions are the argument; the result is the table of the rings, or the
  return value \<open>-1\<close> when a region has a null address.\<close>

fun vring_table_loop :: "u64 list \<Rightarrow> vmem \<Rightarrow> (int \<times> u64 list \<times> vmem) option" where
  "vring_table_loop [] m = Some (0, [], m)"
| "vring_table_loop (base # bases) m = do {
     (vring, m) \<leftarrow> new_vring base m;
     if vring = 0 then Some (- 1, [], m)
     else do {
       (r, vrings, m) \<leftarrow> vring_table_loop bases m;
       Some (r, vring # vrings, m)
     }
   }"

definition vring_table_from_memory_region ::
    "nat \<Rightarrow> u64 list \<Rightarrow> vmem \<Rightarrow> (int \<times> u64 list \<times> vmem) option" where
  "vring_table_from_memory_region vring_table_num bases m = do {
     ASSERT (vring_table_num = length bases);
     vring_table_loop bases m
   }"

section \<open>The side that supplies buffers\<close>

definition vt_upd :: "nat \<Rightarrow> (Vring \<Rightarrow> Vring) \<Rightarrow> VringTable \<Rightarrow> VringTable" where
  "vt_upd i f t = t\<lparr>vt_vring := (vt_vring t)[i := f (vt_vring t ! i)]\<rparr>"

definition set_desc :: "u64 \<Rightarrow> vring_desc list \<Rightarrow> VringTable \<Rightarrow> VringTable" where
  "set_desc p ds t = t\<lparr>vt_mem := (vt_mem t)\<lparr>vm_desc := (vm_desc (vt_mem t))(p \<mapsto> ds)\<rparr>\<rparr>"

definition set_avail :: "u64 \<Rightarrow> vring_avail \<Rightarrow> VringTable \<Rightarrow> VringTable" where
  "set_avail p av t = t\<lparr>vt_mem := (vt_mem t)\<lparr>vm_avail := (vm_avail (vt_mem t))(p \<mapsto> av)\<rparr>\<rparr>"

definition set_used :: "u64 \<Rightarrow> vring_used \<Rightarrow> VringTable \<Rightarrow> VringTable" where
  "set_used p us t = t\<lparr>vt_mem := (vt_mem t)\<lparr>vm_used := (vm_used (vt_mem t))(p \<mapsto> us)\<rparr>\<rparr>"

definition set_bytes :: "(u64 \<Rightarrow> u8 option) \<Rightarrow> VringTable \<Rightarrow> VringTable" where
  "set_bytes bs t = t\<lparr>vt_mem := (vt_mem t)\<lparr>vm_bytes := bs\<rparr>\<rparr>"

definition put_vring ::
    "'c ProcessHandler \<Rightarrow> nat \<Rightarrow> u8 list \<Rightarrow> u64 \<Rightarrow> 'c \<Rightarrow> VringTable \<Rightarrow> (int \<times> VringTable) option" where
  "put_vring h v_idx buf sz c t = do {
     v \<leftarrow> index (vt_vring t) v_idx;
     let a_idx = vr_last_avail_idx v;
     desc \<leftarrow> vm_desc (vt_mem t) (vr_desc v);
     d \<leftarrow> index desc (unat a_idx);
     if sz > ucast (vd_len d) then Some (- 1, t)
     else do {
       let t = vt_upd v_idx (vr_last_avail_idx_update (\<lambda>_. vd_next d)) t;
       let dest_buf = map_addr h c (vd_addr d);
       bytes \<leftarrow> store (vm_bytes (vt_mem t)) dest_buf (replicate virtio_net_hdr_len 0);
       VALID (unat sz \<le> length buf);
       bytes \<leftarrow> store bytes (dest_buf + of_nat virtio_net_hdr_len) (take (unat sz) buf);
       let desc = desc[unat a_idx := d\<lparr>vd_len := ucast (of_nat virtio_net_hdr_len + sz),
                                       vd_flags := 0, vd_next := VRING_IDX_NONE\<rparr>];
       avail \<leftarrow> vm_avail (vt_mem t) (vr_avail v);
       slot \<leftarrow> cmod (ucast (va_idx avail)) (vr_num v);
       VALID (unat slot < length (va_ring avail));
       let avail = avail\<lparr>va_ring := (va_ring avail)[unat slot := a_idx], va_idx := va_idx avail + 1\<rparr>;
       Some (0, set_avail (vr_avail v) avail (set_desc (vr_desc v) desc (set_bytes bytes t)))
     }
   }"

definition free_vring :: "nat \<Rightarrow> u32 \<Rightarrow> VringTable \<Rightarrow> VringTable option" where
  "free_vring v_idx d_idx t = do {
     v \<leftarrow> index (vt_vring t) v_idx;
     let f_idx = vr_last_avail_idx v;
     ASSERT (unat d_idx < VHOST_VRING_SIZE);
     desc \<leftarrow> vm_desc (vt_mem t) (vr_desc v);
     d \<leftarrow> index desc (unat d_idx);
     let desc = desc[unat d_idx := d\<lparr>vd_len := of_nat BUFFER_SIZE,
                                     vd_flags := vd_flags d OR VIRTIO_DESC_F_WRITE,
                                     vd_next := f_idx\<rparr>];
     Some (vt_upd v_idx (vr_last_avail_idx_update (\<lambda>_. ucast d_idx)) (set_desc (vr_desc v) desc t))
   }"

partial_function (option) used_loop ::
    "nat \<Rightarrow> u64 \<Rightarrow> u32 \<Rightarrow> u16 \<Rightarrow> VringTable \<Rightarrow> (u16 \<times> VringTable) option" where
  "used_loop v_idx up num u_idx t = do {
     used \<leftarrow> vm_used (vt_mem t) up;
     if u_idx = vu_idx used then Some (u_idx, t)
     else do {
       e \<leftarrow> index (vu_ring used) (unat u_idx);
       t \<leftarrow> free_vring v_idx (ue_id e) t;
       u \<leftarrow> cmod (ucast u_idx + 1) num;
       used_loop v_idx up num (ucast u) t
     }
   }"

definition process_used_vring :: "nat \<Rightarrow> VringTable \<Rightarrow> (int \<times> VringTable) option" where
  "process_used_vring v_idx t = do {
     v \<leftarrow> index (vt_vring t) v_idx;
     (u_idx, t) \<leftarrow> used_loop v_idx (vr_used v) (vr_num v) (vr_last_used_idx v) t;
     Some (0, vt_upd v_idx (vr_last_used_idx_update (\<lambda>_. u_idx)) t)
   }"

section \<open>The side that consumes buffers\<close>

text \<open>The loop of \<open>process_desc\<close>: \<open>buf\<close> holds the \<open>len\<close> bytes copied so far. The sum
  \<open>len + cur_len\<close> is one of 32-bit numbers, and the copy must stay inside the array.\<close>

partial_function (option) gather_desc ::
    "'c ProcessHandler \<Rightarrow> 'c \<Rightarrow> vmem \<Rightarrow> vring_desc list \<Rightarrow> nat \<Rightarrow> u8 list \<Rightarrow> u8 list option" where
  "gather_desc h c m desc i buf = do {
     d \<leftarrow> index desc i;
     let len = (of_nat (length buf) :: u32);
     let cur_len = vd_len d;
     if unat (len + cur_len) < ETH_PACKET_SIZE then do {
       VALID (unat len + unat cur_len \<le> ETH_PACKET_SIZE);
       chunk \<leftarrow> load (vm_bytes m) (map_addr h c (vd_addr d)) (unat cur_len);
       if vd_flags d AND VIRTIO_DESC_F_NEXT \<noteq> 0
       then gather_desc h c m desc (unat (vd_next d)) (buf @ chunk)
       else Some (buf @ chunk)
     }
     else Some buf
   }"

text \<open>The header check only prints a warning. \<open>len - hdr_len\<close> is a \<open>size_t\<close> and wraps around for a
  packet shorter than the header; the handler gets the bytes of the packet behind the header.\<close>

definition process_desc ::
    "'c ProcessHandler \<Rightarrow> nat \<Rightarrow> u32 \<Rightarrow> 'c \<Rightarrow> VringTable \<Rightarrow> (int \<times> 'c \<times> VringTable) option" where
  "process_desc h v_idx a_idx c t = do {
     v \<leftarrow> index (vt_vring t) v_idx;
     desc \<leftarrow> vm_desc (vt_mem t) (vr_desc v);
     avail \<leftarrow> vm_avail (vt_mem t) (vr_avail v);
     u_idx \<leftarrow> cmod (ucast (vr_last_used_idx v)) (vr_num v);
     d_idx \<leftarrow> index (va_ring avail) (unat a_idx);
     buf \<leftarrow> gather_desc h c (vt_mem t) desc (unat d_idx) [];
     if buf = [] then Some (- 1, c, t)
     else do {
       used \<leftarrow> vm_used (vt_mem t) (vr_used v);
       VALID (unat u_idx < length (vu_ring used));
       let used = used\<lparr>vu_ring := (vu_ring used)[unat u_idx :=
                         \<lparr>ue_id = ucast d_idx, ue_len = of_nat (length buf)\<rparr>]\<rparr>;
       let t = set_used (vr_used v) used t;
       case ph_avail_handler h of
         None \<Rightarrow> Some (0, c, t)
       | Some f \<Rightarrow> do {
           (_, c) \<leftarrow> f (drop virtio_net_hdr_len buf)
                      (of_nat (length buf) - of_nat virtio_net_hdr_len) c;
           Some (0, c, t)
         }
     }
   }"

partial_function (option) avail_loop ::
    "'c ProcessHandler \<Rightarrow> nat \<Rightarrow> u16 \<Rightarrow> u32 \<Rightarrow> 'c \<Rightarrow> VringTable \<Rightarrow> (u32 \<times> 'c \<times> VringTable) option" where
  "avail_loop h v_idx a_idx count c t = do {
     v \<leftarrow> index (vt_vring t) v_idx;
     avail \<leftarrow> vm_avail (vt_mem t) (vr_avail v);
     if vr_last_avail_idx v = va_idx avail then Some (count, c, t)
     else do {
       (_, c, t) \<leftarrow> process_desc h v_idx (ucast a_idx) c t;
       a \<leftarrow> cmod (ucast a_idx + 1) (vr_num v);
       avail_loop h v_idx (ucast a) (count + 1) c
         (vt_upd v_idx (\<lambda>v. v\<lparr>vr_last_avail_idx := vr_last_avail_idx v + 1,
                              vr_last_used_idx := vr_last_used_idx v + 1\<rparr>) t)
     }
   }"

definition process_avail_vring ::
    "'c ProcessHandler \<Rightarrow> nat \<Rightarrow> 'c \<Rightarrow> VringTable \<Rightarrow> (u32 \<times> 'c \<times> VringTable) option" where
  "process_avail_vring h v_idx c t = do {
     v \<leftarrow> index (vt_vring t) v_idx;
     a_idx \<leftarrow> cmod (ucast (vr_last_avail_idx v)) (vr_num v);
     (count, c, t) \<leftarrow> avail_loop h v_idx (ucast a_idx) 0 c t;
     v \<leftarrow> index (vt_vring t) v_idx;
     used \<leftarrow> vm_used (vt_mem t) (vr_used v);
     Some (count, c, set_used (vr_used v) (used\<lparr>vu_idx := vr_last_used_idx v\<rparr>) t)
   }"

section \<open>Loads and stores\<close>

definition mapped :: "(u64 \<Rightarrow> u8 option) \<Rightarrow> u64 \<Rightarrow> nat \<Rightarrow> bool" where
  "mapped m a n \<longleftrightarrow> (\<forall>k<n. m (a + of_nat k) \<noteq> None)"

lemma load_Some:
  "load m a n = Some bs \<longleftrightarrow> length bs = n \<and> (\<forall>k<n. m (a + of_nat k) = Some (bs ! k))"
proof (induction n arbitrary: a bs)
  case (Suc n)
  show ?case
  proof (cases bs)
    case (Cons b bs')
    have "(\<forall>k<Suc n. m (a + of_nat k) = Some (bs ! k)) \<longleftrightarrow>
        m a = Some b \<and> (\<forall>k<n. m (a + 1 + of_nat k) = Some (bs' ! k))"
      by (subst All_less_Suc2) (simp add: Cons add.assoc)
    then show ?thesis
      using Suc.IH [of "a + 1" bs'] by (auto simp: Cons bind_eq_Some_conv)
  qed (simp add: bind_eq_Some_conv)
qed auto

lemma load_mapped: "mapped m a n \<Longrightarrow> \<exists>bs. load m a n = Some bs \<and> length bs = n"
proof -
  assume "mapped m a n"
  then have "load m a n = Some (map (\<lambda>k. the (m (a + of_nat k))) [0..<n])"
    by (auto simp: load_Some mapped_def)
  then show ?thesis by simp
qed

lemma store_append:
  "store m a (xs @ ys) = Option.bind (store m a xs) (\<lambda>m. store m (a + of_nat (length xs)) ys)"
  by (induction xs arbitrary: m a) (simp_all add: ac_simps split: bind_split)

lemma mapped_upd: "mapped m a n \<Longrightarrow> mapped (m(x \<mapsto> b)) a n"
  by (simp add: mapped_def)

lemma mapped_Suc: "mapped m a (Suc n) \<longleftrightarrow> m a \<noteq> None \<and> mapped m (a + 1) n"
  unfolding mapped_def by (subst All_less_Suc2) (simp add: add.assoc)

lemma store_mapped: "mapped m a (length bs) \<Longrightarrow> \<exists>m'. store m a bs = Some m'"
proof (induction bs arbitrary: m a)
  case (Cons b bs)
  then have "mapped (m(a \<mapsto> b)) (a + 1) (length bs)" by (simp add: mapped_Suc mapped_upd)
  then show ?case using Cons by (auto simp: mapped_Suc)
qed simp

lemma of_nat_neq_less:
  "i < 2 ^ 64 \<Longrightarrow> j < 2 ^ 64 \<Longrightarrow> i \<noteq> j \<Longrightarrow> (of_nat i :: u64) \<noteq> of_nat j"
  by (simp add: word_unat_eq_iff unat_of_nat)

lemma store_frame:
  "store m a bs = Some m' \<Longrightarrow> \<forall>k<length bs. x \<noteq> a + of_nat k \<Longrightarrow> m' x = m x"
proof (induction bs arbitrary: m a)
  case (Cons b bs)
  have "x \<noteq> a" "\<forall>k<length bs. x \<noteq> a + 1 + of_nat k"
    using Cons.prems(2) by (auto simp: All_less_Suc2 add.assoc)
  then show ?case using Cons.IH Cons.prems(1) by (fastforce simp: bind_eq_Some_conv)
qed simp

lemma store_same:
  assumes "store m a bs = Some m'" and "length bs \<le> 2 ^ 64" and "k < length bs"
  shows "m' (a + of_nat k) = Some (bs ! k)"
  using assms
proof (induction bs arbitrary: m a k)
  case (Cons b bs)
  obtain m1: "store (m(a \<mapsto> b)) (a + 1) bs = Some m'"
    using Cons.prems(1) by (auto simp: bind_eq_Some_conv)
  show ?case
  proof (cases k)
    case 0
    have "a \<noteq> a + 1 + of_nat j" if "j < length bs" for j
      using of_nat_neq_less [of 0 "Suc j"] that Cons.prems(2) by (simp add: add.assoc)
    then have "m' a = (m(a \<mapsto> b)) a" using store_frame [OF m1] by blast
    then show ?thesis using 0 by simp
  next
    case (Suc j)
    then show ?thesis
      using Cons.IH [OF m1, of j] Cons.prems by (simp add: add.assoc)
  qed
qed simp

lemma load_store:
  "store m a bs = Some m' \<Longrightarrow> length bs \<le> 2 ^ 64 \<Longrightarrow> load m' a (length bs) = Some bs"
  by (simp add: load_Some store_same)

section \<open>Fields of a table\<close>

lemma vt_simps [simp]:
  "vt_mem (vt_upd i f t) = vt_mem t"
  "vt_vring (set_desc p ds t) = vt_vring t"
  "vt_vring (set_avail p av t) = vt_vring t"
  "vt_vring (set_used p us t) = vt_vring t"
  "vt_vring (set_bytes bs t) = vt_vring t"
  "vm_bytes (vt_mem (set_desc p ds t)) = vm_bytes (vt_mem t)"
  "vm_avail (vt_mem (set_desc p ds t)) = vm_avail (vt_mem t)"
  "vm_used (vt_mem (set_desc p ds t)) = vm_used (vt_mem t)"
  "vm_desc (vt_mem (set_desc p ds t)) = (vm_desc (vt_mem t))(p \<mapsto> ds)"
  "vm_bytes (vt_mem (set_avail p av t)) = vm_bytes (vt_mem t)"
  "vm_desc (vt_mem (set_avail p av t)) = vm_desc (vt_mem t)"
  "vm_used (vt_mem (set_avail p av t)) = vm_used (vt_mem t)"
  "vm_avail (vt_mem (set_avail p av t)) = (vm_avail (vt_mem t))(p \<mapsto> av)"
  "vm_bytes (vt_mem (set_used p us t)) = vm_bytes (vt_mem t)"
  "vm_desc (vt_mem (set_used p us t)) = vm_desc (vt_mem t)"
  "vm_avail (vt_mem (set_used p us t)) = vm_avail (vt_mem t)"
  "vm_used (vt_mem (set_used p us t)) = (vm_used (vt_mem t))(p \<mapsto> us)"
  "vm_bytes (vt_mem (set_bytes bs t)) = bs"
  "vm_desc (vt_mem (set_bytes bs t)) = vm_desc (vt_mem t)"
  "vm_avail (vt_mem (set_bytes bs t)) = vm_avail (vt_mem t)"
  "vm_used (vt_mem (set_bytes bs t)) = vm_used (vt_mem t)"
  by (simp_all add: vt_upd_def set_desc_def set_avail_def set_used_def set_bytes_def)

lemma length_vt_upd [simp]: "length (vt_vring (vt_upd i f t)) = length (vt_vring t)"
  by (simp add: vt_upd_def)

lemma nth_vt_upd [simp]:
  "i < length (vt_vring t) \<Longrightarrow>
   vt_vring (vt_upd i f t) ! j = (if i = j then f (vt_vring t ! i) else vt_vring t ! j)"
  by (simp add: vt_upd_def)

lemma set_used_upd:
  "set_used p us (vt_upd i f (set_used p us' t)) = vt_upd i f (set_used p us t)"
  by (simp add: set_used_def vt_upd_def)

section \<open>The free list\<close>

lemma ucast_of_nat_u32: "(ucast (of_nat n :: u64) :: u32) = of_nat n"
  by (simp add: word_unat_eq_iff unsigned_ucast_eq unsigned_of_nat take_bit_take_bit)

text \<open>The free descriptors of the supplying side are chained through their \<open>next\<close> fields, from
  \<open>last_avail_idx\<close> on.\<close>

fun free_chain :: "vring_desc list \<Rightarrow> u16 \<Rightarrow> nat list \<Rightarrow> bool" where
  "free_chain ds a [] \<longleftrightarrow> a = VRING_IDX_NONE"
| "free_chain ds a (x # xs) \<longleftrightarrow> unat a = x \<and> x < length ds \<and> free_chain ds (vd_next (ds ! x)) xs"

definition free_list :: "nat \<Rightarrow> nat \<Rightarrow> VringTable \<Rightarrow> nat list \<Rightarrow> bool" where
  "free_list i n t xs \<longleftrightarrow> i < length (vt_vring t) \<and> n \<le> VHOST_VRING_SIZE \<and> distinct xs \<and>
     (\<exists>ds. vm_desc (vt_mem t) (vr_desc (vt_vring t ! i)) = Some ds \<and> length ds = n \<and>
           free_chain ds (vr_last_avail_idx (vt_vring t ! i)) xs)"

lemma unat_VRING_IDX_NONE: "unat VRING_IDX_NONE = 65535"
  by (simp add: VRING_IDX_NONE_def unsigned_minus_1_eq_mask mask_eq_exp_minus_1)

lemma free_chain_upd: "x \<notin> set xs \<Longrightarrow> free_chain (ds[x := d]) a xs \<longleftrightarrow> free_chain ds a xs"
  by (induction xs arbitrary: a) auto

text \<open>A successful \<open>put_vring\<close>, with the two copies as one store.\<close>

lemma put_vring_eq:
  assumes v: "i < length (vt_vring t)" "vt_vring t ! i = v"
    and ds: "vm_desc (vt_mem t) (vr_desc v) = Some ds" "unat (vr_last_avail_idx v) = a" "a < length ds"
    and sz: "length buf \<le> unat (vd_len (ds ! a))" 
    and st: "store (vm_bytes (vt_mem t)) (map_addr h c (vd_addr (ds ! a)))
               (replicate virtio_net_hdr_len 0 @ buf) = Some bytes"
    and av: "vm_avail (vt_mem t) (vr_avail v) = Some av" "vr_num v \<noteq> 0"
      "unat (ucast (va_idx av) mod vr_num v) < length (va_ring av)"
  shows "put_vring h i buf (of_nat (length buf)) c t =
    Some (0, set_avail (vr_avail v)
        (av\<lparr>va_ring := (va_ring av)[unat (ucast (va_idx av) mod vr_num v) := vr_last_avail_idx v],
            va_idx := va_idx av + 1\<rparr>)
      (set_desc (vr_desc v)
        (ds[a := (ds ! a)\<lparr>vd_len := of_nat (virtio_net_hdr_len + length buf), vd_flags := 0,
                           vd_next := VRING_IDX_NONE\<rparr>])
      (set_bytes bytes (vt_upd i (vr_last_avail_idx_update (\<lambda>_. vd_next (ds ! a))) t))))"
proof -
  have len: "length buf < 2 ^ 32" using sz unat_less_2p32 [of "vd_len (ds ! a)"] by simp
  then have n: "unat (of_nat (length buf) :: u64) = length buf" by (simp add: unat_of_nat)
  have le: "\<not> (of_nat (length buf) :: u64) > ucast (vd_len (ds ! a))"
    using sz by (simp add: word_less_nat_alt n unat_ucast_wider)
  obtain b1 where b1: "store (vm_bytes (vt_mem t)) (map_addr h c (vd_addr (ds ! a)))
        (replicate virtio_net_hdr_len 0) = Some b1"
      "store b1 (map_addr h c (vd_addr (ds ! a)) + of_nat virtio_net_hdr_len) buf = Some bytes"
    using st by (auto simp: store_append bind_eq_Some_conv)
  have "(ucast (of_nat virtio_net_hdr_len + of_nat (length buf) :: u64) :: u32) =
      of_nat (virtio_net_hdr_len + length buf)"
    by (simp only: of_nat_add [symmetric] ucast_of_nat_u32)
  then show ?thesis
    using v ds av b1 le n by (simp add: put_vring_def Let_def)
qed

section \<open>Consuming packets\<close>

text \<open>\<open>packet h c m ds i p\<close>: descriptor \<open>i\<close> alone holds a header and the packet \<open>p\<close>, and the two
  fit the buffer of \<open>process_desc\<close>.\<close>

definition packet ::
    "'c ProcessHandler \<Rightarrow> 'c \<Rightarrow> vmem \<Rightarrow> vring_desc list \<Rightarrow> nat \<Rightarrow> u8 list \<Rightarrow> bool" where
  "packet h c m ds i p \<longleftrightarrow> i < length ds \<and> vd_flags (ds ! i) AND VIRTIO_DESC_F_NEXT = 0 \<and>
     unat (vd_len (ds ! i)) = virtio_net_hdr_len + length p \<and>
     virtio_net_hdr_len + length p < ETH_PACKET_SIZE \<and>
     (\<exists>hdr. length hdr = virtio_net_hdr_len \<and>
            load (vm_bytes m) (map_addr h c (vd_addr (ds ! i))) (virtio_net_hdr_len + length p) =
              Some (hdr @ p))"

lemma gather_single:
  assumes "i < length ds" and "vd_flags (ds ! i) AND VIRTIO_DESC_F_NEXT = 0"
    and "unat (vd_len (ds ! i)) < ETH_PACKET_SIZE"
    and "load (vm_bytes m) (map_addr h c (vd_addr (ds ! i))) (unat (vd_len (ds ! i))) = Some chunk"
  shows "gather_desc h c m ds i [] = Some chunk"
  using assms by (subst gather_desc.simps) (simp add: Let_def)

definition deliver1 :: "'c ProcessHandler \<Rightarrow> u8 list \<Rightarrow> 'c \<Rightarrow> 'c option" where
  "deliver1 h p c = (case ph_avail_handler h of
     None \<Rightarrow> Some c
   | Some f \<Rightarrow> map_option snd (f p (of_nat (length p)) c))"

lemma process_desc_eq:
  assumes v: "i < length (vt_vring t)" "vt_vring t ! i = v"
    and ds: "vm_desc (vt_mem t) (vr_desc v) = Some ds"
    and av: "vm_avail (vt_mem t) (vr_avail v) = Some av" "unat a < length (va_ring av)"
    and us: "vm_used (vt_mem t) (vr_used v) = Some us" "vr_num v \<noteq> 0"
      "unat (vr_num v) \<le> length (vu_ring us)"
    and pk: "packet h c (vt_mem t) ds (unat (va_ring av ! unat a)) p"
    and dl: "deliver1 h p c = Some c'"
  shows "process_desc h i a c t =
    Some (0, c', set_used (vr_used v)
      (us\<lparr>vu_ring := (vu_ring us)[unat (ucast (vr_last_used_idx v) mod vr_num v) :=
             \<lparr>ue_id = ucast (va_ring av ! unat a), ue_len = of_nat (virtio_net_hdr_len + length p)\<rparr>]\<rparr>) t)"
proof -
  obtain hdr where hdr: "length hdr = virtio_net_hdr_len"
      "load (vm_bytes (vt_mem t)) (map_addr h c (vd_addr (ds ! unat (va_ring av ! unat a))))
         (virtio_net_hdr_len + length p) = Some (hdr @ p)"
    using pk by (auto simp: packet_def)
  then have g: "gather_desc h c (vt_mem t) ds (unat (va_ring av ! unat a)) [] = Some (hdr @ p)"
    using pk by (intro gather_single) (auto simp: packet_def)
  have "unat (ucast (vr_last_used_idx v) mod vr_num v) < unat (vr_num v)"
    using us(2) by (simp add: unat_mod unat_gt_0)
  then have u: "unat (ucast (vr_last_used_idx v) mod vr_num v) < length (vu_ring us)"
    using us(3) by simp
  have ne: "hdr @ p \<noteq> []" using hdr(1) by (auto simp: virtio_net_hdr_len_def)
  have n: "(of_nat (length (hdr @ p)) - of_nat virtio_net_hdr_len :: u64) = of_nat (length p)"
    by (simp add: hdr(1))
  show ?thesis
    using v ds av us(1,2) g u ne n dl
    by (auto simp: process_desc_def deliver1_def Let_def hdr(1) split: option.splits)
qed

definition advance :: "u16 \<Rightarrow> Vring \<Rightarrow> Vring" where
  "advance n v = v\<lparr>vr_last_avail_idx := vr_last_avail_idx v + n, vr_last_used_idx := vr_last_used_idx v + n\<rparr>"

lemma advance_simps [simp]:
  "vr_desc (advance n v) = vr_desc v" "vr_avail (advance n v) = vr_avail v"
  "vr_used (advance n v) = vr_used v" "vr_num (advance n v) = vr_num v"
  "vr_last_avail_idx (advance n v) = vr_last_avail_idx v + n"
  "vr_last_used_idx (advance n v) = vr_last_used_idx v + n"
  by (simp_all add: advance_def)

lemma avail_loop_done:
  "i < length (vt_vring t) \<Longrightarrow> vm_avail (vt_mem t) (vr_avail (vt_vring t ! i)) = Some av \<Longrightarrow>
   vr_last_avail_idx (vt_vring t ! i) = va_idx av \<Longrightarrow> avail_loop h i a n c t = Some (n, c, t)"
  by (subst avail_loop.simps) simp

lemma avail_loop_step:
  assumes "i < length (vt_vring t)" "vt_vring t ! i = v"
    and "vm_avail (vt_mem t) (vr_avail v) = Some av" "vr_last_avail_idx v \<noteq> va_idx av"
    and "process_desc h i (ucast a) c t = Some (r, c', t')" "vr_num v \<noteq> 0"
  shows "avail_loop h i a n c t =
    avail_loop h i (ucast ((ucast a + 1) mod vr_num v)) (n + 1) c' (vt_upd i (advance 1) t')"
  using assms by (subst avail_loop.simps) (simp add: advance_def [abs_def])

lemma unat_u16_u32: "unat (ucast (a :: u16) :: u32) = unat a"
  using unsigned_less [of a, where ?'a = nat] by (simp add: unsigned_ucast_eq take_bit_nat_eq_self)

lemma of_nat_neq_0_u16: "0 < n \<Longrightarrow> n < 2 ^ 16 \<Longrightarrow> (of_nat n :: u16) \<noteq> 0"
  by (simp add: word_unat_eq_iff unat_of_nat)

lemma next_slot:
  assumes "unat a < unat num" and "unat num \<le> VHOST_VRING_SIZE"
  shows "unat (ucast ((ucast (a :: u16) + 1 :: u32) mod num) :: u16) = (unat a + 1) mod unat num"
proof -
  have "unat (ucast a + 1 :: u32) = unat a + 1"
    using assms by (simp add: unat_word_ariths unat_u16_u32 VHOST_VRING_SIZE_def)
  moreover have "(unat a + 1) mod unat num < unat num"
    using assms(1) by (intro mod_less_divisor) simp
  then have "(unat a + 1) mod unat num < 2 ^ 16" using assms(2) by (simp add: VHOST_VRING_SIZE_def)
  ultimately show ?thesis by (simp add: unsigned_ucast_eq unat_mod take_bit_nat_eq_self)
qed

fun deliver :: "'c ProcessHandler \<Rightarrow> u8 list list \<Rightarrow> 'c \<Rightarrow> 'c option" where
  "deliver h [] c = Some c"
| "deliver h (p # ps) c = Option.bind (deliver1 h p c) (deliver h ps)"

lemma ring_slot:
  "unat (ucast (ucast (x :: u16) mod num :: u32) :: u16) = unat x mod unat num"
proof -
  have "unat x mod unat num < 2 ^ 16"
    using le_less_trans [OF mod_less_eq_dividend unsigned_less [of x, where ?'a = nat]] by simp
  moreover have "unat (ucast x mod num :: u32) = unat x mod unat num"
    by (simp only: unat_mod unat_u16_u32)
  ultimately show ?thesis by (simp add: unsigned_ucast_eq [where ?'b = 32] take_bit_nat_eq_self)
qed

definition ring_pos :: "Vring \<Rightarrow> nat \<Rightarrow> nat" where
  "ring_pos v k = (unat (vr_last_avail_idx v) + k) mod unat (vr_num v)"

text \<open>The queue a ring represents for the consumer \<open>i\<close>: the packets between the index it has
  reached and the index of the available ring.\<close>

definition pending :: "'c ProcessHandler \<Rightarrow> 'c \<Rightarrow> nat \<Rightarrow> VringTable \<Rightarrow> u8 list list \<Rightarrow> bool" where
  "pending h c i t ps \<longleftrightarrow> i < length (vt_vring t) \<and> length ps < 2 ^ 16 \<and>
     (let v = vt_vring t ! i
      in vr_num v \<noteq> 0 \<and> unat (vr_num v) \<le> VHOST_VRING_SIZE \<and>
         (\<exists>ds av us. vm_desc (vt_mem t) (vr_desc v) = Some ds \<and>
            vm_avail (vt_mem t) (vr_avail v) = Some av \<and> vm_used (vt_mem t) (vr_used v) = Some us \<and>
            unat (vr_num v) \<le> length (va_ring av) \<and> unat (vr_num v) \<le> length (vu_ring us) \<and>
            va_idx av = vr_last_avail_idx v + of_nat (length ps) \<and>
            (\<forall>k<length ps. packet h c (vt_mem t) ds (unat (va_ring av ! ring_pos v k)) (ps ! k))))"

lemma pendingI:
  assumes "i < length (vt_vring t)" "vt_vring t ! i = v" "length ps < 2 ^ 16"
    and "vr_num v \<noteq> 0" "unat (vr_num v) \<le> VHOST_VRING_SIZE"
    and "vm_desc (vt_mem t) (vr_desc v) = Some ds" "vm_avail (vt_mem t) (vr_avail v) = Some av"
      "vm_used (vt_mem t) (vr_used v) = Some us"
    and "unat (vr_num v) \<le> length (va_ring av)" "unat (vr_num v) \<le> length (vu_ring us)"
    and "va_idx av = vr_last_avail_idx v + of_nat (length ps)"
    and "\<And>k. k < length ps \<Longrightarrow> packet h c (vt_mem t) ds (unat (va_ring av ! ring_pos v k)) (ps ! k)"
  shows "pending h c i t ps"
  using assms by (auto simp: pending_def)

lemma pendingE:
  assumes "pending h c i t ps" and "vt_vring t ! i = v"
  obtains ds av us where "i < length (vt_vring t)" "length ps < 2 ^ 16"
    "vr_num v \<noteq> 0" "unat (vr_num v) \<le> VHOST_VRING_SIZE"
    "vm_desc (vt_mem t) (vr_desc v) = Some ds" "vm_avail (vt_mem t) (vr_avail v) = Some av"
    "vm_used (vt_mem t) (vr_used v) = Some us"
    "unat (vr_num v) \<le> length (va_ring av)" "unat (vr_num v) \<le> length (vu_ring us)"
    "va_idx av = vr_last_avail_idx v + of_nat (length ps)"
    "\<forall>k<length ps. packet h c (vt_mem t) ds (unat (va_ring av ! ring_pos v k)) (ps ! k)"
  using assms by (auto simp: pending_def)

lemma pending_Nil: "pending h c i t [] \<Longrightarrow> pending h c' i t []"
  by (simp add: pending_def)

lemma pending_sizes:
  "pending h c i t ps \<Longrightarrow> p \<in> set ps \<Longrightarrow> virtio_net_hdr_len + length p < ETH_PACKET_SIZE"
  by (auto simp: pending_def Let_def packet_def in_set_conv_nth)

text \<open>What the rings need of the owner of a table: its handler accepts every packet that fits the
  buffer, and does not change the mapping of addresses.\<close>

locale packet_sink =
  fixes h :: "'c ProcessHandler" and ok :: "'c \<Rightarrow> bool"
  assumes sink_accepts:
    "ok c \<Longrightarrow> virtio_net_hdr_len + length p < ETH_PACKET_SIZE \<Longrightarrow> \<exists>c'. deliver1 h p c = Some c' \<and> ok c'"
  and sink_map: "deliver1 h p c = Some c' \<Longrightarrow> map_addr h c' = map_addr h c"
begin

lemma packet_delivered:
  "deliver1 h p c = Some c' \<Longrightarrow> packet h c' m ds i q \<longleftrightarrow> packet h c m ds i q"
  using sink_map by (simp add: packet_def)

lemma avail_loop_packet:
  assumes "i < length (vt_vring t)" "vt_vring t ! i = v" "ok c"
    and "vm_desc (vt_mem t) (vr_desc v) = Some ds"
    and "vm_avail (vt_mem t) (vr_avail v) = Some av"
    and "vm_used (vt_mem t) (vr_used v) = Some us"
    and "unat (vr_num v) \<le> length (va_ring av)" "unat (vr_num v) \<le> length (vu_ring us)"
    and "unat a < unat (vr_num v)" "vr_last_avail_idx v \<noteq> va_idx av"
    and "packet h c (vt_mem t) ds (unat (va_ring av ! unat a)) p"
  obtains c' us' where "deliver1 h p c = Some c'" "ok c'"
    "vu_idx us' = vu_idx us" "length (vu_ring us') = length (vu_ring us)"
    "avail_loop h i a n c t = avail_loop h i (ucast ((ucast a + 1 :: u32) mod vr_num v)) (n + 1) c'
       (vt_upd i (advance 1) (set_used (vr_used v) us' t))"
proof -
  have num: "vr_num v \<noteq> 0" using assms(9) by auto
  obtain c' where c': "deliver1 h p c = Some c'" "ok c'"
    using sink_accepts [OF assms(3), of p] assms(11) by (auto simp: packet_def)
  define us' where "us' = us\<lparr>vu_ring := (vu_ring us)[unat (ucast (vr_last_used_idx v) mod vr_num v) :=
      \<lparr>ue_id = ucast (va_ring av ! unat a), ue_len = of_nat (virtio_net_hdr_len + length p)\<rparr>]\<rparr>"
  have "process_desc h i (ucast a) c t = Some (0, c', set_used (vr_used v) us' t)"
    unfolding us'_def
    using process_desc_eq [of i t v ds av "ucast a" us h c p c'] assms num c'(1)
    by (simp add: unat_u16_u32)
  then have "avail_loop h i a n c t =
      avail_loop h i (ucast ((ucast a + 1 :: u32) mod vr_num v)) (n + 1) c'
       (vt_upd i (advance 1) (set_used (vr_used v) us' t))"
    using avail_loop_step [of i t v av h a c 0 c' _ n] assms num by simp
  moreover have "vu_idx us' = vu_idx us" "length (vu_ring us') = length (vu_ring us)"
    by (simp_all add: us'_def)
  ultimately show thesis using that [OF c'] by blast
qed

lemma avail_loop_returns:
  assumes "i < length (vt_vring t)" "vt_vring t ! i = v" "ok c"
    and "vm_desc (vt_mem t) (vr_desc v) = Some ds"
    and "vm_avail (vt_mem t) (vr_avail v) = Some av"
    and "vm_used (vt_mem t) (vr_used v) = Some us"
    and "unat (vr_num v) \<le> length (va_ring av)" "unat (vr_num v) \<le> length (vu_ring us)"
    and "unat a < unat (vr_num v)" "unat (vr_num v) \<le> VHOST_VRING_SIZE" "length ps < 2 ^ 16"
    and "va_idx av = vr_last_avail_idx v + of_nat (length ps)"
    and "\<forall>k<length ps. packet h c (vt_mem t) ds
           (unat (va_ring av ! ((unat a + k) mod unat (vr_num v)))) (ps ! k)"
  shows "\<exists>c' us'. avail_loop h i a n c t = Some (n + of_nat (length ps), c',
        vt_upd i (advance (of_nat (length ps))) (set_used (vr_used v) us' t)) \<and>
      deliver h ps c = Some c' \<and> ok c' \<and> vu_idx us' = vu_idx us \<and>
      length (vu_ring us') = length (vu_ring us)"
  using assms
proof (induction ps arbitrary: t v c us a n)
  case Nil
  have "vt_upd i (advance 0) (set_used (vr_used v) us t) = t"
    using Nil(6) by (simp add: vt_upd_def advance_def set_used_def fun_upd_idem)
  then show ?case
    using Nil by (intro exI [of _ c] exI [of _ us]) (simp add: avail_loop_done)
next
  case (Cons p ps)
  have pk: "packet h c (vt_mem t) ds (unat (va_ring av ! unat a)) p"
    using Cons.prems(9,13) by (auto dest!: spec [of _ 0])
  have more: "vr_last_avail_idx v \<noteq> va_idx av"
    using Cons.prems(11,12) of_nat_neq_0_u16 [of "Suc (length ps)"] by auto
  define a1 :: u16 where "a1 = ucast ((ucast a + 1 :: u32) mod vr_num v)"
  obtain c' us1 where c': "deliver1 h p c = Some c'" "ok c'"
      "vu_idx us1 = vu_idx us" "length (vu_ring us1) = length (vu_ring us)"
    and step: "avail_loop h i a n c t = avail_loop h i a1 (n + 1) c'
       (vt_upd i (advance 1) (set_used (vr_used v) us1 t))"
    using avail_loop_packet [OF Cons.prems(1-9) more pk] unfolding a1_def by metis
  define t1 where "t1 = vt_upd i (advance 1) (set_used (vr_used v) us1 t)"
  have v1: "vt_vring t1 ! i = advance 1 v" "i < length (vt_vring t1)"
    using Cons.prems(1,2) by (simp_all add: t1_def)
  have a1: "unat a1 = (unat a + 1) mod unat (vr_num v)"
    unfolding a1_def by (rule next_slot [OF Cons.prems(9,10)])
  have "packet h c' (vt_mem t1) ds (unat (va_ring av ! ((unat a1 + k) mod unat (vr_num v)))) (ps ! k)"
    if "k < length ps" for k
  proof -
    have "packet h c (vt_mem t) ds (unat (va_ring av ! ((unat a1 + k) mod unat (vr_num v)))) (ps ! k)"
      using Cons.prems(13) that by (auto simp: a1 mod_simps dest: spec [of _ "Suc k"])
    then show ?thesis by (simp add: packet_delivered [OF c'(1)]) (simp add: packet_def t1_def)
  qed
  then obtain c2 us2 where c2: "avail_loop h i a1 (n + 1) c' t1 = Some (n + 1 + of_nat (length ps), c2,
        vt_upd i (advance (of_nat (length ps))) (set_used (vr_used v) us2 t1))"
      "deliver h ps c' = Some c2" "ok c2" "vu_idx us2 = vu_idx us1"
      "length (vu_ring us2) = length (vu_ring us1)"
    using Cons.IH [of t1 "advance 1 v" c' us1 a1 "n + 1"] v1 c' Cons.prems a1
      mod_less_divisor [of "unat (vr_num v)" "unat a + 1"]
    by (auto simp: t1_def add.assoc)
  have "vt_upd i (advance (of_nat (length ps))) (set_used (vr_used v) us2 t1) =
      vt_upd i (advance (of_nat (length (p # ps)))) (set_used (vr_used v) us2 t)"
    using Cons.prems(1) by (simp add: t1_def advance_def vt_upd_def set_used_def add.assoc)
  then show ?case using step c2 c' by (auto simp: add.assoc t1_def)
qed

lemma process_avail_returns:
  assumes p: "pending h c i t ps" and ok: "ok c"
  shows "\<exists>c' us'. process_avail_vring h i c t = Some (of_nat (length ps), c',
        vt_upd i (advance (of_nat (length ps))) (set_used (vr_used (vt_vring t ! i)) us' t)) \<and>
      deliver h ps c = Some c' \<and> ok c' \<and>
      vu_idx us' = vr_last_used_idx (vt_vring t ! i) + of_nat (length ps) \<and>
      pending h c' i (vt_upd i (advance (of_nat (length ps)))
        (set_used (vr_used (vt_vring t ! i)) us' t)) []"
proof -
  define v where "v = vt_vring t ! i"
  obtain ds av us where i: "i < length (vt_vring t)" and num: "length ps < 2 ^ 16" "vr_num v \<noteq> 0"
      "unat (vr_num v) \<le> VHOST_VRING_SIZE"
    and m: "vm_desc (vt_mem t) (vr_desc v) = Some ds"
      "vm_avail (vt_mem t) (vr_avail v) = Some av" "vm_used (vt_mem t) (vr_used v) = Some us"
      "unat (vr_num v) \<le> length (va_ring av)" "unat (vr_num v) \<le> length (vu_ring us)"
      "va_idx av = vr_last_avail_idx v + of_nat (length ps)"
      "\<forall>k<length ps. packet h c (vt_mem t) ds (unat (va_ring av ! ring_pos v k)) (ps ! k)"
    using p v_def [symmetric] by (rule pendingE)
  define a :: u16 where "a = ucast (ucast (vr_last_avail_idx v) mod vr_num v)"
  have a: "unat a = unat (vr_last_avail_idx v) mod unat (vr_num v)"
    unfolding a_def by (rule ring_slot)
  have lt: "unat a < unat (vr_num v)" using num(2) by (simp add: a unat_gt_0)
  obtain c' us' where r: "avail_loop h i a 0 c t = Some (of_nat (length ps), c',
        vt_upd i (advance (of_nat (length ps))) (set_used (vr_used v) us' t))"
      "deliver h ps c = Some c'" "ok c'" "length (vu_ring us') = length (vu_ring us)"
    using avail_loop_returns [OF i v_def [symmetric] ok m(1-5) lt num(3,1) m(6), of 0] m(7)
    by (auto simp: a mod_simps ring_pos_def)
  let ?us = "us'\<lparr>vu_idx := vr_last_used_idx v + of_nat (length ps)\<rparr>"
  have "process_avail_vring h i c t = Some (of_nat (length ps), c',
        vt_upd i (advance (of_nat (length ps))) (set_used (vr_used v) ?us t))"
    using i r(1) num(2) v_def [symmetric]
    by (simp add: process_avail_vring_def a_def [symmetric] set_used_upd)
  moreover have "pending h c' i (vt_upd i (advance (of_nat (length ps))) (set_used (vr_used v) ?us t)) []"
    using i v_def [symmetric] num m r(4)
    by (intro pendingI [where v = "advance (of_nat (length ps)) v" and ds = ds and av = av and us = ?us])
      simp_all
  ultimately show ?thesis
    using r(2,3) unfolding v_def [symmetric] by (intro exI [of _ c'] exI [of _ ?us]) simp
qed

end

section \<open>Supplying packets\<close>

definition queued :: "Vring \<Rightarrow> vring_avail \<Rightarrow> nat \<Rightarrow> nat set" where
  "queued v av n = (\<lambda>k. unat (va_ring av ! ring_pos v k)) ` {..<n}"

text \<open>The buffers of different descriptors do not overlap.\<close>

definition buffers_apart :: "'c ProcessHandler \<Rightarrow> 'c \<Rightarrow> vring_desc list \<Rightarrow> bool" where
  "buffers_apart h c ds \<longleftrightarrow> (\<forall>x<length ds. \<forall>y<length ds. x \<noteq> y \<longrightarrow>
     (\<forall>j<ETH_PACKET_SIZE. \<forall>k<ETH_PACKET_SIZE.
        map_addr h c (vd_addr (ds ! x)) + of_nat j \<noteq> map_addr h c (vd_addr (ds ! y)) + of_nat k))"

lemma packet_store:
  assumes "packet h c m ds x p" and "x \<noteq> a" "a < length ds" and "buffers_apart h c ds"
    and "store (vm_bytes m) (map_addr h c (vd_addr (ds ! a))) bs = Some bytes"
      "length bs < ETH_PACKET_SIZE" and "vm_bytes m' = bytes"
  shows "packet h c m' (ds[a := d]) x p"
proof -
  let ?x = "map_addr h c (vd_addr (ds ! x))"
  have "bytes (?x + of_nat j) = vm_bytes m (?x + of_nat j)"
    if "j < virtio_net_hdr_len + length p" for j
    using assms that store_frame [OF assms(5), of "?x + of_nat j"]
    by (auto simp: buffers_apart_def packet_def)
  then show ?thesis using assms(1,2,7) by (auto simp: packet_def load_Some)
qed

lemma packet_stored:
  assumes "store b (map_addr h c (vd_addr (ds ! a))) (replicate virtio_net_hdr_len 0 @ buf) =
      Some (vm_bytes m)"
    and "a < length ds" "virtio_net_hdr_len + length buf < ETH_PACKET_SIZE"
  shows "packet h c m (ds[a := (ds ! a)\<lparr>vd_len := of_nat (virtio_net_hdr_len + length buf),
    vd_flags := 0, vd_next := n\<rparr>]) a buf"
proof -
  have "load (vm_bytes m) (map_addr h c (vd_addr (ds ! a))) (virtio_net_hdr_len + length buf) =
      Some (replicate virtio_net_hdr_len 0 @ buf)"
    using load_store [OF assms(1)] assms(3) by (simp add: ETH_PACKET_SIZE_def)
  moreover have "unat (of_nat (virtio_net_hdr_len + length buf) :: u32) =
      virtio_net_hdr_len + length buf"
    using assms(3) by (simp only: unat_of_nat) (simp add: ETH_PACKET_SIZE_def)
  ultimately show ?thesis
    using assms(2,3) by (auto simp: packet_def intro!: exI [of _ "replicate virtio_net_hdr_len 0"])
qed

lemma ring_pos_less: "vr_num v \<noteq> 0 \<Longrightarrow> ring_pos v k < unat (vr_num v)"
  by (simp add: ring_pos_def unat_gt_0)

lemma ring_pos_inj: "k < n \<Longrightarrow> n < unat (vr_num v) \<Longrightarrow> ring_pos v k \<noteq> ring_pos v n"
proof -
  assume kn: "k < n" "n < unat (vr_num v)"
  have "\<not> unat (vr_num v) dvd (n - k)" using kn by (auto dest: dvd_imp_le)
  then show ?thesis
    using mod_eq_dvd_iff_nat [of "unat (vr_last_avail_idx v) + k" "unat (vr_last_avail_idx v) + n"
        "unat (vr_num v)"] kn
    by (auto simp: ring_pos_def eq_commute)
qed

text \<open>With a ring whose size divides \<open>2^16\<close> the free-running index of the producer and the stepping
  of the consumer agree on the next slot.\<close>

lemma ring_pos_next:
  assumes "unat (vr_num v) dvd 2 ^ 16"
  shows "unat (ucast (vr_last_avail_idx v + of_nat n) mod vr_num v) = ring_pos v n"
proof -
  have "unat (vr_last_avail_idx v + of_nat n) = (unat (vr_last_avail_idx v) + n) mod 2 ^ 16"
    by (simp add: unat_word_ariths unat_of_nat mod_simps)
  then show ?thesis
    using assms by (simp add: unat_mod unat_u16_u32 ring_pos_def mod_mod_cancel)
qed

text \<open>C12: A packet put into a ring by the supplying side joins the queue of the consuming side, behind
  the packets that are there, and the waiting packets keep their contents. The buffer of the first
  free descriptor holds a header of ten zero bytes followed by the bytes of the packet, and the
  supplying side goes on to the next free descriptor. The two sides have their own indices
  (entries \<open>p\<close> and \<open>q\<close> of the table) into the same ring.\<close>

theorem put_vring_enqueues:
  assumes pend: "pending h c q t ps"
    and p: "p < length (vt_vring t)" "p \<noteq> q" "vt_vring t ! p = vp" "vt_vring t ! q = vq"
    and shared: "vr_desc vp = vr_desc vq" "vr_avail vp = vr_avail vq" "vr_num vp = vr_num vq"
    and num: "unat (vr_num vq) dvd 2 ^ 16" "length ps < unat (vr_num vq)"
    and ds: "vm_desc (vt_mem t) (vr_desc vq) = Some ds" "unat (vr_last_avail_idx vp) = a" "a < length ds"
    and av: "vm_avail (vt_mem t) (vr_avail vq) = Some av" "a \<notin> queued vq av (length ps)"
    and len: "length buf \<le> unat (vd_len (ds ! a))" "virtio_net_hdr_len + length buf < ETH_PACKET_SIZE"
    and dest: "map_addr h' c' (vd_addr (ds ! a)) = map_addr h c (vd_addr (ds ! a))"
      "mapped (vm_bytes (vt_mem t)) (map_addr h c (vd_addr (ds ! a))) (virtio_net_hdr_len + length buf)"
      "buffers_apart h c ds"
  shows "\<exists>t'. put_vring h' p buf (of_nat (length buf)) c' t = Some (0, t') \<and>
    pending h c q t' (ps @ [buf]) \<and>
    load (vm_bytes (vt_mem t')) (map_addr h c (vd_addr (ds ! a))) (virtio_net_hdr_len + length buf) =
      Some (replicate virtio_net_hdr_len 0 @ buf) \<and>
    vt_vring t' = (vt_vring t)[p := vp\<lparr>vr_last_avail_idx := vd_next (ds ! a)\<rparr>]"
proof -
  obtain us where q: "q < length (vt_vring t)" "vr_num vq \<noteq> 0" "unat (vr_num vq) \<le> VHOST_VRING_SIZE"
    and us: "vm_used (vt_mem t) (vr_used vq) = Some us"
      "unat (vr_num vq) \<le> length (va_ring av)" "unat (vr_num vq) \<le> length (vu_ring us)"
      "va_idx av = vr_last_avail_idx vq + of_nat (length ps)"
      "\<forall>k<length ps. packet h c (vt_mem t) ds (unat (va_ring av ! ring_pos vq k)) (ps ! k)"
    using pend p(4) ds(1) av(1) by (auto elim!: pendingE)
  let ?hb = "replicate virtio_net_hdr_len 0 @ buf"
  obtain bytes where st: "store (vm_bytes (vt_mem t)) (map_addr h c (vd_addr (ds ! a))) ?hb = Some bytes"
    using store_mapped [of "vm_bytes (vt_mem t)" "map_addr h c (vd_addr (ds ! a))" ?hb] dest(2) by auto
  have pos: "unat (ucast (va_idx av) mod vr_num vq) = ring_pos vq (length ps)"
    unfolding us(4) by (rule ring_pos_next [OF num(1)])
  have lt: "ring_pos vq k < length (va_ring av)" for k
    using less_le_trans [OF ring_pos_less [OF q(2)] us(2)] .
  define ds' where "ds' = ds[a := (ds ! a)\<lparr>vd_len := of_nat (virtio_net_hdr_len + length buf),
      vd_flags := 0, vd_next := VRING_IDX_NONE\<rparr>]"
  define av' where "av' = av\<lparr>va_ring := (va_ring av)[ring_pos vq (length ps) := vr_last_avail_idx vp],
      va_idx := va_idx av + 1\<rparr>"
  define t' where "t' = set_avail (vr_avail vq) av' (set_desc (vr_desc vq) ds'
      (set_bytes bytes (vt_upd p (vr_last_avail_idx_update (\<lambda>_. vd_next (ds ! a))) t)))"
  have "put_vring h' p buf (of_nat (length buf)) c' t = Some (0, t')"
    using put_vring_eq [OF p(1,3), of ds a buf h' c' bytes av] shared ds av(1) len(1) st dest(1) q(2) lt
    by (simp add: t'_def ds'_def av'_def pos)
  moreover have pk: "packet h c (vt_mem t') ds' (unat (va_ring av' ! ring_pos vq k)) ((ps @ [buf]) ! k)"
    if k: "k < length (ps @ [buf])" for k
  proof (cases "k = length ps")
    case True
    then show ?thesis
      using packet_stored [of _ h c ds a buf "vt_mem t'" VRING_IDX_NONE] st ds(2,3) len(2) lt
      by (simp add: t'_def ds'_def av'_def)
  next
    case False
    then have kl: "k < length ps" using k by simp
    then have "unat (va_ring av ! ring_pos vq k) \<noteq> a" using av(2) by (auto simp: queued_def)
    then show ?thesis
      using packet_store [OF _ _ ds(3) dest(3) st] us(5) kl len(2) ring_pos_inj [OF kl num(2)]
      by (auto simp: t'_def ds'_def av'_def nth_append)
  qed
  moreover have "pending h c q t' (ps @ [buf])"
    using q us(1-4) p num(2) pk
    by (intro pendingI [where v = vq and ds = ds' and av = av' and us = us])
      (simp_all add: t'_def av'_def VHOST_VRING_SIZE_def)
  moreover have "load (vm_bytes (vt_mem t')) (map_addr h c (vd_addr (ds ! a))) (virtio_net_hdr_len + length buf) =
      Some ?hb"
    using load_store [OF st] len(2) by (simp add: t'_def ETH_PACKET_SIZE_def)
  moreover have "vt_vring t' = (vt_vring t)[p := vp\<lparr>vr_last_avail_idx := vd_next (ds ! a)\<rparr>]"
    using p(3) by (simp add: t'_def vt_upd_def)
  ultimately show ?thesis by blast
qed

section \<open>Taking buffers back\<close>

lemma free_vring_push:
  assumes "free_list i n t xs" and "unat d < n" "unat d \<notin> set xs"
  obtains t' where "free_vring i d t = Some t'" "free_list i n t' (unat d # xs)"
    "vm_used (vt_mem t') = vm_used (vt_mem t)"
proof -
  obtain ds where ds: "vm_desc (vt_mem t) (vr_desc (vt_vring t ! i)) = Some ds" "length ds = n"
      "free_chain ds (vr_last_avail_idx (vt_vring t ! i)) xs"
    and i: "i < length (vt_vring t)" "n \<le> VHOST_VRING_SIZE" "distinct xs"
    using assms(1) by (auto simp: free_list_def)
  have "unat (ucast d :: u16) = unat d"
    using assms(2) i(2) by (simp add: unsigned_ucast_eq take_bit_nat_eq_self VHOST_VRING_SIZE_def)
  then show thesis
    using that ds i assms(2,3)
    by (auto simp: free_vring_def Let_def free_list_def free_chain_upd)
qed

lemma used_loop_frees:
  assumes "free_list i n t xs" and "vm_used (vt_mem t) up = Some us"
    and "unat num \<le> length (vu_ring us)" "unat num \<le> VHOST_VRING_SIZE"
    and "unat u < unat num" "unat (vu_idx us) = (unat u + length es) mod unat num" "length es < unat num"
    and "\<forall>k<length es. unat (ue_id (vu_ring us ! ((unat u + k) mod unat num))) = es ! k"
    and "distinct (es @ xs)" "\<forall>e\<in>set es. e < n"
  shows "\<exists>t'. used_loop i up num u t = Some (vu_idx us, t') \<and> free_list i n t' (rev es @ xs)"
  using assms
proof (induction es arbitrary: t u xs)
  case Nil
  then have "u = vu_idx us" by (simp add: word_unat_eq_iff)
  then show ?case using Nil(1,2) by (subst used_loop.simps) simp
next
  case (Cons e es)
  define u1 :: u16 where "u1 = ucast ((ucast u + 1 :: u32) mod num)"
  have u1: "unat u1 = (unat u + 1) mod unat num"
    unfolding u1_def by (rule next_slot [OF Cons.prems(5,4)])
  have e: "unat (ue_id (vu_ring us ! unat u)) = e"
    using Cons.prems(5,8) by (auto dest!: spec [of _ 0])
  have "unat u \<noteq> unat (vu_idx us)"
  proof
    assume "unat u = unat (vu_idx us)"
    then have "(unat u + length (e # es)) mod unat num = unat u mod unat num"
      using Cons.prems(5,6) by simp
    then have "unat num dvd length (e # es)"
      using mod_eq_dvd_iff_nat [of "unat u" "unat u + length (e # es)" "unat num"] by simp
    then show False using Cons.prems(7) by (auto dest: dvd_imp_le)
  qed
  then have ne: "u \<noteq> vu_idx us" by auto
  obtain t1 where t1: "free_vring i (ue_id (vu_ring us ! unat u)) t = Some t1"
      "free_list i n t1 (e # xs)" "vm_used (vt_mem t1) = vm_used (vt_mem t)"
    using free_vring_push [OF Cons.prems(1), of "ue_id (vu_ring us ! unat u)"] Cons.prems(9,10)
    unfolding e by auto
  have "num \<noteq> 0" using Cons.prems(5) by auto
  then have step: "used_loop i up num u t = used_loop i up num u1 t1"
    using ne t1(1) Cons.prems(2,3,5) by (subst used_loop.simps) (simp add: u1_def)
  have "\<forall>k<length es. unat (ue_id (vu_ring us ! ((unat u1 + k) mod unat num))) = es ! k"
    using Cons.prems(8) by (auto simp: u1 mod_simps dest: spec [of _ "Suc k" for k])
  then show ?case
    using Cons.IH [OF t1(2), of u1] t1(3) Cons.prems step u1
      mod_less_divisor [of "unat num" "unat u + 1"]
    by (auto simp: mod_simps)
qed

text \<open>C31: Every descriptor the other side has used comes back to the free list, in the order of the
  used ring, and the call returns, as long as the index of the used ring stays below the size of
  the ring.\<close>

theorem process_used_vring_frees:
  assumes "free_list i n t xs" and "vt_vring t ! i = v" "vm_used (vt_mem t) (vr_used v) = Some us"
    and "unat (vr_num v) \<le> length (vu_ring us)" "unat (vr_num v) \<le> VHOST_VRING_SIZE"
    and "unat (vr_last_used_idx v) < unat (vr_num v)" "length es < unat (vr_num v)"
    and "unat (vu_idx us) = (unat (vr_last_used_idx v) + length es) mod unat (vr_num v)"
    and "\<forall>k<length es. unat (ue_id (vu_ring us !
           ((unat (vr_last_used_idx v) + k) mod unat (vr_num v)))) = es ! k"
    and "distinct (es @ xs)" "\<forall>e\<in>set es. e < n"
  shows "\<exists>t'. process_used_vring i t = Some (0, t') \<and> free_list i n t' (rev es @ xs) \<and>
    vr_last_used_idx (vt_vring t' ! i) = vu_idx us"
proof -
  have i: "i < length (vt_vring t)" using assms(1) by (simp add: free_list_def)
  obtain t' where t': "used_loop i (vr_used v) (vr_num v) (vr_last_used_idx v) t = Some (vu_idx us, t')"
      "free_list i n t' (rev es @ xs)"
    using used_loop_frees [OF assms(1,3-6,8,7,9-11)] by blast
  then have "i < length (vt_vring t')" by (simp add: free_list_def)
  then show ?thesis
    using i t' assms(2) by (auto simp: process_used_vring_def free_list_def)
qed

lemma free_vring_used: "free_vring i d t = Some t' \<Longrightarrow> vm_used (vt_mem t') = vm_used (vt_mem t)"
  by (auto simp: free_vring_def Let_def bind_eq_Some_conv split: if_splits)

lemma used_loop_stops:
  assumes "used_loop i up num u t = Some (u', t')" and "vm_used (vt_mem t) up = Some us"
  shows "u' = vu_idx us \<and> (u' = u \<or> unat u' < unat num)"
proof -
  define P :: "nat \<Rightarrow> u64 \<Rightarrow> u32 \<Rightarrow> u16 \<Rightarrow> VringTable \<Rightarrow> u16 \<times> VringTable \<Rightarrow> bool" where
    "P = (\<lambda>i up num u t r. vm_used (vt_mem t) up = Some us \<longrightarrow>
            fst r = vu_idx us \<and> (fst r = u \<or> unat (fst r) < unat num))"
  have "P i up num u t (u', t')"
  proof (rule used_loop.raw_induct [where P = P, OF _ assms(1)])
    fix loop and i up num u t r
    assume IH: "\<And>i up num u t r. loop i up num u t = Some r \<Longrightarrow> P i up num u t r"
      and body: "Option.bind (vm_used (vt_mem t) up) (\<lambda>used. if u = vu_idx used then Some (u, t)
          else Option.bind (index (vu_ring used) (unat u)) (\<lambda>e.
            Option.bind (free_vring i (ue_id e) t) (\<lambda>t.
              Option.bind (cmod (ucast u + 1) num) (\<lambda>w. loop i up num (ucast w) t)))) = Some r"
    show "P i up num u t r"
      unfolding P_def
    proof
      assume us: "vm_used (vt_mem t) up = Some us"
      show "fst r = vu_idx us \<and> (fst r = u \<or> unat (fst r) < unat num)"
      proof (cases "u = vu_idx us")
        case False
        then obtain t1 where t1: "free_vring i (ue_id (vu_ring us ! unat u)) t = Some t1"
            "loop i up num (ucast ((ucast u + 1 :: u32) mod num)) t1 = Some r" "num \<noteq> 0"
          using body us by (auto simp: bind_eq_Some_conv cmod_def split: if_splits)
        have "unat (ucast ((ucast u + 1 :: u32) mod num) :: u16) \<le> unat ((ucast u + 1 :: u32) mod num)"
          by (simp add: unsigned_ucast_eq take_bit_nat_less_eq_self)
        also have "\<dots> < unat num" using t1(3) by (simp add: unat_mod unat_gt_0)
        finally show ?thesis
          using IH [OF t1(2)] free_vring_used [OF t1(1)] us by (auto simp: P_def)
      qed (use body us in auto)
    qed
  qed
  then show ?thesis using assms(2) by (auto simp: P_def)
qed

text \<open>C40: Once the index of the used ring has reached the size of the ring, \<open>process_used_vring\<close> never
  returns: the index of the other side runs freely over 16 bits, while the loop steps modulo the
  size of the ring and can never meet it.\<close>

theorem process_used_vring_hangs:
  assumes "i < length (vt_vring t)" "vt_vring t ! i = v" "vm_used (vt_mem t) (vr_used v) = Some us"
    and "unat (vr_num v) \<le> unat (vu_idx us)" "vr_last_used_idx v \<noteq> vu_idx us"
  shows "process_used_vring i t = None"
proof (cases "used_loop i (vr_used v) (vr_num v) (vr_last_used_idx v) t")
  case None
  then show ?thesis using assms(1,2) by (simp add: process_used_vring_def)
next
  case (Some r)
  then show ?thesis
    using used_loop_stops [of i "vr_used v" "vr_num v" "vr_last_used_idx v" t "fst r" "snd r" us]
      assms(3-5) by auto
qed

text \<open>The free list as a stack: \<open>put_vring\<close> takes its first descriptor, and with no descriptor left
  it does not return an error but reads the descriptor table out of its bounds.\<close>

theorem put_vring_free_list:
  assumes "free_list i n t xs"
  shows "(\<forall>t'. put_vring h i buf sz c t = Some (0, t') \<longrightarrow> xs \<noteq> [] \<and> free_list i n t' (tl xs)) \<and>
    (xs = [] \<longrightarrow> put_vring h i buf sz c t = None)"
proof -
  obtain ds where ds: "vm_desc (vt_mem t) (vr_desc (vt_vring t ! i)) = Some ds" "length ds = n"
      "free_chain ds (vr_last_avail_idx (vt_vring t ! i)) xs"
    and i: "i < length (vt_vring t)" "n \<le> VHOST_VRING_SIZE" "distinct xs"
    using assms by (auto simp: free_list_def)
  show ?thesis
  proof (cases xs)
    case Nil
    then have "\<not> unat (vr_last_avail_idx (vt_vring t ! i)) < length ds"
      using ds(2,3) i(2) by (simp add: unat_VRING_IDX_NONE VHOST_VRING_SIZE_def)
    then show ?thesis using Nil ds(1) i(1) by (simp add: put_vring_def Let_def)
  next
    case (Cons a ys)
    then show ?thesis
      using ds i
      by (auto simp: put_vring_def Let_def bind_eq_Some_conv free_list_def free_chain_upd
          split: if_splits)
  qed
qed

section \<open>The layout of a new ring\<close>

lemma and_not_mask: "(w :: u64) AND NOT (mask k) = push_bit k (drop_bit k w)"
  by (rule bit_word_eqI) (auto simp: bit_simps)

lemma ALIGN_aligned:
  assumes "8 dvd unat v" and "unat v < 2 ^ 64 - 8"
  shows "ALIGN v BUFFER_ALIGNMENT = v"
proof -
  have m: "(- 8 :: u64) = NOT (mask 3)" by (simp add: mask_eq_exp_minus_1 not_eq_complement)
  obtain q where q: "unat v = 8 * q" using assms(1) by blast
  have v7: "unat (v + 7) = 8 * q + 7" using assms(2) by (simp add: unat_word_ariths q)
  have "ALIGN v BUFFER_ALIGNMENT = push_bit 3 (drop_bit 3 (v + 7))"
    unfolding ALIGN_def BUFFER_ALIGNMENT_def m by (simp add: and_not_mask flip: add_diff_eq)
  also have "\<dots> = 8 * ((v + 7) div 8)" by (simp add: push_bit_eq_mult drop_bit_eq_div)
  also have "\<dots> = v"
    using q unat_less_2p64 [of v] by (simp add: word_unat_eq_iff unat_word_ariths unat_div v7)
  finally show ?thesis .
qed

lemma length_layout_desc [simp]: "length (layout_desc i n ptr) = n"
  by (induction n arbitrary: i ptr) (simp_all add: Let_def)

lemma layout_desc_nth:
  assumes "8 dvd unat ptr" and "unat ptr + BUFFER_SIZE * n < 2 ^ 64 - 8" and "k < n"
  shows "layout_desc i n ptr ! k =
      \<lparr>vd_addr = ptr + of_nat (BUFFER_SIZE * k), vd_len = of_nat BUFFER_SIZE,
       vd_flags = VIRTIO_DESC_F_WRITE, vd_next = of_nat (i + k + 1)\<rparr>"
  using assms
proof (induction n arbitrary: i ptr k)
  case (Suc n)
  have al: "ALIGN ptr BUFFER_ALIGNMENT = ptr" using Suc.prems by (intro ALIGN_aligned) auto
  have step: "unat (ptr + of_nat BUFFER_SIZE) = unat ptr + BUFFER_SIZE"
    using Suc.prems(2) by (simp add: unat_word_ariths unat_of_nat BUFFER_SIZE_def vring_consts)
  have dvd: "8 dvd unat ptr + BUFFER_SIZE" using Suc.prems(1) by (simp add: vring_consts)
  show ?case
  proof (cases k)
    case (Suc j)
    then show ?thesis
      using Suc.IH [of "ptr + of_nat BUFFER_SIZE" j "Suc i"] Suc.prems step dvd
      by (simp add: al Let_def algebra_simps)
  qed (simp add: al Let_def)
qed simp

lemma free_chain_upto:
  assumes "\<forall>k<length ds - 1. vd_next (ds ! k) = of_nat (k + 1)"
    and "vd_next (ds ! (length ds - 1)) = VRING_IDX_NONE" and "length ds < 2 ^ 16" "a < length ds"
  shows "free_chain ds (of_nat a) [a..<length ds]"
  using assms(4)
proof (induction "length ds - a" arbitrary: a)
  case (Suc m)
  have a: "unat (of_nat a :: u16) = a" using Suc.prems assms(3) by (simp add: unat_of_nat)
  show ?case
  proof (cases "a = length ds - 1")
    case True
    then have "[a..<length ds] = [a]" using Suc.prems by (simp add: upt_rec)
    then show ?thesis using True Suc.prems assms(2) a by simp
  next
    case False
    then have "[a..<length ds] = a # [Suc a..<length ds]" "vd_next (ds ! a) = of_nat (Suc a)"
      using Suc.prems assms(1) by (simp_all add: upt_rec)
    then show ?thesis using Suc.hyps(1) [of "Suc a"] Suc.hyps(2) Suc.prems False a by simp
  qed
qed simp

definition VHOST_CLIENT_PAGE_SIZE :: u64 where
  "VHOST_CLIENT_PAGE_SIZE =
     ALIGN (sizeof_vhost_vring + of_nat BUFFER_SIZE * of_nat VHOST_VRING_SIZE) ONEMEG"

lemma vring_sizes:
  "vhost_vring_desc = 8" "vhost_vring_avail = 524296" "vhost_vring_used = 593920"
  "sizeof_vhost_vring = 860160" "VHOST_CLIENT_PAGE_SIZE = 51380224"
  by (simp_all add: vhost_vring_desc_def vhost_vring_avail_def vhost_vring_used_def
      sizeof_vhost_vring_def VHOST_CLIENT_PAGE_SIZE_def ALIGN_def vring_consts)

text \<open>C30: A new ring in a page-aligned region of \<open>VHOST_CLIENT_PAGE_SIZE\<close> bytes: the buffers of its
  descriptors lie one behind the other behind the ring and inside the region, every descriptor
  has the size of a buffer, and all of them are free, in order.\<close>

theorem new_vring_layout:
  assumes "new_vring base m = Some (r, m')"
    and "4096 dvd unat base" "unat base + unat VHOST_CLIENT_PAGE_SIZE < 2 ^ 64"
  shows "\<exists>ds. vm_desc m' (base + vhost_vring_desc) = Some ds \<and> length ds = VHOST_VRING_SIZE \<and>
    (\<forall>i<VHOST_VRING_SIZE. vd_len (ds ! i) = of_nat BUFFER_SIZE \<and>
       unat (vd_addr (ds ! i)) = unat base + unat sizeof_vhost_vring + BUFFER_SIZE * i \<and>
       unat (vd_addr (ds ! i)) + BUFFER_SIZE \<le> unat base + unat VHOST_CLIENT_PAGE_SIZE) \<and>
    free_chain ds 0 [0..<VHOST_VRING_SIZE]"
proof -
  let ?ptr = "base + sizeof_vhost_vring"
  define ds0 where "ds0 = layout_desc 0 VHOST_VRING_SIZE ?ptr"
  define ds where "ds = ds0[VHOST_VRING_SIZE - 1 :=
      (ds0 ! (VHOST_VRING_SIZE - 1))\<lparr>vd_next := VRING_IDX_NONE\<rparr>]"
  have ds: "vm_desc m' (base + vhost_vring_desc) = Some ds"
    using assms(1)
    by (auto simp: new_vring_def Let_def bind_eq_Some_conv ds_def ds0_def split: if_splits)
  have ptr: "unat ?ptr = unat base + 860160"
    using assms(3) by (simp add: vring_sizes unat_word_ariths)
  have base: "unat base + 51380224 < 2 ^ 64" using assms(3) by (simp add: vring_sizes)
  have "8 dvd unat base" using assms(2) by (rule dvd_trans [rotated]) simp
  then have "8 dvd unat ?ptr" unfolding ptr by (rule dvd_add) simp
  then have nth0: "ds0 ! k = \<lparr>vd_addr = ?ptr + of_nat (BUFFER_SIZE * k), vd_len = of_nat BUFFER_SIZE,
      vd_flags = VIRTIO_DESC_F_WRITE, vd_next = of_nat (k + 1)\<rparr>" if "k < VHOST_VRING_SIZE" for k
    unfolding ds0_def using layout_desc_nth [of ?ptr VHOST_VRING_SIZE k 0] that base ptr
    by (simp add: vring_consts)
  have nth: "vd_addr (ds ! k) = ?ptr + of_nat (BUFFER_SIZE * k)" "vd_len (ds ! k) = of_nat BUFFER_SIZE"
      "vd_next (ds ! k) = (if k = VHOST_VRING_SIZE - 1 then VRING_IDX_NONE else of_nat (k + 1))"
    if "k < VHOST_VRING_SIZE" for k
    using that nth0 [OF that] by (simp_all add: ds_def ds0_def nth_list_update)
  have len: "length ds = VHOST_VRING_SIZE" by (simp add: ds_def ds0_def)
  have "unat (vd_addr (ds ! k)) = unat base + 860160 + BUFFER_SIZE * k" if "k < VHOST_VRING_SIZE" for k
    using that base by (simp add: nth(1)) (simp add: unat_word_ariths unat_of_nat vring_consts vring_sizes)
  moreover have "free_chain ds 0 [0..<VHOST_VRING_SIZE]"
    using free_chain_upto [of ds 0] nth(3) by (simp add: len vring_consts)
  ultimately show ?thesis
    using ds len nth(2) by (auto simp: vring_sizes vring_consts)
qed

section \<open>Concrete rings\<close>

text \<open>A ring of two descriptors at the addresses 16, 32 and 48; entry 0 of the table is the consuming
  side, entry 1 the supplying side, with descriptor 0 free and descriptor 1 behind it. The handler
  has no functions.\<close>

definition sample_desc :: "u64 \<Rightarrow> u16 \<Rightarrow> vring_desc" where
  "sample_desc a n = \<lparr>vd_addr = a, vd_len = of_nat BUFFER_SIZE, vd_flags = 2, vd_next = n\<rparr>"

definition sample_side :: "u16 \<Rightarrow> Vring" where
  "sample_side a = \<lparr>vr_kickfd = 5, vr_callfd = 6, vr_desc = 16, vr_avail = 32, vr_used = 48, vr_num = 2,
     vr_last_avail_idx = a, vr_last_used_idx = 0\<rparr>"

definition sample_rings :: "vring_desc list \<Rightarrow> u16 \<Rightarrow> vring_used \<Rightarrow> VringTable" where
  "sample_rings ds a us = \<lparr>vt_vring = [sample_side 0, sample_side a],
     vt_mem = \<lparr>vm_bytes = (\<lambda>_. Some 0), vm_desc = [16 \<mapsto> ds],
                vm_avail = [32 \<mapsto> \<lparr>va_flags = 0, va_idx = 0, va_ring = [0, 0]\<rparr>],
                vm_used = [48 \<mapsto> us]\<rparr>\<rparr>"

definition sample_used :: "u16 \<Rightarrow> vring_used" where
  "sample_used n = \<lparr>vu_flags = 0, vu_idx = n,
     vu_ring = [\<lparr>ue_id = 0, ue_len = 60\<rparr>, \<lparr>ue_id = 0, ue_len = 0\<rparr>]\<rparr>"

definition sample_handler :: "unit ProcessHandler" where
  "sample_handler = \<lparr>ph_avail_handler = None, ph_map_handler = None\<rparr>"

lemmas sample_ring_defs = sample_desc_def sample_side_def sample_rings_def sample_used_def
  sample_handler_def

definition sample_table2 :: "vring_desc list" where
  "sample_table2 = [sample_desc 0x1000 1, sample_desc 0x2000 VRING_IDX_NONE]"

lemma sample_pending: "pending sample_handler () 0 (sample_rings ds a (sample_used n)) []"
  by (simp add: pending_def Let_def sample_ring_defs vring_consts)

lemma sample_apart: "buffers_apart sample_handler () sample_table2"
proof -
  have "(0x1000 :: u64) + of_nat j \<noteq> 0x2000 + of_nat k" if "j < 1518" "k < 1518" for j k
  proof
    assume "(0x1000 :: u64) + of_nat j = 0x2000 + of_nat k"
    then have "unat (0x1000 + of_nat j :: u64) = unat (0x2000 + of_nat k :: u64)" by simp
    then show False using that by (simp add: unat_word_ariths unat_of_nat)
  qed
  then show ?thesis
    by (auto simp: buffers_apart_def sample_table2_def sample_ring_defs map_addr_def less_Suc_eq
        numeral_2_eq_2 ETH_PACKET_SIZE_def eq_commute)
qed

theorem put_vring_enqueues_witness:
  "\<exists>t'. put_vring sample_handler 1 [7, 8] 2 () (sample_rings sample_table2 0 (sample_used 0)) =
      Some (0, t') \<and> pending sample_handler () 0 t' [[7, 8]] \<and>
      load (vm_bytes (vt_mem t')) 0x1000 12 = Some [0, 0, 0, 0, 0, 0, 0, 0, 0, 0, 7, 8] \<and>
      vr_last_avail_idx (vt_vring t' ! 1) = 1"
proof -
  have "replicate 10 0 = [0, 0, 0, 0, 0, 0, 0, 0, 0, 0 :: u8]" by (simp add: numeral_eq_Suc)
  then show ?thesis
    using put_vring_enqueues [of sample_handler "()" 0 "sample_rings sample_table2 0 (sample_used 0)" "[]"
        1 "sample_side 0" "sample_side 0" sample_table2 0 "\<lparr>va_flags = 0, va_idx = 0, va_ring = [0, 0]\<rparr>"
        "[7, 8]" sample_handler "()"] sample_pending sample_apart
    by (auto simp: sample_ring_defs sample_table2_def vring_consts mapped_def queued_def map_addr_def)
qed

theorem process_used_vring_frees_witness:
  "\<exists>t'. process_used_vring 1 (sample_rings sample_table2 1 (sample_used 1)) = Some (0, t') \<and>
     free_list 1 2 t' [0, 1] \<and> vr_last_used_idx (vt_vring t' ! 1) = 1"
  using process_used_vring_frees [of 1 2 "sample_rings sample_table2 1 (sample_used 1)" "[1]"
      "sample_side 1" "sample_used 1" "[0]"]
  by (simp add: sample_ring_defs sample_table2_def vring_consts free_list_def)

theorem process_used_vring_hangs_witness:
  "process_used_vring 1 (sample_rings sample_table2 0 (sample_used 2)) = None"
  using process_used_vring_hangs [of 1 "sample_rings sample_table2 0 (sample_used 2)" "sample_side 0"
      "sample_used 2"]
  by (simp add: sample_ring_defs)

theorem put_vring_free_list_witness:
  "free_list 1 2 (sample_rings sample_table2 VRING_IDX_NONE (sample_used 0)) [] \<and>
   put_vring sample_handler 1 [7, 8] 2 () (sample_rings sample_table2 VRING_IDX_NONE (sample_used 0)) = None"
  using put_vring_free_list [of 1 2 "sample_rings sample_table2 VRING_IDX_NONE (sample_used 0)" "[]"
      sample_handler "[7, 8]" 2 "()"]
  by (simp add: sample_ring_defs sample_table2_def free_list_def VHOST_VRING_SIZE_def)

definition sample_shm :: vmem where
  "sample_shm = \<lparr>vm_bytes = (\<lambda>_. Some 0),
     vm_desc = [0x1008 \<mapsto> replicate VHOST_VRING_SIZE (sample_desc 0 0)],
     vm_avail = [0x81008 \<mapsto> \<lparr>va_flags = 0, va_idx = 9, va_ring = replicate VHOST_VRING_SIZE 0\<rparr>],
     vm_used = [0x92000 \<mapsto> \<lparr>vu_flags = 0, vu_idx = 9,
        vu_ring = replicate VHOST_VRING_SIZE \<lparr>ue_id = 0, ue_len = 0\<rparr>\<rparr>]\<rparr>"

theorem new_vring_layout_witness:
  "\<exists>m' ds. new_vring 0x1000 sample_shm = Some (0x1000, m') \<and>
     vm_desc m' (0x1000 + vhost_vring_desc) = Some ds \<and> free_chain ds 0 [0..<VHOST_VRING_SIZE]"
proof -
  obtain m' where "new_vring 0x1000 sample_shm = Some (0x1000, m')"
    by (simp add: new_vring_def sample_shm_def vring_sizes Let_def)
  then show ?thesis using new_vring_layout [of "0x1000" sample_shm "0x1000" m']
    by (auto simp: vring_sizes)
qed

end
