(* ===== verification/Fd_List.thy ===== *)
theory Fd_List
  imports Kfs_Prelude
begin

text \<open>
  The lists of file descriptors of \<open>include/vhost-user/fd_list.c\<close>. A handler and its context are one
  value of type \<open>'h\<close>, a null handler is \<open>None\<close>. \<open>select\<close> is a parameter: it maps the number of
  descriptors and the two sets to its result and the sets it leaves. A set of descriptors is a
  predicate; what \<open>FD_ISSET\<close> answers for the descriptor \<open>-1\<close> of an unused node, which the C standard
  leaves open, is the value of the predicate there.
\<close>

section \<open>The lists\<close>

definition FD_LIST_SIZE :: nat where "FD_LIST_SIZE = 10"
definition FD_SETSIZE :: int where "FD_SETSIZE = 1024"
definition FD_LIST_SELECT_POLL :: u32 where "FD_LIST_SELECT_POLL = 0"
definition FD_LIST_SELECT_5 :: u32 where "FD_LIST_SELECT_5 = 200"

record 'h FdNode =
  fd_fd :: int
  fd_handler :: "'h option"

record 'h FdList =
  fl_nfds :: u64
  fl_fdmax :: int
  fl_read_fds :: "'h FdNode list"
  fl_write_fds :: "'h FdNode list"
  fl_ms :: u32

datatype FdType = FD_READ | FD_WRITE

definition reset_fd_node :: "'h FdNode" where
  "reset_fd_node = \<lparr>fd_fd = - 1, fd_handler = None\<rparr>"

definition init_fd_list :: "u32 \<Rightarrow> 'h FdList" where
  "init_fd_list ms = \<lparr>fl_nfds = 0, fl_fdmax = - 1,
     fl_read_fds = replicate FD_LIST_SIZE reset_fd_node,
     fl_write_fds = replicate FD_LIST_SIZE reset_fd_node, fl_ms = ms\<rparr>"

definition fl_fds :: "FdType \<Rightarrow> 'h FdList \<Rightarrow> 'h FdNode list" where
  "fl_fds ty l = (if ty = FD_READ then fl_read_fds l else fl_write_fds l)"

definition set_fl_fds :: "FdType \<Rightarrow> 'h FdNode list \<Rightarrow> 'h FdList \<Rightarrow> 'h FdList" where
  "set_fl_fds ty fds l = (if ty = FD_READ then l\<lparr>fl_read_fds := fds\<rparr> else l\<lparr>fl_write_fds := fds\<rparr>)"

text \<open>The result of the search is the index of the node.\<close>

definition find_fd_node_by_fd :: "'h FdNode list \<Rightarrow> int \<Rightarrow> nat option" where
  "find_fd_node_by_fd fds fd = List.find (\<lambda>i. fd_fd (fds ! i) = fd) [0..<length fds]"

definition add_fd_list :: "FdType \<Rightarrow> int \<Rightarrow> 'h option \<Rightarrow> 'h FdList \<Rightarrow> int \<times> 'h FdList" where
  "add_fd_list ty fd h l = (case find_fd_node_by_fd (fl_fds ty l) (- 1) of
     None \<Rightarrow> (- 1, l)
   | Some i \<Rightarrow> (0, set_fl_fds ty ((fl_fds ty l)[i := \<lparr>fd_fd = fd, fd_handler = h\<rparr>]) l))"

definition del_fd_list :: "FdType \<Rightarrow> int \<Rightarrow> 'h FdList \<Rightarrow> int \<times> 'h FdList" where
  "del_fd_list ty fd l = (case find_fd_node_by_fd (fl_fds ty l) fd of
     None \<Rightarrow> (- 1, l)
   | Some i \<Rightarrow> (0, set_fl_fds ty ((fl_fds ty l)[i := reset_fd_node]) l))"

section \<open>Waiting for descriptors\<close>

type_synonym fd_set = "int \<Rightarrow> bool"

text \<open>\<open>FD_SET\<close> writes outside the set for a descriptor that is negative or too large.\<close>

fun fd_set_loop :: "'h FdNode list \<Rightarrow> int \<Rightarrow> fd_set \<Rightarrow> (int \<times> fd_set) option" where
  "fd_set_loop [] fdmax fdset = Some (fdmax, fdset)"
| "fd_set_loop (n # ns) fdmax fdset =
     (if fd_fd n \<noteq> - 1 then do {
        VALID (0 \<le> fd_fd n \<and> fd_fd n < FD_SETSIZE);
        fd_set_loop ns (max (fd_fd n) fdmax) (fdset(fd_fd n := True))
      }
      else fd_set_loop ns fdmax fdset)"

definition fd_set_from_fd_list :: "FdType \<Rightarrow> 'h FdList \<Rightarrow> (fd_set \<times> 'h FdList) option" where
  "fd_set_from_fd_list ty l = do {
     (fdmax, fdset) \<leftarrow> fd_set_loop (fl_fds ty l) (fl_fdmax l) (\<lambda>_. False);
     Some (fdset, l\<lparr>fl_fdmax := fdmax\<rparr>)
   }"

text \<open>The handlers run on a state \<open>'s\<close> that contains the list: \<open>rd\<close> reads the list, \<open>call h fd\<close>
  runs the handler \<open>h\<close> of the node of \<open>fd\<close>. A handler may add and delete nodes; the loop reads each
  node when it comes to it.\<close>

fun process_fd_set ::
    "('s \<Rightarrow> 'h FdList) \<Rightarrow> ('h \<Rightarrow> int \<Rightarrow> 's \<Rightarrow> 's option) \<Rightarrow> FdType \<Rightarrow> fd_set \<Rightarrow> nat \<Rightarrow> nat \<Rightarrow> 's \<Rightarrow> 's option" where
  "process_fd_set rd call ty fdset idx 0 s = Some s"
| "process_fd_set rd call ty fdset idx (Suc n) s = do {
     node \<leftarrow> index (fl_fds ty (rd s)) idx;
     s \<leftarrow> (if fdset (fd_fd node)
           then (case fd_handler node of None \<Rightarrow> Some s | Some h \<Rightarrow> call h (fd_fd node) s)
           else Some s);
     process_fd_set rd call ty fdset (Suc idx) n s
   }"

definition traverse_fd_list ::
    "(int \<Rightarrow> fd_set \<Rightarrow> fd_set \<Rightarrow> int \<times> fd_set \<times> fd_set) \<Rightarrow> ('s \<Rightarrow> 'h FdList) \<Rightarrow> ('h FdList \<Rightarrow> 's \<Rightarrow> 's) \<Rightarrow>
     ('h \<Rightarrow> int \<Rightarrow> 's \<Rightarrow> 's option) \<Rightarrow> 's \<Rightarrow> 's option" where
  "traverse_fd_list select rd wr call s = do {
     let l = (rd s)\<lparr>fl_fdmax := - 1\<rparr>;
     (read_fdset, l) \<leftarrow> fd_set_from_fd_list FD_READ l;
     (write_fdset, l) \<leftarrow> fd_set_from_fd_list FD_WRITE l;
     let s = wr l s;
     let (r, read_fdset, write_fdset) = select (fl_fdmax l + 1) read_fdset write_fdset;
     if r = - 1 \<or> r = 0 then Some s
     else do {
       s \<leftarrow> process_fd_set rd call FD_READ read_fdset 0 FD_LIST_SIZE s;
       process_fd_set rd call FD_WRITE write_fdset 0 FD_LIST_SIZE s
     }
   }"

section \<open>The registered descriptors\<close>

text \<open>What a list promises: the map from the registered descriptors to their handlers.\<close>

definition fd_map :: "'h FdNode list \<Rightarrow> int \<Rightarrow> 'h option option" where
  "fd_map fds fd = (if fd = - 1 then None
     else map_option (\<lambda>i. fd_handler (fds ! i)) (find_fd_node_by_fd fds fd))"

definition fds_ok :: "'h FdNode list \<Rightarrow> bool" where
  "fds_ok fds \<longleftrightarrow> length fds = FD_LIST_SIZE \<and>
     (\<forall>i<length fds. \<forall>j<length fds. fd_fd (fds ! i) = fd_fd (fds ! j) \<longrightarrow> fd_fd (fds ! i) = - 1 \<or> i = j)"

lemma find_fd_Some:
  "find_fd_node_by_fd fds fd = Some i \<Longrightarrow> i < length fds \<and> fd_fd (fds ! i) = fd"
  by (auto simp: find_fd_node_by_fd_def find_Some_iff)

lemma find_fd_None: "find_fd_node_by_fd fds fd = None \<longleftrightarrow> (\<forall>i<length fds. fd_fd (fds ! i) \<noteq> fd)"
  by (auto simp: find_fd_node_by_fd_def find_None_iff)

lemma fds_ok_find:
  assumes "fds_ok fds" "fd \<noteq> - 1" "i < length fds" "fd_fd (fds ! i) = fd"
  shows "find_fd_node_by_fd fds fd = Some i"
proof (cases "find_fd_node_by_fd fds fd")
  case None
  then show ?thesis using assms by (simp add: find_fd_None)
next
  case (Some j)
  then show ?thesis using find_fd_Some [OF Some] assms by (auto simp: fds_ok_def)
qed

lemma fds_ok_upd:
  assumes "fds_ok fds" and "fd_fd n = - 1 \<or> (\<forall>j<length fds. fd_fd (fds ! j) \<noteq> fd_fd n)"
  shows "fds_ok (fds[i := n])"
  unfolding fds_ok_def
proof (intro conjI allI impI)
  fix j k
  assume jk: "j < length (fds[i := n])" "k < length (fds[i := n])"
    and eq: "fd_fd (fds[i := n] ! j) = fd_fd (fds[i := n] ! k)"
  show "fd_fd (fds[i := n] ! j) = - 1 \<or> j = k"
  proof (cases "j = i \<or> k = i")
    case True
    then show ?thesis using assms(2) jk eq by (cases "j = i"; cases "k = i") auto
  next
    case False
    then show ?thesis using assms(1) jk eq by (auto simp: fds_ok_def)
  qed
qed (use assms(1) in \<open>simp add: fds_ok_def\<close>)

lemma fd_map_None: "fd_map fds fd = None \<longleftrightarrow> fd = - 1 \<or> (\<forall>i<length fds. fd_fd (fds ! i) \<noteq> fd)"
  by (auto simp: fd_map_def find_fd_None)

lemma fd_map_eq:
  assumes "fds_ok fds"
  shows "fd_map fds fd = Some h \<longleftrightarrow>
    fd \<noteq> - 1 \<and> (\<exists>i<length fds. fd_fd (fds ! i) = fd \<and> fd_handler (fds ! i) = h)"
proof
  assume "fd_map fds fd = Some h"
  then show "fd \<noteq> - 1 \<and> (\<exists>i<length fds. fd_fd (fds ! i) = fd \<and> fd_handler (fds ! i) = h)"
    using find_fd_Some [of fds fd] by (auto simp: fd_map_def split: if_splits)
next
  assume "fd \<noteq> - 1 \<and> (\<exists>i<length fds. fd_fd (fds ! i) = fd \<and> fd_handler (fds ! i) = h)"
  then obtain i where i: "fd \<noteq> - 1" "i < length fds" "fd_fd (fds ! i) = fd" "fd_handler (fds ! i) = h"
    by blast
  then show "fd_map fds fd = Some h" using fds_ok_find [OF assms i(1-3)] by (simp add: fd_map_def)
qed

lemma fds_simps [simp]:
  "fl_fds ty (set_fl_fds ty' fds l) = (if ty = ty' then fds else fl_fds ty l)"
  by (cases ty; cases ty') (simp_all add: fl_fds_def set_fl_fds_def)

lemma option_eqI: "(\<And>h. x = Some h \<longleftrightarrow> y = Some h) \<Longrightarrow> x = y"
  by (cases x; cases y) auto

lemma ex_list_update:
  assumes "i < length xs"
  shows "(\<exists>j<length (xs[i := n]). Q (xs[i := n] ! j)) \<longleftrightarrow> Q n \<or> (\<exists>j<length xs. j \<noteq> i \<and> Q (xs ! j))"
proof
  assume "\<exists>j<length (xs[i := n]). Q (xs[i := n] ! j)"
  then obtain j where j: "j < length xs" "Q (xs[i := n] ! j)" by auto
  then show "Q n \<or> (\<exists>j<length xs. j \<noteq> i \<and> Q (xs ! j))" using assms by (cases "j = i") auto
next
  assume "Q n \<or> (\<exists>j<length xs. j \<noteq> i \<and> Q (xs ! j))"
  then show "\<exists>j<length (xs[i := n]). Q (xs[i := n] ! j)"
  proof
    assume "Q n"
    then show ?thesis using assms by (intro exI [of _ i]) simp
  next
    assume "\<exists>j<length xs. j \<noteq> i \<and> Q (xs ! j)"
    then obtain j where "j < length xs" "j \<noteq> i" "Q (xs ! j)" by blast
    then show ?thesis by (intro exI [of _ j]) simp
  qed
qed

lemma fd_map_upd:
  assumes "fds_ok fds" "i < length fds" "fds_ok (fds[i := n])" "fd \<noteq> - 1"
  shows "fd_map (fds[i := n]) fd = (if fd = fd_fd n then Some (fd_handler n)
      else if fd = fd_fd (fds ! i) then None else fd_map fds fd)"
proof -
  have upd: "fd_map (fds[i := n]) fd = Some h \<longleftrightarrow> fd_fd n = fd \<and> fd_handler n = h \<or>
      (\<exists>j<length fds. j \<noteq> i \<and> fd_fd (fds ! j) = fd \<and> fd_handler (fds ! j) = h)" for h
    unfolding fd_map_eq [OF assms(3)]
    using ex_list_update [OF assms(2), of n "\<lambda>x. fd_fd x = fd \<and> fd_handler x = h"] assms(4) by simp
  have old: "fd_map fds fd = Some h \<longleftrightarrow> fd_fd (fds ! i) = fd \<and> fd_handler (fds ! i) = h \<or>
      (\<exists>j<length fds. j \<noteq> i \<and> fd_fd (fds ! j) = fd \<and> fd_handler (fds ! j) = h)" for h
    unfolding fd_map_eq [OF assms(1)] using assms(2,4) by blast
  have only: "fd_fd (fds ! j) \<noteq> fd" if "fd = fd_fd (fds ! i)" "j < length fds" "j \<noteq> i" for j
    using assms(1,2,4) that by (auto simp: fds_ok_def)
  consider "fd = fd_fd n" | "fd \<noteq> fd_fd n" "fd = fd_fd (fds ! i)" | "fd \<noteq> fd_fd n" "fd \<noteq> fd_fd (fds ! i)"
    by blast
  then show ?thesis
  proof cases
    case 1
    then show ?thesis using upd [of "fd_handler n"] by simp
  next
    case 2
    then have "fd_map (fds[i := n]) fd \<noteq> Some h" for h using upd [of h] only by auto
    then show ?thesis using 2 by (cases "fd_map (fds[i := n]) fd") auto
  next
    case 3
    then have "fd_map (fds[i := n]) fd = Some h \<longleftrightarrow> fd_map fds fd = Some h" for h
      using upd [of h] old [of h] by auto
    then have "fd_map (fds[i := n]) fd = fd_map fds fd" by (rule option_eqI)
    then show ?thesis using 3 by simp
  qed
qed

lemma add_fd_list_map:
  assumes "fds_ok (fl_fds ty l)" "fd \<noteq> - 1" "fd_map (fl_fds ty l) fd = None"
    and "find_fd_node_by_fd (fl_fds ty l) (- 1) = Some i"
  obtains l' where "add_fd_list ty fd h l = (0, l')" "fds_ok (fl_fds ty l')"
    "fd_map (fl_fds ty l') = (fd_map (fl_fds ty l))(fd \<mapsto> h)"
    "\<And>ty'. ty' \<noteq> ty \<Longrightarrow> fl_fds ty' l' = fl_fds ty' l"
proof
  let ?n = "\<lparr>fd_fd = fd, fd_handler = h\<rparr>"
  let ?l = "set_fl_fds ty ((fl_fds ty l)[i := ?n]) l"
  have i: "i < length (fl_fds ty l)" "fd_fd (fl_fds ty l ! i) = - 1"
    using find_fd_Some [OF assms(4)] by auto
  have ok: "fds_ok ((fl_fds ty l)[i := ?n])"
    using assms(1-3) by (intro fds_ok_upd) (auto simp: fd_map_None)
  show "add_fd_list ty fd h l = (0, ?l)" by (simp add: add_fd_list_def assms(4))
  show "fds_ok (fl_fds ty ?l)" using ok by simp
  show "fd_map (fl_fds ty ?l) = (fd_map (fl_fds ty l))(fd \<mapsto> h)"
  proof
    fix x
    show "fd_map (fl_fds ty ?l) x = ((fd_map (fl_fds ty l))(fd \<mapsto> h)) x"
      using fd_map_upd [OF assms(1) i(1) ok, of x] i(2) assms(2)
      by (cases "x = - 1") (auto simp: fd_map_def)
  qed
qed simp

lemma del_fd_list_map:
  assumes "fds_ok (fl_fds ty l)" "fd_map (fl_fds ty l) fd = Some h"
  obtains l' where "del_fd_list ty fd l = (0, l')" "fds_ok (fl_fds ty l')"
    "fd_map (fl_fds ty l') = (fd_map (fl_fds ty l))(fd := None)"
proof -
  obtain i where i: "find_fd_node_by_fd (fl_fds ty l) fd = Some i" "fd \<noteq> - 1"
    using assms(2) by (auto simp: fd_map_def split: if_splits)
  let ?l = "set_fl_fds ty ((fl_fds ty l)[i := reset_fd_node]) l"
  have ok: "fds_ok ((fl_fds ty l)[i := reset_fd_node])"
    using assms(1) by (intro fds_ok_upd) (auto simp: reset_fd_node_def)
  have "fd_map (fl_fds ty ?l) x = ((fd_map (fl_fds ty l))(fd := None)) x" for x
    using fd_map_upd [OF assms(1) _ ok, of x] find_fd_Some [OF i(1)]
    by (cases "x = - 1") (auto simp: fd_map_def reset_fd_node_def)
  then have "fd_map (fl_fds ty ?l) = (fd_map (fl_fds ty l))(fd := None)" by blast
  then show thesis using that [of ?l] ok i(1) by (simp add: del_fd_list_def)
qed

lemma fds_ok_init: "fds_ok (fl_fds ty (init_fd_list ms))"
  by (auto simp: fds_ok_def fl_fds_def init_fd_list_def reset_fd_node_def)

lemma fd_map_init: "fd_map (fl_fds ty (init_fd_list ms)) = Map.empty"
  by (rule ext) (auto simp: fd_map_None fl_fds_def init_fd_list_def reset_fd_node_def)

text \<open>C33: A list of descriptors is a table of handlers with room for ten descriptors. Adding a new
  descriptor binds its handler and nothing else, or reports an error and changes nothing when no
  node is free; deleting it afterwards restores the table.\<close>

theorem fd_list_refines:
  assumes "fds_ok (fl_fds ty l)" "fd \<noteq> - 1" "fd_map (fl_fds ty l) fd = None"
  shows "if \<exists>i<FD_LIST_SIZE. fd_fd (fl_fds ty l ! i) = - 1
    then \<exists>l' l''. add_fd_list ty fd h l = (0, l') \<and> fds_ok (fl_fds ty l') \<and>
           fd_map (fl_fds ty l') = (fd_map (fl_fds ty l))(fd \<mapsto> h) \<and>
           del_fd_list ty fd l' = (0, l'') \<and> fds_ok (fl_fds ty l'') \<and>
           fd_map (fl_fds ty l'') = fd_map (fl_fds ty l)
    else add_fd_list ty fd h l = (- 1, l)"
proof (cases "find_fd_node_by_fd (fl_fds ty l) (- 1)")
  case None
  then have "add_fd_list ty fd h l = (- 1, l)" by (simp add: add_fd_list_def)
  then show ?thesis using None assms(1) by (auto simp: find_fd_None fds_ok_def)
next
  case (Some i)
  obtain l' where l': "add_fd_list ty fd h l = (0, l')" "fds_ok (fl_fds ty l')"
      "fd_map (fl_fds ty l') = (fd_map (fl_fds ty l))(fd \<mapsto> h)"
    using add_fd_list_map [OF assms Some] by metis
  then obtain l'' where "del_fd_list ty fd l' = (0, l'')" "fds_ok (fl_fds ty l'')"
      "fd_map (fl_fds ty l'') = (fd_map (fl_fds ty l'))(fd := None)"
    using del_fd_list_map [OF l'(2), of fd h] by auto
  moreover have "((fd_map (fl_fds ty l))(fd \<mapsto> h))(fd := None) = fd_map (fl_fds ty l)"
    using assms(3) by auto
  ultimately show ?thesis
    using l' find_fd_Some [OF Some] assms(1) by (auto simp: fds_ok_def)
qed

theorem fd_list_refines_witness:
  "\<exists>l' l''. add_fd_list FD_READ 7 (Some True) (init_fd_list 200) = (0, l') \<and>
     fd_map (fl_fds FD_READ l') = [7 \<mapsto> Some True] \<and> del_fd_list FD_READ 7 l' = (0, l'') \<and>
     fd_map (fl_fds FD_READ l'') = Map.empty"
proof -
  define l :: "bool FdList" where "l = init_fd_list 200"
  have "fd_fd (fl_fds FD_READ l ! 0) = - 1"
    by (simp add: l_def fl_fds_def init_fd_list_def reset_fd_node_def FD_LIST_SIZE_def)
  then have free: "\<exists>i<FD_LIST_SIZE. fd_fd (fl_fds FD_READ l ! i) = - 1"
    by (intro exI [of _ 0]) (simp add: FD_LIST_SIZE_def)
  have "fds_ok (fl_fds FD_READ l)" and empty: "fd_map (fl_fds FD_READ l) = Map.empty"
    by (simp_all add: l_def fds_ok_init fd_map_init)
  then show ?thesis
    using fd_list_refines [of FD_READ l 7 "Some True"] free by (auto simp: empty l_def [symmetric])
qed

end
