(* ===== verification/Vhost_Server.thy ===== *)
theory Vhost_Server
  imports Vring Fd_List
begin

text \<open>
  The vhost-user server: the messages of \<open>include/vhost-user/vhost_user.h\<close> as the bytes of their packed
  structure, receiving and sending them (\<open>common.c\<close>), the socket server (\<open>server.c\<close>) and the handlers
  of \<open>vhost_server.c\<close>.

  The kernel is a parameter: what \<open>recvmsg\<close>, \<open>sendmsg\<close>, \<open>read\<close>, \<open>accept\<close> and \<open>select\<close> return, and
  \<open>mmap\<close>, which gives the address of the mapping and the memory with the objects of the mapped file.
  The bytes a message buffer holds before it is filled are an argument too.
\<close>

section \<open>Messages\<close>

definition VHOST_MEMORY_MAX_NREGIONS :: nat where "VHOST_MEMORY_MAX_NREGIONS = 8"
definition VHOST_USER_NONE :: u32 where "VHOST_USER_NONE = 0"
definition VHOST_USER_GET_FEATURES :: u32 where "VHOST_USER_GET_FEATURES = 1"
definition VHOST_USER_SET_FEATURES :: u32 where "VHOST_USER_SET_FEATURES = 2"
definition VHOST_USER_SET_OWNER :: u32 where "VHOST_USER_SET_OWNER = 3"
definition VHOST_USER_RESET_OWNER :: u32 where "VHOST_USER_RESET_OWNER = 4"
definition VHOST_USER_SET_MEM_TABLE :: u32 where "VHOST_USER_SET_MEM_TABLE = 5"
definition VHOST_USER_SET_LOG_BASE :: u32 where "VHOST_USER_SET_LOG_BASE = 6"
definition VHOST_USER_SET_LOG_FD :: u32 where "VHOST_USER_SET_LOG_FD = 7"
definition VHOST_USER_SET_VRING_NUM :: u32 where "VHOST_USER_SET_VRING_NUM = 8"
definition VHOST_USER_SET_VRING_ADDR :: u32 where "VHOST_USER_SET_VRING_ADDR = 9"
definition VHOST_USER_SET_VRING_BASE :: u32 where "VHOST_USER_SET_VRING_BASE = 10"
definition VHOST_USER_GET_VRING_BASE :: u32 where "VHOST_USER_GET_VRING_BASE = 11"
definition VHOST_USER_SET_VRING_KICK :: u32 where "VHOST_USER_SET_VRING_KICK = 12"
definition VHOST_USER_SET_VRING_CALL :: u32 where "VHOST_USER_SET_VRING_CALL = 13"
definition VHOST_USER_SET_VRING_ERR :: u32 where "VHOST_USER_SET_VRING_ERR = 14"
definition VHOST_USER_MAX :: u32 where "VHOST_USER_MAX = 15"

lemmas vhost_requests = VHOST_USER_NONE_def VHOST_USER_GET_FEATURES_def VHOST_USER_SET_FEATURES_def
  VHOST_USER_SET_OWNER_def VHOST_USER_RESET_OWNER_def VHOST_USER_SET_MEM_TABLE_def
  VHOST_USER_SET_LOG_BASE_def VHOST_USER_SET_LOG_FD_def VHOST_USER_SET_VRING_NUM_def
  VHOST_USER_SET_VRING_ADDR_def VHOST_USER_SET_VRING_BASE_def VHOST_USER_GET_VRING_BASE_def
  VHOST_USER_SET_VRING_KICK_def VHOST_USER_SET_VRING_CALL_def VHOST_USER_SET_VRING_ERR_def
  VHOST_USER_MAX_def

definition VHOST_USER_VERSION_MASK :: u32 where "VHOST_USER_VERSION_MASK = 0x3"
definition VHOST_USER_REPLY_MASK :: u32 where "VHOST_USER_REPLY_MASK = push_bit 2 1"
definition VHOST_USER_VRING_IDX_MASK :: u64 where "VHOST_USER_VRING_IDX_MASK = 0xff"
definition VHOST_USER_VRING_NOFD_MASK :: u64 where "VHOST_USER_VRING_NOFD_MASK = push_bit 8 1"
definition VHOST_USER_VERSION :: u32 where "VHOST_USER_VERSION = 0x1"

text \<open>\<open>VHOST_USER_HDR_SIZE\<close> is the offset of the union, whose largest member is the memory table.\<close>

definition VHOST_USER_HDR_SIZE :: nat where "VHOST_USER_HDR_SIZE = 4 + 4 + 4"
definition sizeof_VhostUserMsg :: nat where
  "sizeof_VhostUserMsg = VHOST_USER_HDR_SIZE + (4 + 4 + VHOST_MEMORY_MAX_NREGIONS * 32)"

type_synonym VhostUserMsg = "u8 list"

definition msg_request :: "VhostUserMsg \<Rightarrow> u32" where "msg_request m = get32 m 0"
definition msg_flags :: "VhostUserMsg \<Rightarrow> u32" where "msg_flags m = get32 m 4"
definition msg_size :: "VhostUserMsg \<Rightarrow> u32" where "msg_size m = get32 m 8"
definition msg_u64 :: "VhostUserMsg \<Rightarrow> u64" where "msg_u64 m = get64 m 12"
definition state_index :: "VhostUserMsg \<Rightarrow> u32" where "state_index m = get32 m 12"
definition state_num :: "VhostUserMsg \<Rightarrow> u32" where "state_num m = get32 m 16"
definition addr_index :: "VhostUserMsg \<Rightarrow> u32" where "addr_index m = get32 m 12"
definition addr_desc_user_addr :: "VhostUserMsg \<Rightarrow> u64" where "addr_desc_user_addr m = get64 m 20"
definition addr_used_user_addr :: "VhostUserMsg \<Rightarrow> u64" where "addr_used_user_addr m = get64 m 28"
definition addr_avail_user_addr :: "VhostUserMsg \<Rightarrow> u64" where "addr_avail_user_addr m = get64 m 36"
definition mem_nregions :: "VhostUserMsg \<Rightarrow> u32" where "mem_nregions m = get32 m 12"
definition mem_guest_phys_addr :: "VhostUserMsg \<Rightarrow> nat \<Rightarrow> u64" where
  "mem_guest_phys_addr m i = get64 m (20 + 32 * i)"
definition mem_memory_size :: "VhostUserMsg \<Rightarrow> nat \<Rightarrow> u64" where
  "mem_memory_size m i = get64 m (28 + 32 * i)"
definition mem_userspace_addr :: "VhostUserMsg \<Rightarrow> nat \<Rightarrow> u64" where
  "mem_userspace_addr m i = get64 m (36 + 32 * i)"
definition mem_mmap_offset :: "VhostUserMsg \<Rightarrow> nat \<Rightarrow> u64" where
  "mem_mmap_offset m i = get64 m (44 + 32 * i)"

lemmas msg_fields = msg_request_def msg_flags_def msg_size_def msg_u64_def state_index_def
  state_num_def addr_index_def addr_desc_user_addr_def addr_used_user_addr_def
  addr_avail_user_addr_def mem_nregions_def mem_guest_phys_addr_def mem_memory_size_def
  mem_userspace_addr_def mem_mmap_offset_def

definition cmd_from_vhostmsg :: "VhostUserMsg \<Rightarrow> string" where
  "cmd_from_vhostmsg m =
    (let r = msg_request m in
     if r = VHOST_USER_NONE then ''VHOST_USER_NONE''
     else if r = VHOST_USER_GET_FEATURES then ''VHOST_USER_GET_FEATURES''
     else if r = VHOST_USER_SET_FEATURES then ''VHOST_USER_SET_FEATURES''
     else if r = VHOST_USER_SET_OWNER then ''VHOST_USER_SET_OWNER''
     else if r = VHOST_USER_RESET_OWNER then ''VHOST_USER_RESET_OWNER''
     else if r = VHOST_USER_SET_MEM_TABLE then ''VHOST_USER_SET_MEM_TABLE''
     else if r = VHOST_USER_SET_LOG_BASE then ''VHOST_USER_SET_LOG_BASE''
     else if r = VHOST_USER_SET_LOG_FD then ''VHOST_USER_SET_LOG_FD''
     else if r = VHOST_USER_SET_VRING_NUM then ''VHOST_USER_SET_VRING_NUM''
     else if r = VHOST_USER_SET_VRING_ADDR then ''VHOST_USER_SET_VRING_ADDR''
     else if r = VHOST_USER_SET_VRING_BASE then ''VHOST_USER_SET_VRING_BASE''
     else if r = VHOST_USER_GET_VRING_BASE then ''VHOST_USER_GET_VRING_BASE''
     else if r = VHOST_USER_SET_VRING_KICK then ''VHOST_USER_SET_VRING_KICK''
     else if r = VHOST_USER_SET_VRING_CALL then ''VHOST_USER_SET_VRING_CALL''
     else if r = VHOST_USER_SET_VRING_ERR then ''VHOST_USER_SET_VRING_ERR''
     else if r = VHOST_USER_MAX then ''VHOST_USER_MAX''
     else ''UNDEFINED'')"

text \<open>What the kernel has for a call of \<open>vhost_user_recv_fds\<close>: the bytes \<open>recvmsg\<close> gives (\<open>None\<close> for an
  error), whether the message was truncated, the descriptors of its control message, and the bytes
  of the \<open>read\<close> that follows.\<close>

record incoming =
  in_bytes :: "u8 list option"
  in_trunc :: bool
  in_fds :: "int list option"
  in_read :: "u8 list"

text \<open>\<open>old\<close> is the content of the message buffer before the call. \<open>recvmsg\<close> gives at most the size
  of a header, \<open>read\<close> at most \<open>msg->size\<close> bytes, and writing behind the structure is an error.\<close>

definition vhost_user_recv_fds ::
    "incoming \<Rightarrow> VhostUserMsg \<Rightarrow> nat \<Rightarrow> (int \<times> VhostUserMsg \<times> int list) option" where
  "vhost_user_recv_fds rx old max_fds = (case in_bytes rx of
     None \<Rightarrow> Some (- 1, old, [])
   | Some bs \<Rightarrow> do {
       VALID (length bs \<le> VHOST_USER_HDR_SIZE);
       let msg = splice 0 bs old;
       let ret = int (length bs);
       if ret > 0 \<and> in_trunc rx then Some (- 1, msg, [])
       else do {
         let fds = (case in_fds rx of
           Some fds \<Rightarrow> if ret > 0 \<and> length fds \<le> max_fds then fds else []
         | None \<Rightarrow> []);
         let chunk = take (unat (msg_size msg)) (in_read rx);
         VALID (length bs + length chunk \<le> length old);
         Some (ret, splice (length bs) chunk msg, fds)
       }
     })"

text \<open>\<open>send\<close> is the result of \<open>sendmsg\<close> for the bytes and descriptors it is given; the loop over
  interrupted calls ends with the first other result.\<close>

definition vhost_user_send_fds ::
    "(u8 list \<Rightarrow> int list \<Rightarrow> int) \<Rightarrow> VhostUserMsg \<Rightarrow> int list \<Rightarrow> int option" where
  "vhost_user_send_fds send msg fds = do {
     VALID (VHOST_USER_HDR_SIZE + unat (msg_size msg) \<le> length msg);
     Some (send (take (VHOST_USER_HDR_SIZE + unat (msg_size msg)) msg) fds)
   }"

section \<open>The state of the server\<close>

definition INSTANCE_CREATED :: int where "INSTANCE_CREATED = 1"
definition INSTANCE_INITIALIZED :: int where "INSTANCE_INITIALIZED = 2"
definition INSTANCE_END :: int where "INSTANCE_END = 3"

record VhostServerMemoryRegion =
  mr_guest_phys_addr :: u64
  mr_memory_size :: u64
  mr_userspace_addr :: u64
  mr_mmap_addr :: u64

text \<open>The functions that are registered for descriptors.\<close>

datatype server_handler = accept_sock | receive_sock | kick_sock

text \<open>\<open>vs_app\<close>: the handlers of the application are set. \<open>vs_kicks\<close> lists the descriptors that have
  been signalled by \<open>kick\<close>, \<open>vs_sent\<close> the replies with the socket they went to.\<close>

record VhostServer =
  vs_status :: int
  vs_sock :: int
  vs_fd_list :: "server_handler FdList"
  vs_app :: bool
  vs_nregions :: u32
  vs_regions :: "VhostServerMemoryRegion list"
  vs_vring_table :: VringTable
  vs_is_polling :: bool
  vs_buffer :: "u8 list"
  vs_buffer_size :: u32
  vs_kicks :: "int list"
  vs_sent :: "(int \<times> u8 list) list"

record ServerMsg =
  sm_msg :: VhostUserMsg
  sm_fds :: "int list"

text \<open>What the kernel answers during one round of the server: \<open>se_old\<close> is the message buffer on the
  stack.\<close>

record server_env =
  se_socket :: int
  se_bind :: int
  se_listen :: int
  se_connect :: int
  se_accept :: int
  se_select :: "int \<Rightarrow> fd_set \<Rightarrow> fd_set \<Rightarrow> int \<times> fd_set \<times> fd_set"
  se_rx :: "int \<Rightarrow> incoming"
  se_old :: VhostUserMsg
  se_send :: "u8 list \<Rightarrow> int list \<Rightarrow> int"
  se_read :: "int \<Rightarrow> int"
  se_mmap :: "int \<Rightarrow> u64 \<Rightarrow> vmem \<Rightarrow> u64 option \<times> vmem"

section \<open>Creating the server\<close>

text \<open>The functions \<open>new_server\<close> and \<open>init_server\<close>; a failure of the latter is not looked at.\<close>

definition init_server :: "server_env \<Rightarrow> bool \<Rightarrow> VhostServer \<Rightarrow> int \<times> VhostServer" where
  "init_server e is_listen s =
    (if vs_status s \<noteq> INSTANCE_CREATED then (0, s)
     else
       let s = s\<lparr>vs_sock := se_socket e\<rparr>
       in if vs_sock s = - 1 then (- 1, s)
          else if is_listen \<and> (se_bind e = - 1 \<or> se_listen e = - 1) then (- 1, s)
          else if \<not> is_listen \<and> se_connect e = - 1 then (- 1, s)
          else
            let l = snd (add_fd_list FD_READ (vs_sock s)
                      (Some (if is_listen then accept_sock else receive_sock))
                      (init_fd_list FD_LIST_SELECT_5))
            in (0, s\<lparr>vs_fd_list := l, vs_status := INSTANCE_INITIALIZED\<rparr>))"

text \<open>\<open>calloc\<close> gives a server whose bytes are zero.\<close>

definition zero_fd_list :: "server_handler FdList" where
  "zero_fd_list = \<lparr>fl_nfds = 0, fl_fdmax = 0,
     fl_read_fds = replicate FD_LIST_SIZE \<lparr>fd_fd = 0, fd_handler = None\<rparr>,
     fl_write_fds = replicate FD_LIST_SIZE \<lparr>fd_fd = 0, fd_handler = None\<rparr>, fl_ms = 0\<rparr>"

definition new_vhost_server :: "server_env \<Rightarrow> vmem \<Rightarrow> bool \<Rightarrow> VhostServer" where
  "new_vhost_server e m is_listen = snd (init_server e is_listen
     \<lparr>vs_status = INSTANCE_CREATED, vs_sock = 0, vs_fd_list = zero_fd_list, vs_app = False,
      vs_nregions = 0,
      vs_regions = replicate VHOST_MEMORY_MAX_NREGIONS
        \<lparr>mr_guest_phys_addr = 0, mr_memory_size = 0, mr_userspace_addr = 0, mr_mmap_addr = 0\<rparr>,
      vs_vring_table = \<lparr>vt_vring = replicate VHOST_CLIENT_VRING_NUM
          \<lparr>vr_kickfd = - 1, vr_callfd = - 1, vr_desc = 0, vr_avail = 0, vr_used = 0, vr_num = 0,
           vr_last_avail_idx = 0, vr_last_used_idx = 0\<rparr>, vt_mem = m\<rparr>,
      vs_is_polling = False, vs_buffer = replicate BUFFER_SIZE 0, vs_buffer_size = 0,
      vs_kicks = [], vs_sent = []\<rparr>)"

definition set_handler_server :: "VhostServer \<Rightarrow> VhostServer" where
  "set_handler_server s = s\<lparr>vs_app := True\<rparr>"

definition end_server :: "VhostServer \<Rightarrow> VhostServer" where
  "end_server s = (if vs_status s \<noteq> INSTANCE_INITIALIZED then s else s\<lparr>vs_status := INSTANCE_END\<rparr>)"

section \<open>Addresses of the client\<close>

text \<open>The table of the regions has eight entries and \<open>nregions\<close> is at most eight.\<close>

fun map_regions :: "(VhostServerMemoryRegion \<Rightarrow> u64) \<Rightarrow> VhostServerMemoryRegion list \<Rightarrow> u64 \<Rightarrow> u64" where
  "map_regions base [] addr = 0"
| "map_regions base (r # rs) addr =
     (if base r \<le> addr \<and> addr < base r + mr_memory_size r then mr_mmap_addr r + addr - base r
      else map_regions base rs addr)"

definition map_guest_addr :: "VhostServer \<Rightarrow> u64 \<Rightarrow> u64" where
  "map_guest_addr s addr =
     map_regions mr_guest_phys_addr (take (unat (vs_nregions s)) (vs_regions s)) addr"

definition map_user_addr :: "VhostServer \<Rightarrow> u64 \<Rightarrow> u64" where
  "map_user_addr s addr =
     map_regions mr_userspace_addr (take (unat (vs_nregions s)) (vs_regions s)) addr"

section \<open>Packets\<close>

definition avail_handler_server :: "u8 list \<Rightarrow> u64 \<Rightarrow> VhostServer \<Rightarrow> (int \<times> VhostServer) option" where
  "avail_handler_server buf sz s = do {
     VALID (unat sz \<le> length buf \<and> unat sz \<le> length (vs_buffer s));
     Some (0, s\<lparr>vs_buffer := splice 0 (take (unat sz) buf) (vs_buffer s), vs_buffer_size := ucast sz\<rparr>)
   }"

definition map_handler :: "VhostServer \<Rightarrow> u64 \<Rightarrow> u64" where
  "map_handler s addr = map_guest_addr s addr"

definition vhost_server_process :: "VhostServer ProcessHandler" where
  "vhost_server_process = \<lparr>ph_avail_handler = Some avail_handler_server, ph_map_handler = Some map_handler\<rparr>"

definition poll_avail_vring :: "nat \<Rightarrow> VhostServer \<Rightarrow> (u32 \<times> VhostServer) option" where
  "poll_avail_vring idx s = do {
     v \<leftarrow> index (vt_vring (vs_vring_table s)) idx;
     if vr_desc v \<noteq> 0 then do {
       (count, s, t) \<leftarrow> process_avail_vring vhost_server_process idx s (vs_vring_table s);
       Some (count, s\<lparr>vs_vring_table := t\<rparr>)
     }
     else Some (0, s)
   }"

definition kick :: "nat \<Rightarrow> VhostServer \<Rightarrow> VhostServer option" where
  "kick v_idx s = do {
     v \<leftarrow> index (vt_vring (vs_vring_table s)) v_idx;
     Some (s\<lparr>vs_kicks := vs_kicks s @ [vr_kickfd v]\<rparr>)
   }"

definition poll_server :: "VhostServer \<Rightarrow> VhostServer option" where
  "poll_server s = do {
     rx \<leftarrow> index (vt_vring (vs_vring_table s)) VHOST_CLIENT_VRING_IDX_RX;
     if vr_desc rx \<noteq> 0 then do {
       s \<leftarrow> (if vs_is_polling s then do {
               (_, s) \<leftarrow> poll_avail_vring VHOST_CLIENT_VRING_IDX_TX s;
               Some s
             } else Some s);
       if vs_buffer_size s \<noteq> 0 then do {
         (_, t) \<leftarrow> put_vring vhost_server_process VHOST_CLIENT_VRING_IDX_RX (vs_buffer s)
                    (ucast (vs_buffer_size s)) s (vs_vring_table s);
         s \<leftarrow> kick VHOST_CLIENT_VRING_IDX_RX (s\<lparr>vs_vring_table := t\<rparr>);
         Some (s\<lparr>vs_buffer_size := 0\<rparr>)
       }
       else Some s
     }
     else Some s
   }"

section \<open>Handlers of messages\<close>

text \<open>A handler returns whether to reply, the message, which it may change, and the server. The index
  of a ring is taken as an \<open>int\<close>: a value of \<open>2^31\<close> or more is negative, passes the assertion and
  addresses memory in front of the array.\<close>

definition vring_index :: "u32 \<Rightarrow> nat option" where
  "vring_index i = do {
     let idx = sint i;
     ASSERT (idx < int VHOST_CLIENT_VRING_NUM);
     VALID (0 \<le> idx);
     Some (nat idx)
   }"

definition get_features :: "VhostServer \<Rightarrow> ServerMsg \<Rightarrow> (int \<times> ServerMsg \<times> VhostServer) option" where
  "get_features s msg =
     Some (1, msg\<lparr>sm_msg := splice 8 (put32 8) (splice 12 (put64 0) (sm_msg msg))\<rparr>, s)"

definition set_features :: "VhostServer \<Rightarrow> ServerMsg \<Rightarrow> (int \<times> ServerMsg \<times> VhostServer) option" where
  "set_features s msg = Some (0, msg, s)"

definition set_owner :: "VhostServer \<Rightarrow> ServerMsg \<Rightarrow> (int \<times> ServerMsg \<times> VhostServer) option" where
  "set_owner s msg = Some (0, msg, s)"

definition reset_owner :: "VhostServer \<Rightarrow> ServerMsg \<Rightarrow> (int \<times> ServerMsg \<times> VhostServer) option" where
  "reset_owner s msg = Some (0, msg, s)"

text \<open>The loop of \<open>_set_mem_table\<close>. Reading a descriptor that did not come with the message is reading
  an uninitialised element, or one behind the array.\<close>

fun mem_table_loop :: "server_env \<Rightarrow> ServerMsg \<Rightarrow> nat \<Rightarrow> nat \<Rightarrow> VhostServer \<Rightarrow> VhostServer option" where
  "mem_table_loop e msg idx 0 s = Some s"
| "mem_table_loop e msg idx (Suc n) s = do {
     fd \<leftarrow> index (sm_fds msg) idx;
     s \<leftarrow> (if fd > 0 then do {
             VALID (idx < length (vs_regions s));
             let region_size = mem_memory_size (sm_msg msg) idx;
             let (addr, mem) = se_mmap e fd region_size (vt_mem (vs_vring_table s));
             let mmap_addr = (case addr of None \<Rightarrow> 0 | Some a \<Rightarrow> a);
             let region = \<lparr>mr_guest_phys_addr = mem_guest_phys_addr (sm_msg msg) idx,
                           mr_memory_size = region_size,
                           mr_userspace_addr = mem_userspace_addr (sm_msg msg) idx,
                           mr_mmap_addr = mmap_addr + mem_mmap_offset (sm_msg msg) idx\<rparr>;
             Some (s\<lparr>vs_regions := (vs_regions s)[idx := region],
                      vs_vring_table := (vs_vring_table s)\<lparr>vt_mem := mem\<rparr>,
                      vs_nregions := vs_nregions s + 1\<rparr>)
           } else Some s);
     mem_table_loop e msg (Suc idx) n s
   }"

definition set_mem_table ::
    "server_env \<Rightarrow> VhostServer \<Rightarrow> ServerMsg \<Rightarrow> (int \<times> ServerMsg \<times> VhostServer) option" where
  "set_mem_table e s msg = do {
     s \<leftarrow> mem_table_loop e msg 0 (unat (mem_nregions (sm_msg msg))) (s\<lparr>vs_nregions := 0\<rparr>);
     Some (0, msg, s)
   }"

definition set_log_base :: "VhostServer \<Rightarrow> ServerMsg \<Rightarrow> (int \<times> ServerMsg \<times> VhostServer) option" where
  "set_log_base s msg = Some (0, msg, s)"

definition set_log_fd :: "VhostServer \<Rightarrow> ServerMsg \<Rightarrow> (int \<times> ServerMsg \<times> VhostServer) option" where
  "set_log_fd s msg = Some (0, msg, s)"

definition vs_ring_upd :: "nat \<Rightarrow> (Vring \<Rightarrow> Vring) \<Rightarrow> VhostServer \<Rightarrow> VhostServer" where
  "vs_ring_upd i f s = s\<lparr>vs_vring_table := vt_upd i f (vs_vring_table s)\<rparr>"

definition set_vring_num :: "VhostServer \<Rightarrow> ServerMsg \<Rightarrow> (int \<times> ServerMsg \<times> VhostServer) option" where
  "set_vring_num s msg = do {
     idx \<leftarrow> vring_index (state_index (sm_msg msg));
     Some (0, msg, vs_ring_upd idx (vr_num_update (\<lambda>_. state_num (sm_msg msg))) s)
   }"

definition set_vring_addr :: "VhostServer \<Rightarrow> ServerMsg \<Rightarrow> (int \<times> ServerMsg \<times> VhostServer) option" where
  "set_vring_addr s msg = do {
     idx \<leftarrow> vring_index (addr_index (sm_msg msg));
     let desc = map_user_addr s (addr_desc_user_addr (sm_msg msg));
     let avail = map_user_addr s (addr_avail_user_addr (sm_msg msg));
     let up = map_user_addr s (addr_used_user_addr (sm_msg msg));
     used \<leftarrow> vm_used (vt_mem (vs_vring_table s)) up;
     Some (0, msg, vs_ring_upd idx (\<lambda>v. v\<lparr>vr_desc := desc, vr_avail := avail, vr_used := up,
                                         vr_last_used_idx := vu_idx used\<rparr>) s)
   }"

definition set_vring_base :: "VhostServer \<Rightarrow> ServerMsg \<Rightarrow> (int \<times> ServerMsg \<times> VhostServer) option" where
  "set_vring_base s msg = do {
     idx \<leftarrow> vring_index (state_index (sm_msg msg));
     Some (0, msg, vs_ring_upd idx (vr_last_avail_idx_update (\<lambda>_. ucast (state_num (sm_msg msg)))) s)
   }"

definition get_vring_base :: "VhostServer \<Rightarrow> ServerMsg \<Rightarrow> (int \<times> ServerMsg \<times> VhostServer) option" where
  "get_vring_base s msg = do {
     idx \<leftarrow> vring_index (state_index (sm_msg msg));
     v \<leftarrow> index (vt_vring (vs_vring_table s)) idx;
     Some (1, msg\<lparr>sm_msg := splice 8 (put32 8)
                (splice 16 (put32 (ucast (vr_last_avail_idx v))) (sm_msg msg))\<rparr>, s)
   }"

definition set_vring_kick :: "VhostServer \<Rightarrow> ServerMsg \<Rightarrow> (int \<times> ServerMsg \<times> VhostServer) option" where
  "set_vring_kick s msg = do {
     let idx = unat (msg_u64 (sm_msg msg) AND VHOST_USER_VRING_IDX_MASK);
     let validfd = (msg_u64 (sm_msg msg) AND VHOST_USER_VRING_NOFD_MASK = 0);
     ASSERT (idx < VHOST_CLIENT_VRING_NUM);
     if validfd then do {
       ASSERT (length (sm_fds msg) = 1);
       let fd = sm_fds msg ! 0;
       let s = vs_ring_upd idx (vr_kickfd_update (\<lambda>_. fd)) s;
       let s = (if idx = VHOST_CLIENT_VRING_IDX_TX
                then s\<lparr>vs_fd_list := snd (add_fd_list FD_READ fd (Some kick_sock) (vs_fd_list s))\<rparr>
                else s);
       Some (0, msg, s\<lparr>vs_is_polling := False\<rparr>)
     }
     else Some (0, msg, s\<lparr>vs_is_polling := True\<rparr>)
   }"

definition set_vring_call :: "VhostServer \<Rightarrow> ServerMsg \<Rightarrow> (int \<times> ServerMsg \<times> VhostServer) option" where
  "set_vring_call s msg = do {
     let idx = unat (msg_u64 (sm_msg msg) AND VHOST_USER_VRING_IDX_MASK);
     let validfd = (msg_u64 (sm_msg msg) AND VHOST_USER_VRING_NOFD_MASK = 0);
     ASSERT (idx < VHOST_CLIENT_VRING_NUM);
     if validfd then do {
       ASSERT (length (sm_fds msg) = 1);
       Some (0, msg, vs_ring_upd idx (vr_callfd_update (\<lambda>_. sm_fds msg ! 0)) s)
     }
     else Some (0, msg, s)
   }"

definition set_vring_err :: "VhostServer \<Rightarrow> ServerMsg \<Rightarrow> (int \<times> ServerMsg \<times> VhostServer) option" where
  "set_vring_err s msg = Some (0, msg, s)"

definition msg_handlers ::
    "server_env \<Rightarrow> (VhostServer \<Rightarrow> ServerMsg \<Rightarrow> (int \<times> ServerMsg \<times> VhostServer) option) option list" where
  "msg_handlers e = [None, Some get_features, Some set_features, Some set_owner, Some reset_owner,
     Some (set_mem_table e), Some set_log_base, Some set_log_fd, Some set_vring_num,
     Some set_vring_addr, Some set_vring_base, Some get_vring_base, Some set_vring_kick,
     Some set_vring_call, Some set_vring_err]"

definition in_msg_server ::
    "server_env \<Rightarrow> VhostServer \<Rightarrow> ServerMsg \<Rightarrow> (int \<times> ServerMsg \<times> VhostServer) option" where
  "in_msg_server e s msg = do {
     let request = msg_request (sm_msg msg);
     ASSERT (VHOST_USER_NONE < request \<and> request < VHOST_USER_MAX);
     case msg_handlers e ! unat request of
       None \<Rightarrow> Some (0, msg, s)
     | Some h \<Rightarrow> h s msg
   }"

section \<open>The loop of the server\<close>

datatype ServerSockStatus = ServerSockInit | ServerSockAccept | ServerSockDone | ServerSockError

definition reply_flags :: "u32 \<Rightarrow> u32" where
  "reply_flags f = ((f AND NOT VHOST_USER_VERSION_MASK) OR VHOST_USER_VERSION) OR VHOST_USER_REPLY_MASK"

definition receive_sock_server ::
    "server_env \<Rightarrow> int \<Rightarrow> VhostServer \<Rightarrow> (ServerSockStatus \<times> VhostServer) option" where
  "receive_sock_server e sock s = do {
     (r, msg, fds) \<leftarrow> vhost_user_recv_fds (se_rx e sock) (se_old e) VHOST_MEMORY_MAX_NREGIONS;
     if r < 0 then Some (ServerSockError, s)
     else if r = 0 then
       Some (ServerSockDone, s\<lparr>vs_fd_list := snd (del_fd_list FD_READ sock (vs_fd_list s))\<rparr>)
     else do {
       (r, msg, s) \<leftarrow> (if vs_app s then in_msg_server e s \<lparr>sm_msg = msg, sm_fds = fds\<rparr>
                       else Some (0, \<lparr>sm_msg = msg, sm_fds = fds\<rparr>, s));
       if r < 0 then Some (ServerSockError, s)
       else if r > 0 then do {
         let reply = splice 4 (put32 (reply_flags (msg_flags (sm_msg msg)))) (sm_msg msg);
         n \<leftarrow> vhost_user_send_fds (se_send e) reply [];
         if n < 0 then Some (ServerSockError, s)
         else Some (ServerSockAccept,
                s\<lparr>vs_sent := vs_sent s @ [(sock, take (VHOST_USER_HDR_SIZE + unat (msg_size reply)) reply)]\<rparr>)
       }
       else Some (ServerSockAccept, s)
     }
   }"

text \<open>The result of a failed \<open>accept\<close>, \<open>-1\<close>, is added to the list like a socket.\<close>

definition accept_sock_server :: "server_env \<Rightarrow> VhostServer \<Rightarrow> ServerSockStatus \<times> VhostServer" where
  "accept_sock_server e s =
    (let sock = se_accept e;
         status = (if sock = - 1 then ServerSockInit else ServerSockAccept)
     in (status, s\<lparr>vs_fd_list := snd (add_fd_list FD_READ sock (Some receive_sock) (vs_fd_list s))\<rparr>))"

definition kick_server :: "server_env \<Rightarrow> int \<Rightarrow> VhostServer \<Rightarrow> VhostServer option" where
  "kick_server e kickfd s =
    (let r = se_read e kickfd
     in if r < 0 then Some s
        else if r = 0 then Some (s\<lparr>vs_fd_list := snd (del_fd_list FD_READ kickfd (vs_fd_list s))\<rparr>)
        else do {
          (_, s) \<leftarrow> poll_avail_vring VHOST_CLIENT_VRING_IDX_TX s;
          Some s
        })"

definition call_handler :: "server_env \<Rightarrow> server_handler \<Rightarrow> int \<Rightarrow> VhostServer \<Rightarrow> VhostServer option" where
  "call_handler e h fd s = (case h of
     accept_sock \<Rightarrow> Some (snd (accept_sock_server e s))
   | receive_sock \<Rightarrow> map_option snd (receive_sock_server e fd s)
   | kick_sock \<Rightarrow> kick_server e fd s)"

definition loop_server :: "server_env \<Rightarrow> VhostServer \<Rightarrow> VhostServer option" where
  "loop_server e s = do {
     s \<leftarrow> traverse_fd_list (se_select e) vs_fd_list (\<lambda>l s. s\<lparr>vs_fd_list := l\<rparr>) (call_handler e) s;
     if vs_app s then poll_server s else Some s
   }"

section \<open>Consuming the packets of the client\<close>

lemma deliver1_server:
  assumes "length p \<le> length (vs_buffer s)" "length p < 2 ^ 32"
  shows "deliver1 vhost_server_process p s =
    Some (s\<lparr>vs_buffer := splice 0 p (vs_buffer s), vs_buffer_size := of_nat (length p)\<rparr>)"
proof -
  have "unat (of_nat (length p) :: u64) = length p" using assms(2) by (simp add: unat_of_nat)
  then show ?thesis
    using assms(1)
    by (simp add: deliver1_def vhost_server_process_def avail_handler_server_def ucast_of_nat_u32)
qed

lemma deliver1_server_map:
  "deliver1 vhost_server_process p s = Some s' \<Longrightarrow>
   map_addr vhost_server_process s' = map_addr vhost_server_process s"
  by (auto simp: deliver1_def vhost_server_process_def avail_handler_server_def map_addr_def
      map_handler_def map_guest_addr_def fun_eq_iff split: if_splits)

interpretation server_sink: packet_sink vhost_server_process "\<lambda>s. length (vs_buffer s) = BUFFER_SIZE"
proof
  show "\<exists>s'. deliver1 vhost_server_process p s = Some s' \<and> length (vs_buffer s') = BUFFER_SIZE"
    if "length (vs_buffer s) = BUFFER_SIZE" "virtio_net_hdr_len + length p < ETH_PACKET_SIZE" for s p
    using that by (simp add: deliver1_server vring_consts)
qed (rule deliver1_server_map)

text \<open>After a series of packets the buffer holds the last one; the rest of the server is as before.\<close>

lemma deliver_server:
  assumes "deliver vhost_server_process ps s = Some s'" "length (vs_buffer s) = BUFFER_SIZE"
    and "\<forall>p\<in>set ps. virtio_net_hdr_len + length p < ETH_PACKET_SIZE"
  shows "s' = s\<lparr>vs_buffer := vs_buffer s', vs_buffer_size := vs_buffer_size s'\<rparr> \<and>
    (ps \<noteq> [] \<longrightarrow> take (unat (vs_buffer_size s')) (vs_buffer s') = last ps)"
  using assms
proof (induction ps arbitrary: s)
  case (Cons p ps)
  have p: "length p \<le> length (vs_buffer s)" "length p < 2 ^ 32"
    using Cons.prems(2,3) by (auto simp: vring_consts)
  define s1 where "s1 = s\<lparr>vs_buffer := splice 0 p (vs_buffer s), vs_buffer_size := of_nat (length p)\<rparr>"
  have d: "deliver vhost_server_process ps s1 = Some s'"
    using Cons.prems(1) by (simp add: deliver1_server [OF p] s1_def)
  have "length (vs_buffer s1) = BUFFER_SIZE" using p(1) Cons.prems(2) by (simp add: s1_def)
  then have IH: "s' = s1\<lparr>vs_buffer := vs_buffer s', vs_buffer_size := vs_buffer_size s'\<rparr>"
      "ps \<noteq> [] \<longrightarrow> take (unat (vs_buffer_size s')) (vs_buffer s') = last ps"
    using Cons.IH [OF d] Cons.prems(3) by simp_all
  have "s1\<lparr>vs_buffer := vs_buffer s', vs_buffer_size := vs_buffer_size s'\<rparr> =
      s\<lparr>vs_buffer := vs_buffer s', vs_buffer_size := vs_buffer_size s'\<rparr>"
    by (simp add: s1_def)
  moreover have "take (unat (vs_buffer_size s')) (vs_buffer s') = p" if "ps = []"
    using that d p by (auto simp: s1_def splice_def unat_of_nat)
  ultimately show ?case using IH by (cases "ps = []") (metis last.simps)+
qed simp

text \<open>C13: Polling a ring that the client has filled returns, whatever the number of waiting packets: every
  packet is taken off the queue and reported in the index of the used ring. Of several packets the
  buffer of the server keeps the last one only.\<close>

theorem poll_avail_vring_delivers:
  assumes "pending vhost_server_process s i (vs_vring_table s) ps"
    and "length (vs_buffer s) = BUFFER_SIZE" "vr_desc (vt_vring (vs_vring_table s) ! i) \<noteq> 0"
  shows "\<exists>s' us'. poll_avail_vring i s = Some (of_nat (length ps), s') \<and>
    pending vhost_server_process s' i (vs_vring_table s') [] \<and>
    vm_used (vt_mem (vs_vring_table s')) (vr_used (vt_vring (vs_vring_table s) ! i)) = Some us' \<and>
    vu_idx us' = vr_last_used_idx (vt_vring (vs_vring_table s) ! i) + of_nat (length ps) \<and>
    (ps \<noteq> [] \<longrightarrow> take (unat (vs_buffer_size s')) (vs_buffer s') = last ps)"
proof -
  define t v where "t = vs_vring_table s" and "v = vt_vring t ! i"
  note p = assms(1) [folded t_def]
  obtain s' us' where r: "process_avail_vring vhost_server_process i s t = Some (of_nat (length ps), s',
        vt_upd i (advance (of_nat (length ps))) (set_used (vr_used v) us' t))"
      "deliver vhost_server_process ps s = Some s'"
      "pending vhost_server_process s' i
         (vt_upd i (advance (of_nat (length ps))) (set_used (vr_used v) us' t)) []"
      "vu_idx us' = vr_last_used_idx v + of_nat (length ps)"
    using server_sink.process_avail_returns [OF p assms(2)] unfolding v_def by blast
  have "\<forall>q\<in>set ps. virtio_net_hdr_len + length q < ETH_PACKET_SIZE"
    using pending_sizes [OF p] by blast
  note kept = deliver_server [OF r(2) assms(2) this]
  let ?t = "vt_upd i (advance (of_nat (length ps))) (set_used (vr_used v) us' t)"
  have i: "i < length (vt_vring t)" using p by (simp add: pending_def)
  have "poll_avail_vring i s = Some (of_nat (length ps), s'\<lparr>vs_vring_table := ?t\<rparr>)"
    using i r(1) assms(3) by (simp add: poll_avail_vring_def t_def)
  moreover have "pending vhost_server_process (s'\<lparr>vs_vring_table := ?t\<rparr>) i ?t []"
    using r(3) by (rule pending_Nil)
  ultimately show ?thesis
    using kept r(4) unfolding t_def [symmetric] v_def [symmetric]
    by (intro exI [of _ "s'\<lparr>vs_vring_table := ?t\<rparr>"] exI [of _ us']) simp
qed

section \<open>The memory table\<close>

text \<open>A memory table with a region whose descriptor is not valid is kept wrongly: the later regions
  stay at their own positions, while the number of regions counts the valid ones only, so that
  addresses of the last region are translated by what the table held before, or not at all.\<close>

theorem set_mem_table_gap:
  assumes "sm_fds msg = [a, b]" "mem_nregions (sm_msg msg) = 2" "a \<le> 0" "0 < b"
    and "length (vs_regions s) = VHOST_MEMORY_MAX_NREGIONS"
  shows "\<exists>s'. set_mem_table e s msg = Some (0, msg, s') \<and>
    map_guest_addr s' = map_regions mr_guest_phys_addr [vs_regions s ! 0] \<and>
    map_user_addr s' = map_regions mr_userspace_addr [vs_regions s ! 0]"
proof -
  obtain r0 rs where rs: "vs_regions s = r0 # rs" "rs \<noteq> []"
    using assms(5) by (cases "vs_regions s"; cases "tl (vs_regions s)")
      (auto simp: VHOST_MEMORY_MAX_NREGIONS_def)
  have "unat (mem_nregions (sm_msg msg)) = Suc (Suc 0)" by (simp add: assms(2))
  then show ?thesis
    using rs assms(1,3,4)
    by (auto simp: set_mem_table_def Let_def map_guest_addr_def [abs_def]
        map_user_addr_def [abs_def] split: prod.split)
qed


section \<open>A concrete server\<close>

text \<open>A server with one region, mapped at its guest address, and a ring of one descriptor: a packet of two bytes waits in
  ring 1.\<close>

definition sample_region :: VhostServerMemoryRegion where
  "sample_region = \<lparr>mr_guest_phys_addr = 0, mr_memory_size = 0x10000, mr_userspace_addr = 0x500000,
     mr_mmap_addr = 0\<rparr>"

definition sample_env :: server_env where
  "sample_env = \<lparr>se_socket = 3, se_bind = 0, se_listen = 0, se_connect = 0, se_accept = 4,
     se_select = (\<lambda>_ r w. (0, r, w)),
     se_rx = (\<lambda>_. \<lparr>in_bytes = Some [], in_trunc = False, in_fds = None, in_read = []\<rparr>),
     se_old = replicate sizeof_VhostUserMsg 0, se_send = (\<lambda>bs _. int (length bs)),
     se_read = (\<lambda>_. 8), se_mmap = (\<lambda>_ _ m. (Some 0x700000, m))\<rparr>"

definition sample_ring_mem :: vmem where
  "sample_ring_mem = \<lparr>vm_bytes = (\<lambda>_. Some 0),
     vm_desc = [16 \<mapsto> [\<lparr>vd_addr = 0x1000, vd_len = 12, vd_flags = 0, vd_next = 0\<rparr>]],
     vm_avail = [32 \<mapsto> \<lparr>va_flags = 0, va_idx = 1, va_ring = [0, 0]\<rparr>],
     vm_used = [48 \<mapsto> sample_used 0]\<rparr>"

definition sample_server :: VhostServer where
  "sample_server = (new_vhost_server sample_env sample_ring_mem True)
     \<lparr>vs_app := True, vs_nregions := 1, vs_regions := sample_region # replicate 7 sample_region,
      vs_vring_table := \<lparr>vt_vring = [sample_side 0, sample_side 0], vt_mem = sample_ring_mem\<rparr>\<rparr>"

lemmas sample_server_defs = sample_server_def new_vhost_server_def init_server_def sample_env_def
  sample_ring_mem_def sample_region_def INSTANCE_CREATED_def Let_def

lemma sample_server_pending:
  "pending vhost_server_process sample_server 1 (vs_vring_table sample_server) [[0, 0]]"
proof (rule pendingI [where v = "sample_side 0" and us = "sample_used 0"
      and ds = "[\<lparr>vd_addr = 0x1000, vd_len = 12, vd_flags = 0, vd_next = 0\<rparr>]"
      and av = "\<lparr>va_flags = 0, va_idx = 1, va_ring = [0, 0]\<rparr>"])
  show "packet vhost_server_process sample_server (vt_mem (vs_vring_table sample_server))
      [\<lparr>vd_addr = 0x1000, vd_len = 12, vd_flags = 0, vd_next = 0\<rparr>]
      (unat (va_ring \<lparr>va_flags = 0, va_idx = 1, va_ring = [0, 0]\<rparr> ! ring_pos (sample_side 0) k))
      ([[0, 0]] ! k)" if "k < length [[0, 0 :: u8]]" for k
    using that
    by (auto simp: packet_def sample_server_defs sample_side_def ring_pos_def load_Some vring_consts
        nth_Cons' nth_append intro!: exI [of _ "replicate 10 0"])
qed (simp_all add: sample_server_defs sample_side_def sample_used_def vring_consts)

theorem poll_avail_vring_delivers_witness:
  "\<exists>s'. poll_avail_vring 1 sample_server = Some (1, s') \<and>
     take (unat (vs_buffer_size s')) (vs_buffer s') = [0, 0]"
  using poll_avail_vring_delivers [OF sample_server_pending]
  by (auto simp: sample_server_defs sample_side_def)

definition sample_gap_msg :: ServerMsg where
  "sample_gap_msg = \<lparr>sm_msg = put32 5 @ put32 1 @ put32 8 @ put32 2 @ replicate 260 0, sm_fds = [0, 9]\<rparr>"

theorem set_mem_table_gap_witness:
  "\<exists>s'. set_mem_table sample_env sample_server sample_gap_msg = Some (0, sample_gap_msg, s') \<and>
     map_guest_addr s' 0x1234 = 0x1234"
  using set_mem_table_gap [of sample_gap_msg 0 9 sample_server sample_env]
  by (auto simp: sample_gap_msg_def sample_server_defs mem_nregions_def get_append_skip get_put_append
      VHOST_MEMORY_MAX_NREGIONS_def)

end
