(* ===== verification/Vhost_Client.thy ===== *)
theory Vhost_Client
  imports Vhost_Server
begin

text \<open>
  The vhost-user client: \<open>vhost_ioctl\<close> of \<open>include/vhost-user/client.c\<close>, the announcement of the rings
  in \<open>vring.c\<close>, and the client of \<open>vhost_client.c\<close>. The argument of \<open>vhost_ioctl\<close> is the bytes of the
  object it points to. The kernel is a parameter, as for the server.
\<close>

section \<open>Requests\<close>

text \<open>\<open>ce_shm_fds\<close> is the array \<open>shm_fds\<close> of \<open>shm.c\<close>, \<open>ce_rx\<close> the reply to a request, \<open>ce_eventfd\<close> the
  descriptors \<open>eventfd\<close> gives for the two events of a ring, \<open>ce_shm\<close> the address of the shared memory
  that \<open>init_shm\<close> maps for a region.\<close>

record client_env =
  ce_send :: "u8 list \<Rightarrow> int list \<Rightarrow> int"
  ce_rx :: "u32 \<Rightarrow> incoming"
  ce_shm_fds :: "int list"
  ce_eventfd :: "nat \<Rightarrow> int \<times> int"
  ce_shm :: "nat \<Rightarrow> u64 option"
  ce_socket :: int
  ce_connect :: int
  ce_select :: "int \<Rightarrow> fd_set \<Rightarrow> fd_set \<Rightarrow> int \<times> fd_set \<times> fd_set"
  ce_read :: "int \<Rightarrow> int"

type_synonym sent = "(u8 list \<times> int list) list"

text \<open>The message that \<open>vhost_ioctl\<close> builds for a request, its descriptors, and whether it waits for a
  reply; \<open>Inl\<close> is the return value \<open>-1\<close> for an unknown request.\<close>

definition new_msg :: "u32 \<Rightarrow> u32 \<Rightarrow> u8 list \<Rightarrow> VhostUserMsg" where
  "new_msg request sz payload =
     put32 request @ put32 ((0 AND NOT VHOST_USER_VERSION_MASK) OR VHOST_USER_VERSION) @ put32 sz @
     payload @ replicate (sizeof_VhostUserMsg - VHOST_USER_HDR_SIZE - length payload) 0"

definition ioctl_msg ::
    "client_env \<Rightarrow> u32 \<Rightarrow> u8 list \<Rightarrow> (unit + VhostUserMsg \<times> int list \<times> bool) option" where
  "ioctl_msg e request arg =
    (if request = VHOST_USER_GET_FEATURES \<or> request = VHOST_USER_GET_VRING_BASE
     then Some (Inr (new_msg request 0 [], [], True))
     else if request = VHOST_USER_SET_FEATURES \<or> request = VHOST_USER_SET_LOG_BASE then do {
       VALID (8 \<le> length arg);
       Some (Inr (new_msg request 8 (take 8 arg), [], False))
     }
     else if request = VHOST_USER_SET_OWNER \<or> request = VHOST_USER_RESET_OWNER
     then Some (Inr (new_msg request 0 [], [], False))
     else if request = VHOST_USER_SET_MEM_TABLE then do {
       VALID (sizeof_VhostUserMsg - VHOST_USER_HDR_SIZE \<le> length arg);
       let n = get32 arg 0;
       VALID (unat n \<le> VHOST_MEMORY_MAX_NREGIONS \<and> unat n \<le> length (ce_shm_fds e));
       Some (Inr (new_msg request (4 + 4 + 32 * n)
                    (take (sizeof_VhostUserMsg - VHOST_USER_HDR_SIZE) arg),
                  take (unat n) (ce_shm_fds e), False))
     }
     else if request = VHOST_USER_SET_LOG_FD then do {
       VALID (4 \<le> length arg);
       Some (Inr (new_msg request 0 [], [sint (get32 arg 0)], False))
     }
     else if request = VHOST_USER_SET_VRING_NUM \<or> request = VHOST_USER_SET_VRING_BASE then do {
       VALID (8 \<le> length arg);
       Some (Inr (new_msg request 8 (take 8 arg), [], False))
     }
     else if request = VHOST_USER_SET_VRING_ADDR then do {
       VALID (40 \<le> length arg);
       Some (Inr (new_msg request 40 (take 40 arg), [], False))
     }
     else if request = VHOST_USER_SET_VRING_KICK \<or> request = VHOST_USER_SET_VRING_CALL \<or>
             request = VHOST_USER_SET_VRING_ERR then do {
       VALID (8 \<le> length arg);
       let fd = sint (get32 arg 4);
       Some (Inr (new_msg request 8 (put64 (ucast (get32 arg 0))), if fd > 0 then [fd] else [], False))
     }
     else if request = VHOST_USER_NONE then Some (Inr (new_msg request 0 [], [], False))
     else Some (Inl ()))"

text \<open>The result is the return value, the object of the argument and the messages sent so far.\<close>

definition vhost_ioctl ::
    "client_env \<Rightarrow> u32 \<Rightarrow> u8 list \<Rightarrow> sent \<Rightarrow> (int \<times> u8 list \<times> sent) option" where
  "vhost_ioctl e request arg out = do {
     m \<leftarrow> ioctl_msg e request arg;
     case m of
       Inl _ \<Rightarrow> Some (- 1, arg, out)
     | Inr (msg, fds, need_reply) \<Rightarrow> do {
         n \<leftarrow> vhost_user_send_fds (ce_send e) msg fds;
         if n < 0 then Some (- 1, arg, out)
         else do {
           let out = out @ [(take (VHOST_USER_HDR_SIZE + unat (msg_size msg)) msg, fds)];
           if \<not> need_reply then Some (0, arg, out)
           else do {
             let msg = splice 0 (put32 VHOST_USER_NONE) (splice 4 (put32 0) msg);
             (r, msg, _) \<leftarrow> vhost_user_recv_fds (ce_rx e request) msg (length fds);
             if r < 0 then Some (- 1, arg, out)
             else do {
               ASSERT (msg_request msg = request);
               ASSERT (msg_flags msg AND VHOST_USER_VERSION_MASK = VHOST_USER_VERSION);
               VALID (8 \<le> length arg);
               Some (0, splice 0 (slice VHOST_USER_HDR_SIZE 8 msg) arg, out)
             }
           }
         }
       }
   }"

section \<open>Announcing the rings\<close>

text \<open>The structures of \<open>vhost.h\<close> that are sent.\<close>

definition vhost_vring_state :: "u32 \<Rightarrow> u32 \<Rightarrow> u8 list" where
  "vhost_vring_state i n = put32 i @ put32 n"

definition vhost_vring_file :: "u32 \<Rightarrow> int \<Rightarrow> u8 list" where
  "vhost_vring_file i fd = put32 i @ put32 (word_of_int fd)"

definition vhost_vring_addr :: "u32 \<Rightarrow> u32 \<Rightarrow> u64 \<Rightarrow> u64 \<Rightarrow> u64 \<Rightarrow> u64 \<Rightarrow> u8 list" where
  "vhost_vring_addr i flags desc used avail log =
     put32 i @ put32 flags @ put64 desc @ put64 used @ put64 avail @ put64 log"

text \<open>A sequence of requests that stops at the first failure.\<close>

fun ioctls :: "client_env \<Rightarrow> (u32 \<times> u8 list) list \<Rightarrow> sent \<Rightarrow> (int \<times> sent) option" where
  "ioctls e [] out = Some (0, out)"
| "ioctls e ((request, arg) # rs) out = do {
     (r, _, out) \<leftarrow> vhost_ioctl e request arg out;
     if r \<noteq> 0 then Some (- 1, out) else ioctls e rs out
   }"

definition vring_requests :: "u64 \<Rightarrow> int \<Rightarrow> int \<Rightarrow> nat \<Rightarrow> (u32 \<times> u8 list) list" where
  "vring_requests vring kickfd callfd i =
    [(VHOST_USER_SET_VRING_NUM, vhost_vring_state (of_nat i) (of_nat VHOST_VRING_SIZE)),
     (VHOST_USER_SET_VRING_BASE, vhost_vring_state (of_nat i) 0),
     (VHOST_USER_SET_VRING_KICK, vhost_vring_file (of_nat i) kickfd),
     (VHOST_USER_SET_VRING_CALL, vhost_vring_file (of_nat i) callfd),
     (VHOST_USER_SET_VRING_ADDR, vhost_vring_addr (of_nat i) 0 (vring + vhost_vring_desc)
        (vring + vhost_vring_used) (vring + vhost_vring_avail) 0)]"

text \<open>The result has the two descriptors, which are stored in the ring.\<close>

definition set_host_vring ::
    "client_env \<Rightarrow> u64 \<Rightarrow> nat \<Rightarrow> sent \<Rightarrow> (int \<times> (int \<times> int) \<times> sent) option" where
  "set_host_vring e vring i out = do {
     let (kickfd, callfd) = ce_eventfd e i;
     ASSERT (kickfd \<ge> 0);
     ASSERT (callfd \<ge> 0);
     (r, out) \<leftarrow> ioctls e (vring_requests vring kickfd callfd i) out;
     Some (r, (kickfd, callfd), out)
   }"

fun set_host_vring_table ::
    "client_env \<Rightarrow> u64 list \<Rightarrow> nat \<Rightarrow> sent \<Rightarrow> (int \<times> (int \<times> int) list \<times> sent) option" where
  "set_host_vring_table e [] i out = Some (0, [], out)"
| "set_host_vring_table e (vring # vrings) i out = do {
     (r, fds, out) \<leftarrow> set_host_vring e vring i out;
     if r \<noteq> 0 then Some (- 1, [fds], out)
     else do {
       (r, rest, out) \<leftarrow> set_host_vring_table e vrings (Suc i) out;
       Some (r, fds # rest, out)
     }
   }"

section \<open>The client\<close>

record VhostUserMemoryRegion =
  um_guest_phys_addr :: u64
  um_memory_size :: u64
  um_userspace_addr :: u64
  um_mmap_offset :: u64

definition enc_region :: "VhostUserMemoryRegion \<Rightarrow> u8 list" where
  "enc_region r = put64 (um_guest_phys_addr r) @ put64 (um_memory_size r) @
     put64 (um_userspace_addr r) @ put64 (um_mmap_offset r)"

text \<open>The bytes of a \<open>VhostUserMemory\<close>, with the unused regions zero.\<close>

definition enc_memory :: "VhostUserMemoryRegion list \<Rightarrow> u8 list" where
  "enc_memory rs = put32 (of_nat (length rs)) @ put32 0 @ concat (map enc_region rs) @
     replicate (32 * (VHOST_MEMORY_MAX_NREGIONS - length rs)) 0"

datatype client_handler = kick_client_sock

record VhostClient =
  vc_status :: int
  vc_sock :: int
  vc_fd_list :: "client_handler FdList"
  vc_memory :: "VhostUserMemoryRegion list"
  vc_features :: u64
  vc_vring_table_shm :: "u64 list"
  vc_vring_table :: VringTable
  vc_page_size :: u64
  vc_sent :: sent
  vc_kicks :: "int list"
  vc_count :: u64

definition zero_client_fds :: "client_handler FdList" where
  "zero_client_fds = \<lparr>fl_nfds = 0, fl_fdmax = 0,
     fl_read_fds = replicate FD_LIST_SIZE \<lparr>fd_fd = 0, fd_handler = None\<rparr>,
     fl_write_fds = replicate FD_LIST_SIZE \<lparr>fd_fd = 0, fd_handler = None\<rparr>, fl_ms = 0\<rparr>"

text \<open>The regions of the client; \<open>None\<close> when one cannot be created, and then the function returns a
  null pointer.\<close>

fun client_regions :: "client_env \<Rightarrow> nat \<Rightarrow> nat \<Rightarrow> VhostUserMemoryRegion list option" where
  "client_regions e i 0 = Some []"
| "client_regions e i (Suc n) = (case ce_shm e i of
     None \<Rightarrow> None
   | Some shm \<Rightarrow> map_option (Cons \<lparr>um_guest_phys_addr = shm, um_memory_size = VHOST_CLIENT_PAGE_SIZE,
         um_userspace_addr = shm, um_mmap_offset = 0\<rparr>) (client_regions e (Suc i) n))"

definition new_vhost_client :: "client_env \<Rightarrow> vmem \<Rightarrow> VhostClient option option" where
  "new_vhost_client e m = (case client_regions e 0 VHOST_CLIENT_VRING_NUM of
     None \<Rightarrow> Some None
   | Some regions \<Rightarrow> do {
       (_, vrings, m) \<leftarrow> vring_table_from_memory_region VHOST_CLIENT_VRING_NUM
                          (map um_guest_phys_addr regions) m;
       Some (Some \<lparr>vc_status = INSTANCE_CREATED, vc_sock = 0, vc_fd_list = zero_client_fds,
         vc_memory = regions, vc_features = 0, vc_vring_table_shm = vrings,
         vc_vring_table = \<lparr>vt_vring = replicate VHOST_CLIENT_VRING_NUM
            \<lparr>vr_kickfd = 0, vr_callfd = 0, vr_desc = 0, vr_avail = 0, vr_used = 0, vr_num = 0,
             vr_last_avail_idx = 0, vr_last_used_idx = 0\<rparr>, vt_mem = m\<rparr>,
         vc_page_size = VHOST_CLIENT_PAGE_SIZE, vc_sent = [], vc_kicks = [], vc_count = 0\<rparr>)
     })"

definition init_client :: "client_env \<Rightarrow> VhostClient \<Rightarrow> int \<times> VhostClient" where
  "init_client e c =
    (if vc_status c \<noteq> INSTANCE_CREATED then (0, c)
     else
       let c = c\<lparr>vc_sock := ce_socket e\<rparr>
       in if vc_sock c = - 1 \<or> ce_connect e = - 1 then (- 1, c)
          else (0, c\<lparr>vc_status := INSTANCE_INITIALIZED, vc_fd_list := init_fd_list FD_LIST_SELECT_POLL\<rparr>))"

definition client_vring :: "u64 \<Rightarrow> int \<times> int \<Rightarrow> Vring" where
  "client_vring vring fds = \<lparr>vr_kickfd = fst fds, vr_callfd = snd fds, vr_desc = vring + vhost_vring_desc,
     vr_avail = vring + vhost_vring_avail, vr_used = vring + vhost_vring_used,
     vr_num = of_nat VHOST_VRING_SIZE, vr_last_avail_idx = 0, vr_last_used_idx = 0\<rparr>"

text \<open>The results of the requests are not looked at. With a ring that could not be announced the
  descriptors of the following ones are what the shared memory holds: the model has no value for
  them.\<close>

definition init_vhost_client :: "client_env \<Rightarrow> VhostClient \<Rightarrow> (int \<times> VhostClient) option" where
  "init_vhost_client e c =
    (let (r, c) = init_client e c
     in if r \<noteq> 0 then Some (- 1, c)
        else do {
          (_, _, out) \<leftarrow> vhost_ioctl e VHOST_USER_SET_OWNER [] (vc_sent c);
          (_, f, out) \<leftarrow> vhost_ioctl e VHOST_USER_GET_FEATURES (put64 (vc_features c)) out;
          (_, _, out) \<leftarrow> vhost_ioctl e VHOST_USER_SET_MEM_TABLE (enc_memory (vc_memory c)) out;
          (_, fds, out) \<leftarrow> set_host_vring_table e (vc_vring_table_shm c) 0 out;
          VALID (length fds = length (vc_vring_table_shm c));
          let rings = map2 client_vring (vc_vring_table_shm c) fds;
          rx \<leftarrow> index rings VHOST_CLIENT_VRING_IDX_RX;
          Some (0, c\<lparr>vc_features := get64 f 0, vc_sent := out,
                     vc_vring_table := (vc_vring_table c)\<lparr>vt_vring := rings\<rparr>,
                     vc_fd_list := snd (add_fd_list FD_READ (vr_kickfd rx) (Some kick_client_sock)
                                      (vc_fd_list c))\<rparr>)
        })"

section \<open>Packets\<close>

definition avail_handler_client :: "u8 list \<Rightarrow> u64 \<Rightarrow> VhostClient \<Rightarrow> (int \<times> VhostClient) option" where
  "avail_handler_client buf sz c = Some (0, c)"

definition vhost_client_process :: "VhostClient ProcessHandler" where
  "vhost_client_process = \<lparr>ph_avail_handler = Some avail_handler_client, ph_map_handler = None\<rparr>"

definition arp_request :: "u8 list" where
  "arp_request = [0xff, 0xff, 0xff, 0xff, 0xff, 0xff,
     0x01, 0x02, 0x03, 0x04, 0x05, 0x06,
     0x08, 0x06, 0x00, 0x01, 0x08, 0x00, 0x06, 0x04, 0x00, 0x01,
     0x01, 0x02, 0x03, 0x04, 0x05, 0x06, 0xc0, 0xa8, 0x00, 0x02,
     0x00, 0x00, 0x00, 0x00, 0x00, 0x00, 0xc0, 0xa8, 0x00, 0x01] @ replicate 18 0"

definition send_packet :: "u8 list \<Rightarrow> u64 \<Rightarrow> VhostClient \<Rightarrow> (int \<times> VhostClient) option" where
  "send_packet p sz c = do {
     (r, t) \<leftarrow> put_vring vhost_client_process VHOST_CLIENT_VRING_IDX_TX p sz c (vc_vring_table c);
     let c = c\<lparr>vc_vring_table := t\<rparr>;
     if r \<noteq> 0 then Some (- 1, c)
     else do {
       v \<leftarrow> index (vt_vring t) VHOST_CLIENT_VRING_IDX_TX;
       Some (0, c\<lparr>vc_kicks := vc_kicks c @ [vr_kickfd v]\<rparr>)
     }
   }"

definition kick_client :: "client_env \<Rightarrow> int \<Rightarrow> VhostClient \<Rightarrow> VhostClient option" where
  "kick_client e kickfd c =
    (let r = ce_read e kickfd
     in if r < 0 then Some c
        else if r = 0 then Some (c\<lparr>vc_fd_list := snd (del_fd_list FD_READ kickfd (vc_fd_list c))\<rparr>)
        else do {
          (_, c, t) \<leftarrow> process_avail_vring vhost_client_process VHOST_CLIENT_VRING_IDX_RX c
                        (vc_vring_table c);
          Some (c\<lparr>vc_vring_table := t\<rparr>)
        })"

text \<open>\<open>update_stat\<close> counts the packets; \<open>print_stat\<close> only prints.\<close>

definition poll_client :: "VhostClient \<Rightarrow> (int \<times> VhostClient) option" where
  "poll_client c = do {
     (r, t) \<leftarrow> process_used_vring VHOST_CLIENT_VRING_IDX_TX (vc_vring_table c);
     let c = c\<lparr>vc_vring_table := t\<rparr>;
     if r \<noteq> 0 then Some (- 1, c)
     else do {
       (r, c) \<leftarrow> send_packet arp_request (of_nat (length arp_request)) c;
       if r \<noteq> 0 then Some (- 1, c)
       else Some (0, c\<lparr>vc_count := vc_count c + 1\<rparr>)
     }
   }"

text \<open>One round of \<open>loop_client\<close>.\<close>

definition loop_client :: "client_env \<Rightarrow> VhostClient \<Rightarrow> VhostClient option" where
  "loop_client e c = do {
     c \<leftarrow> traverse_fd_list (ce_select e) vc_fd_list (\<lambda>l c. c\<lparr>vc_fd_list := l\<rparr>)
           (\<lambda>h fd c. kick_client e fd c) c;
     (_, c) \<leftarrow> poll_client c;
     Some c
   }"

section \<open>The packets of the server\<close>

interpretation client_sink: packet_sink vhost_client_process "\<lambda>c. True"
  by unfold_locales
    (auto simp: deliver1_def vhost_client_process_def avail_handler_client_def map_addr_def)

lemma kick_client_returns:
  assumes "pending vhost_client_process c VHOST_CLIENT_VRING_IDX_RX (vc_vring_table c) ps"
  shows "\<exists>c'. kick_client e fd c = Some c'"
  using client_sink.process_avail_returns [OF assms] by (auto simp: kick_client_def Let_def)

section \<open>Requests and their handlers\<close>

text \<open>What the socket does with a message: the server receives the header, then the rest, and
  the descriptors under the numbers that the kernel gives them (\<open>dup\<close>).\<close>

definition on_wire :: "(int \<Rightarrow> int) \<Rightarrow> u8 list \<times> int list \<Rightarrow> incoming" where
  "on_wire dup m = \<lparr>in_bytes = Some (take VHOST_USER_HDR_SIZE (fst m)), in_trunc = False,
     in_fds = (if snd m = [] then None else Some (map dup (snd m))),
     in_read = drop VHOST_USER_HDR_SIZE (fst m)\<rparr>"

fun serve :: "server_env \<Rightarrow> int \<Rightarrow> (int \<Rightarrow> int) \<Rightarrow> sent \<Rightarrow> VhostServer \<Rightarrow> VhostServer option" where
  "serve e sock dup [] s = Some s"
| "serve e sock dup (m # ms) s = do {
     (_, s) \<leftarrow> receive_sock_server (e\<lparr>se_rx := (\<lambda>_. on_wire dup m)\<rparr>) sock s;
     serve e sock dup ms s
   }"

definition wire :: "u32 \<Rightarrow> u8 list \<Rightarrow> u8 list" where
  "wire r p = put32 r @ put32 1 @ put32 (of_nat (length p)) @ p"

lemma take_new_msg:
  assumes "length p \<le> 264" "sz = of_nat (length p)"
  shows "take (VHOST_USER_HDR_SIZE + unat (msg_size (new_msg r sz p))) (new_msg r sz p) = wire r p"
    "VHOST_USER_HDR_SIZE + unat (msg_size (new_msg r sz p)) \<le> length (new_msg r sz p)"
proof -
  have "unat (of_nat (length p) :: u32) = length p" using assms(1) by (simp add: unat_of_nat)
  moreover have "msg_size (new_msg r sz p) = sz"
    by (simp add: msg_size_def new_msg_def get_append_skip get_put_append)
  ultimately show "take (VHOST_USER_HDR_SIZE + unat (msg_size (new_msg r sz p))) (new_msg r sz p) = wire r p"
    "VHOST_USER_HDR_SIZE + unat (msg_size (new_msg r sz p)) \<le> length (new_msg r sz p)"
    using assms
    by (simp_all add: new_msg_def wire_def VHOST_USER_HDR_SIZE_def sizeof_VhostUserMsg_def
        VHOST_USER_VERSION_def VHOST_MEMORY_MAX_NREGIONS_def)
qed

lemma recv_wire:
  assumes "length p \<le> 264" "length old = sizeof_VhostUserMsg" "length fds \<le> n"
  shows "vhost_user_recv_fds (on_wire dup (wire r p, fds)) old n =
    Some (12, wire r p @ drop (12 + length p) old, map dup fds)"
proof -
  define h where "h = put32 r @ put32 1 @ put32 (of_nat (length p))"
  have w: "wire r p = h @ p" "length h = 12" by (simp_all add: wire_def h_def)
  have sz: "msg_size (h @ drop 12 old) = of_nat (length p)"
    by (simp add: h_def msg_size_def get_append_skip get_put_append)
  have n: "unat (of_nat (length p) :: u32) = length p" using assms(1) by (simp add: unat_of_nat)
  have "splice 0 h old = h @ drop 12 old" "splice 12 p (h @ drop 12 old) = h @ p @ drop (12 + length p) old"
    using w(2) by (simp_all add: splice_def add.commute)
  then show ?thesis
    using assms w n sz
    by (simp add: vhost_user_recv_fds_def on_wire_def VHOST_USER_HDR_SIZE_def Let_def
        sizeof_VhostUserMsg_def VHOST_MEMORY_MAX_NREGIONS_def)
qed

text \<open>A request without a reply, sent and served.\<close>

lemma serve_wire:
  assumes "length p \<le> 264" "length (se_old e) = sizeof_VhostUserMsg" "length fds \<le> 8" "vs_app s"
    and "in_msg_server e' s \<lparr>sm_msg = wire r p @ drop (12 + length p) (se_old e), sm_fds = map dup fds\<rparr> =
      Some (0, msg', s')" "e' = e\<lparr>se_rx := (\<lambda>_. on_wire dup (wire r p, fds))\<rparr>"
  shows "serve e sock dup ((wire r p, fds) # ms) s = serve e sock dup ms s'"
  using assms recv_wire [OF assms(1,2), of fds 8 dup r]
  by (simp add: receive_sock_server_def VHOST_MEMORY_MAX_NREGIONS_def)

lemma ioctl_wire:
  assumes "ioctl_msg e r arg = Some (Inr (new_msg r sz p, fds, False))"
    and "length p \<le> 264" "sz = of_nat (length p)" "\<And>bs fds. ce_send e bs fds \<ge> 0"
  shows "vhost_ioctl e r arg out = Some (0, arg, out @ [(wire r p, fds)])"
  using assms take_new_msg [OF assms(2,3), of r]
  by (simp add: vhost_ioctl_def vhost_user_send_fds_def Let_def not_less)

lemma ring_index_2: "i < 2 \<Longrightarrow> vring_index (of_nat i) = Some i"
  by (cases "i = 0"; cases "i = 1") (auto simp: vring_index_def vring_consts)

lemma wire_request: "msg_request (wire r p @ rest) = r"
  by (simp add: msg_request_def wire_def get_put_append)

lemma wire_fields:
  "state_index (wire r (vhost_vring_state i n) @ rest) = i"
  "state_num (wire r (vhost_vring_state i n) @ rest) = n"
  "msg_u64 (wire r (put64 x) @ rest) = x"
  "addr_index (wire r (vhost_vring_addr i f d u a l) @ rest) = i"
  "addr_desc_user_addr (wire r (vhost_vring_addr i f d u a l) @ rest) = d"
  "addr_used_user_addr (wire r (vhost_vring_addr i f d u a l) @ rest) = u"
  "addr_avail_user_addr (wire r (vhost_vring_addr i f d u a l) @ rest) = a"
  by (simp_all add: msg_fields wire_def vhost_vring_state_def vhost_vring_addr_def get_append_skip
      get_put_append)

lemma vring_msgs:
  assumes "i < 2"
  shows
  "in_msg_server e s \<lparr>sm_msg = wire VHOST_USER_SET_VRING_NUM (vhost_vring_state (of_nat i) n) @ rest, sm_fds = fds\<rparr> =
     Some (0, \<lparr>sm_msg = wire VHOST_USER_SET_VRING_NUM (vhost_vring_state (of_nat i) n) @ rest, sm_fds = fds\<rparr>,
       vs_ring_upd i (vr_num_update (\<lambda>_. n)) s)"
  "in_msg_server e s \<lparr>sm_msg = wire VHOST_USER_SET_VRING_BASE (vhost_vring_state (of_nat i) n) @ rest, sm_fds = fds\<rparr> =
     Some (0, \<lparr>sm_msg = wire VHOST_USER_SET_VRING_BASE (vhost_vring_state (of_nat i) n) @ rest, sm_fds = fds\<rparr>,
       vs_ring_upd i (vr_last_avail_idx_update (\<lambda>_. ucast n)) s)"
  using ring_index_2 [OF assms]
  by (simp_all add: in_msg_server_def wire_request wire_fields vhost_requests msg_handlers_def
      set_vring_num_def set_vring_base_def)

lemma kick_index:
  assumes "i < 2"
  shows "unat ((of_nat i :: u64) AND VHOST_USER_VRING_IDX_MASK) = i"
    "(of_nat i :: u64) AND VHOST_USER_VRING_NOFD_MASK = 0"
proof -
  consider "i = 0" | "i = 1" using assms by linarith
  then show "unat ((of_nat i :: u64) AND VHOST_USER_VRING_IDX_MASK) = i"
    by cases (simp_all add: VHOST_USER_VRING_IDX_MASK_def)
  consider "i = 0" | "i = 1" using assms by linarith
  then show "(of_nat i :: u64) AND VHOST_USER_VRING_NOFD_MASK = 0"
    by cases (simp_all add: VHOST_USER_VRING_NOFD_MASK_def)
qed

lemma vring_file_msgs:
  assumes "i < 2" and "msg_u64 (sm_msg msg) = of_nat i" "sm_fds msg = [fd]"
  shows "set_vring_call s msg = Some (0, msg, vs_ring_upd i (vr_callfd_update (\<lambda>_. fd)) s)"
    "\<exists>l. set_vring_kick s msg = Some (0, msg,
       (vs_ring_upd i (vr_kickfd_update (\<lambda>_. fd)) s)\<lparr>vs_fd_list := l, vs_is_polling := False\<rparr>)"
proof -
  show "set_vring_call s msg = Some (0, msg, vs_ring_upd i (vr_callfd_update (\<lambda>_. fd)) s)"
    unfolding set_vring_call_def assms(2) kick_index [OF assms(1)] Let_def
    using assms by (simp add: VHOST_CLIENT_VRING_NUM_def)
  show "\<exists>l. set_vring_kick s msg = Some (0, msg,
       (vs_ring_upd i (vr_kickfd_update (\<lambda>_. fd)) s)\<lparr>vs_fd_list := l, vs_is_polling := False\<rparr>)"
  proof (cases "i = VHOST_CLIENT_VRING_IDX_TX")
    case True
    then show ?thesis
      unfolding set_vring_kick_def assms(2) kick_index [OF assms(1)] Let_def
      using assms by (auto simp: VHOST_CLIENT_VRING_NUM_def)
  next
    case False
    have "set_vring_kick s msg = Some (0, msg,
       (vs_ring_upd i (vr_kickfd_update (\<lambda>_. fd)) s)\<lparr>vs_fd_list := vs_fd_list s, vs_is_polling := False\<rparr>)"
      unfolding set_vring_kick_def assms(2) kick_index [OF assms(1)] Let_def
      using assms False by (simp add: VHOST_CLIENT_VRING_NUM_def vs_ring_upd_def)
    then show ?thesis by blast
  qed
qed

lemma ioctl_vring:
  "ioctl_msg e VHOST_USER_SET_VRING_NUM (vhost_vring_state i n) =
     Some (Inr (new_msg VHOST_USER_SET_VRING_NUM 8 (vhost_vring_state i n), [], False))"
  "ioctl_msg e VHOST_USER_SET_VRING_BASE (vhost_vring_state i n) =
     Some (Inr (new_msg VHOST_USER_SET_VRING_BASE 8 (vhost_vring_state i n), [], False))"
  "ioctl_msg e VHOST_USER_SET_VRING_ADDR (vhost_vring_addr i f d u a l) =
     Some (Inr (new_msg VHOST_USER_SET_VRING_ADDR 40 (vhost_vring_addr i f d u a l), [], False))"
  by (simp_all add: ioctl_msg_def vhost_requests vhost_vring_state_def vhost_vring_addr_def)

lemma ioctl_vring_file:
  assumes "0 < x" "x < 2 ^ 31"
  shows "ioctl_msg e VHOST_USER_SET_VRING_KICK (vhost_vring_file i x) =
      Some (Inr (new_msg VHOST_USER_SET_VRING_KICK 8 (put64 (ucast i)), [x], False))"
    "ioctl_msg e VHOST_USER_SET_VRING_CALL (vhost_vring_file i x) =
      Some (Inr (new_msg VHOST_USER_SET_VRING_CALL 8 (put64 (ucast i)), [x], False))"
proof -
  have "sint (word_of_int x :: u32) = x"
    using assms by (simp add: signed_of_int signed_take_bit_int_eq_self)
  then have "sint (get32 (vhost_vring_file i x) 4) = x" "get32 (vhost_vring_file i x) 0 = i"
      "length (vhost_vring_file i x) = 8"
    by (simp_all add: vhost_vring_file_def get_append_skip get_put_append get_put)
  then show "ioctl_msg e VHOST_USER_SET_VRING_KICK (vhost_vring_file i x) =
      Some (Inr (new_msg VHOST_USER_SET_VRING_KICK 8 (put64 (ucast i)), [x], False))"
    "ioctl_msg e VHOST_USER_SET_VRING_CALL (vhost_vring_file i x) =
      Some (Inr (new_msg VHOST_USER_SET_VRING_CALL 8 (put64 (ucast i)), [x], False))"
    using assms by (simp_all add: ioctl_msg_def vhost_requests Let_def)
qed

definition vring_sent :: "u64 \<Rightarrow> nat \<Rightarrow> int \<Rightarrow> int \<Rightarrow> sent" where
  "vring_sent vring i k f =
    [(wire VHOST_USER_SET_VRING_NUM (vhost_vring_state (of_nat i) (of_nat VHOST_VRING_SIZE)), []),
     (wire VHOST_USER_SET_VRING_BASE (vhost_vring_state (of_nat i) 0), []),
     (wire VHOST_USER_SET_VRING_KICK (put64 (ucast (of_nat i :: u32))), [k]),
     (wire VHOST_USER_SET_VRING_CALL (put64 (ucast (of_nat i :: u32))), [f]),
     (wire VHOST_USER_SET_VRING_ADDR (vhost_vring_addr (of_nat i) 0 (vring + vhost_vring_desc)
        (vring + vhost_vring_used) (vring + vhost_vring_avail) 0), [])]"

lemma vring_struct_lengths [simp]:
  "length (vhost_vring_state i n) = 8" "length (vhost_vring_addr i f d u a l) = 40"
  by (simp_all add: vhost_vring_state_def vhost_vring_addr_def)

lemma set_host_vring_sent:
  assumes "ce_eventfd e i = (k, f)" "0 < k" "k < 2 ^ 31" "0 < f" "f < 2 ^ 31"
    and ok: "\<And>bs fds. ce_send e bs fds \<ge> 0"
  shows "set_host_vring e vring i out = Some (0, (k, f), out @ vring_sent vring i k f)"
  using assms(1-5)
    ioctl_wire [OF ioctl_vring(1) _ _ ok] ioctl_wire [OF ioctl_vring(2) _ _ ok]
    ioctl_wire [OF ioctl_vring(3) _ _ ok] ioctl_wire [OF ioctl_vring_file(1) _ _ ok]
    ioctl_wire [OF ioctl_vring_file(2) _ _ ok]
  by (simp add: set_host_vring_def vring_requests_def vring_sent_def)

lemma ring_upd_app [simp]: "vs_app (vs_ring_upd i f s) = vs_app s"
  by (simp add: vs_ring_upd_def)

lemma vring_msg_handlers:
  "in_msg_server e s \<lparr>sm_msg = wire VHOST_USER_SET_VRING_ADDR p @ rest, sm_fds = fds\<rparr> =
     set_vring_addr s \<lparr>sm_msg = wire VHOST_USER_SET_VRING_ADDR p @ rest, sm_fds = fds\<rparr>"
  "in_msg_server e s \<lparr>sm_msg = wire VHOST_USER_SET_VRING_KICK p @ rest, sm_fds = fds\<rparr> =
     set_vring_kick s \<lparr>sm_msg = wire VHOST_USER_SET_VRING_KICK p @ rest, sm_fds = fds\<rparr>"
  "in_msg_server e s \<lparr>sm_msg = wire VHOST_USER_SET_VRING_CALL p @ rest, sm_fds = fds\<rparr> =
     set_vring_call s \<lparr>sm_msg = wire VHOST_USER_SET_VRING_CALL p @ rest, sm_fds = fds\<rparr>"
  by (simp_all add: in_msg_server_def wire_request vhost_requests msg_handlers_def)

lemma ucast_of_nat_small: "i < 2 \<Longrightarrow> (ucast (of_nat i :: u32) :: u64) = of_nat i"
  by (simp add: word_unat_eq_iff unsigned_ucast_eq unsigned_of_nat take_bit_nat_eq_self)

lemma serve_vring:
  assumes "i < 2" "vs_app s" "length (se_old e) = sizeof_VhostUserMsg"
  shows "serve e sock dup ((wire VHOST_USER_SET_VRING_NUM (vhost_vring_state (of_nat i) n), []) # ms) s =
      serve e sock dup ms (vs_ring_upd i (vr_num_update (\<lambda>_. n)) s)"
    "serve e sock dup ((wire VHOST_USER_SET_VRING_BASE (vhost_vring_state (of_nat i) n), []) # ms) s =
      serve e sock dup ms (vs_ring_upd i (vr_last_avail_idx_update (\<lambda>_. ucast n)) s)"
  by (rule serve_wire [OF _ assms(3) _ assms(2) _ refl]; simp add: vring_msgs [OF assms(1)])+

lemma serve_vring_file:
  assumes "i < 2" "vs_app s" "length (se_old e) = sizeof_VhostUserMsg"
  shows "serve e sock dup ((wire VHOST_USER_SET_VRING_CALL (put64 (ucast (of_nat i :: u32))), [fd]) # ms) s =
      serve e sock dup ms (vs_ring_upd i (vr_callfd_update (\<lambda>_. dup fd)) s)"
    "\<exists>l. serve e sock dup ((wire VHOST_USER_SET_VRING_KICK (put64 (ucast (of_nat i :: u32))), [fd]) # ms) s =
      serve e sock dup ms
        ((vs_ring_upd i (vr_kickfd_update (\<lambda>_. dup fd)) s)\<lparr>vs_fd_list := l, vs_is_polling := False\<rparr>)"
proof -
  let ?u = "put64 (ucast (of_nat i :: u32))"
  have u: "msg_u64 (wire r ?u @ rest) = of_nat i" for r rest
    by (simp add: wire_fields ucast_of_nat_small [OF assms(1)])
  let ?call = "\<lparr>sm_msg = wire VHOST_USER_SET_VRING_CALL ?u @ drop (12 + length ?u) (se_old e), sm_fds = [dup fd]\<rparr>"
  let ?kick = "\<lparr>sm_msg = wire VHOST_USER_SET_VRING_KICK ?u @ drop (12 + length ?u) (se_old e), sm_fds = [dup fd]\<rparr>"
  show "serve e sock dup ((wire VHOST_USER_SET_VRING_CALL ?u, [fd]) # ms) s =
      serve e sock dup ms (vs_ring_upd i (vr_callfd_update (\<lambda>_. dup fd)) s)"
    using vring_file_msgs(1) [OF assms(1), of ?call "dup fd" s]
    by (intro serve_wire [OF _ assms(3) _ assms(2) _ refl]) (simp_all add: u vring_msg_handlers)
  obtain l where "set_vring_kick s ?kick = Some (0, ?kick,
      (vs_ring_upd i (vr_kickfd_update (\<lambda>_. dup fd)) s)\<lparr>vs_fd_list := l, vs_is_polling := False\<rparr>)"
    using vring_file_msgs(2) [OF assms(1), of ?kick "dup fd" s] by (auto simp: u)
  then have "serve e sock dup ((wire VHOST_USER_SET_VRING_KICK ?u, [fd]) # ms) s =
      serve e sock dup ms
        ((vs_ring_upd i (vr_kickfd_update (\<lambda>_. dup fd)) s)\<lparr>vs_fd_list := l, vs_is_polling := False\<rparr>)"
    by (intro serve_wire [OF _ assms(3) _ assms(2) _ refl]) (simp_all add: vring_msg_handlers)
  then show "\<exists>l. serve e sock dup ((wire VHOST_USER_SET_VRING_KICK ?u, [fd]) # ms) s =
      serve e sock dup ms
        ((vs_ring_upd i (vr_kickfd_update (\<lambda>_. dup fd)) s)\<lparr>vs_fd_list := l, vs_is_polling := False\<rparr>)"
    by blast
qed

lemma serve_vring_addr:
  assumes "i < 2" "vs_app s" "length (se_old e) = sizeof_VhostUserMsg"
    and "vm_used (vt_mem (vs_vring_table s)) (map_user_addr s u) = Some us"
  shows "serve e sock dup ((wire VHOST_USER_SET_VRING_ADDR (vhost_vring_addr (of_nat i) fl d u a l), []) # ms) s =
      serve e sock dup ms (vs_ring_upd i (\<lambda>v. v\<lparr>vr_desc := map_user_addr s d, vr_avail := map_user_addr s a,
        vr_used := map_user_addr s u, vr_last_used_idx := vu_idx us\<rparr>) s)"
  using assms(4) ring_index_2 [OF assms(1)]
  by (intro serve_wire [OF _ assms(3) _ assms(2) _ refl])
    (simp_all add: vring_msg_handlers set_vring_addr_def wire_fields Let_def)

lemma vring_all_fields:
  "v\<lparr>vr_num := n, vr_last_avail_idx := a, vr_kickfd := k, vr_callfd := f, vr_desc := d, vr_avail := av,
     vr_used := us, vr_last_used_idx := u\<rparr> =
   \<lparr>vr_kickfd = k, vr_callfd = f, vr_desc = d, vr_avail = av, vr_used = us, vr_num = n,
    vr_last_avail_idx = a, vr_last_used_idx = u\<rparr>" for v :: Vring
  by (cases v) simp

lemma map_user_addr_cong:
  "vs_nregions s' = vs_nregions s \<Longrightarrow> vs_regions s' = vs_regions s \<Longrightarrow> map_user_addr s' = map_user_addr s"
  by (simp add: map_user_addr_def fun_eq_iff)

text \<open>C14: Client and server agree on a ring. The messages with which the client announces ring \<open>i\<close> are
  accepted by the server one after the other, and leave it with the addresses of the three parts
  of the ring in its own mapping, the size of the ring, the descriptors of the two events under
  the numbers it received them, and its indices at the beginning.\<close>

theorem vring_announced:
  assumes "ce_eventfd c i = (k, f)" "0 < k" "k < 2 ^ 31" "0 < f" "f < 2 ^ 31" "i < 2"
    and "\<And>bs fds. ce_send c bs fds \<ge> 0"
    and "vs_app s" "length (se_old e) = sizeof_VhostUserMsg"
    and "length (vt_vring (vs_vring_table s)) = VHOST_CLIENT_VRING_NUM"
    and "vm_used (vt_mem (vs_vring_table s)) (map_user_addr s (vring + vhost_vring_used)) = Some us"
  shows "\<exists>out s'. set_host_vring c vring i [] = Some (0, (k, f), out) \<and>
    serve e sock dup out s = Some s' \<and> \<not> vs_is_polling s' \<and>
    vt_vring (vs_vring_table s') = (vt_vring (vs_vring_table s))[i :=
      \<lparr>vr_kickfd = dup k, vr_callfd = dup f,
       vr_desc = map_user_addr s (vring + vhost_vring_desc),
       vr_avail = map_user_addr s (vring + vhost_vring_avail),
       vr_used = map_user_addr s (vring + vhost_vring_used),
       vr_num = of_nat VHOST_VRING_SIZE, vr_last_avail_idx = 0, vr_last_used_idx = vu_idx us\<rparr>]"
proof -
  define s2 where "s2 = vs_ring_upd i (vr_last_avail_idx_update (\<lambda>_. 0))
      (vs_ring_upd i (vr_num_update (\<lambda>_. of_nat VHOST_VRING_SIZE)) s)"
  have "\<exists>l. serve e sock dup (vring_sent vring i k f) s =
      serve e sock dup (drop 3 (vring_sent vring i k f))
        ((vs_ring_upd i (vr_kickfd_update (\<lambda>_. dup k)) s2)\<lparr>vs_fd_list := l, vs_is_polling := False\<rparr>)"
    using serve_vring_file(2) [OF assms(6) _ assms(9), of s2 sock dup k "drop 3 (vring_sent vring i k f)"]
      assms(6,8,9) by (simp add: vring_sent_def serve_vring s2_def del: serve.simps(2))
  then obtain l where l: "serve e sock dup (vring_sent vring i k f) s =
      serve e sock dup (drop 3 (vring_sent vring i k f))
        ((vs_ring_upd i (vr_kickfd_update (\<lambda>_. dup k)) s2)\<lparr>vs_fd_list := l, vs_is_polling := False\<rparr>)"
    by blast
  define s4 where "s4 = vs_ring_upd i (vr_callfd_update (\<lambda>_. dup f))
      ((vs_ring_upd i (vr_kickfd_update (\<lambda>_. dup k)) s2)\<lparr>vs_fd_list := l, vs_is_polling := False\<rparr>)"
  have same: "map_user_addr s4 = map_user_addr s" "vt_mem (vs_vring_table s4) = vt_mem (vs_vring_table s)"
      "vs_app s4"
    using assms(8) by (auto simp: s4_def s2_def vs_ring_upd_def intro!: map_user_addr_cong)
  have "serve e sock dup (vring_sent vring i k f) s =
      serve e sock dup (drop 4 (vring_sent vring i k f)) s4"
    using assms(6,8,9) by (simp add: l del: serve.simps(2))
      (simp add: vring_sent_def serve_vring_file(1) s4_def s2_def del: serve.simps(2))
  also have "\<dots> = Some (vs_ring_upd i (\<lambda>v. v\<lparr>vr_desc := map_user_addr s (vring + vhost_vring_desc),
      vr_avail := map_user_addr s (vring + vhost_vring_avail),
      vr_used := map_user_addr s (vring + vhost_vring_used), vr_last_used_idx := vu_idx us\<rparr>) s4)"
    using serve_vring_addr [OF assms(6) same(3) assms(9), of "vring + vhost_vring_used" us] assms(11)
    by (simp add: vring_sent_def same del: serve.simps(2))
  finally have "\<exists>s'. serve e sock dup (vring_sent vring i k f) s = Some s' \<and> s' =
      vs_ring_upd i (\<lambda>v. v\<lparr>vr_desc := map_user_addr s (vring + vhost_vring_desc),
      vr_avail := map_user_addr s (vring + vhost_vring_avail),
      vr_used := map_user_addr s (vring + vhost_vring_used), vr_last_used_idx := vu_idx us\<rparr>) s4"
    by blast
  then show ?thesis
    using set_host_vring_sent [OF assms(1-5,7), of vring "[]"] assms(6,10)
    by (auto simp: s4_def s2_def vs_ring_upd_def vt_upd_def VHOST_CLIENT_VRING_NUM_def vring_all_fields)
qed

definition sample_client_env :: client_env where
  "sample_client_env = \<lparr>ce_send = (\<lambda>bs _. int (length bs)),
     ce_rx = (\<lambda>_. \<lparr>in_bytes = None, in_trunc = False, in_fds = None, in_read = []\<rparr>),
     ce_shm_fds = [10, 11], ce_eventfd = (\<lambda>i. (20 + int i, 30 + int i)), ce_shm = (\<lambda>_. None),
     ce_socket = 3, ce_connect = 0, ce_select = (\<lambda>_ r w. (0, r, w)), ce_read = (\<lambda>_. 8)\<rparr>"

text \<open>The server of \<open>Vhost_Server\<close> with the region of the client mapped so that the used ring of a
  ring at \<open>0x500000\<close> is at the address \<open>48\<close>.\<close>

definition sample_peer :: VhostServer where
  "sample_peer = sample_server\<lparr>vs_regions :=
     [\<lparr>mr_guest_phys_addr = 0, mr_memory_size = 0x200000, mr_userspace_addr = 0x500000,
       mr_mmap_addr = 48 - vhost_vring_used\<rparr>]\<rparr>"

theorem vring_announced_witness:
  "\<exists>out s'. set_host_vring sample_client_env 0x500000 1 [] = Some (0, (21, 31), out) \<and>
     serve sample_env 4 (\<lambda>fd. fd + 100) out sample_peer = Some s' \<and>
     vr_kickfd (vt_vring (vs_vring_table s') ! 1) = 121 \<and> vr_used (vt_vring (vs_vring_table s') ! 1) = 48"
proof -
  have "map_user_addr sample_peer (0x500000 + vhost_vring_used) = 48"
    by (simp add: sample_peer_def sample_server_defs map_user_addr_def vring_sizes)
  then show ?thesis
    using vring_announced [where c = sample_client_env and i = 1 and k = 21 and f = 31 and s = sample_peer
        and e = sample_env and vring = "0x500000" and us = "sample_used 0" and sock = 4
        and dup = "\<lambda>fd. fd + 100"]
    by (auto simp: sample_client_env_def sample_peer_def sample_server_defs VHOST_CLIENT_VRING_NUM_def)
qed

end
