(* ===== verification/Xattr_Map.thy ===== *)
theory Xattr_Map
  imports Kfs_Prelude "HOL-Library.Sublist"
begin

text \<open>
  The mapping of extended attributes of the daemon, \<open>kfsd/src/passthrough/xattrmap.rs\<close>: the rules, their
  parser, and the translation of names between the guest (the client) and the host (the server).

  A Rust \<open>char\<close> is its code point, a byte string a list of bytes. A panic is \<open>None\<close>, an error is a value
  of the left side of a sum. The texts inside an error (the list of expected words, and the decoded
  text of a wrong word, which is kept as its bytes) are not modelled.
\<close>

section \<open>Rules\<close>

datatype ErrorKind =
    InvalidScope "u8 list" | InvalidType "u8 list" | InvalidDelimiter | IncompleteRule
  | MapRuleViolation | NoRulesProvided | UnterminatedMapping

record xattr_error =
  xe_cause :: ErrorKind
  xe_rule :: "nat option"

type_synonym Scope = u8

definition CLIENT :: Scope where "CLIENT = 0b01"
definition SERVER :: Scope where "SERVER = 0b10"

definition scope_contains :: "Scope \<Rightarrow> Scope \<Rightarrow> bool" where
  "scope_contains s t \<longleftrightarrow> s AND t = t"

definition Scope_from_bytes :: "u8 list \<Rightarrow> ErrorKind + Scope" where
  "Scope_from_bytes bs =
    (if bs = str ''all'' then Inr (CLIENT OR SERVER)
     else if bs = str ''client'' then Inr CLIENT
     else if bs = str ''server'' then Inr SERVER
     else Inl (InvalidScope bs))"

datatype Type = Prefix | Okay | Bad | Unsupported | MapRule

definition Type_from_bytes :: "u8 list \<Rightarrow> ErrorKind + Type" where
  "Type_from_bytes bs =
    (if bs = str ''prefix'' then Inr Prefix
     else if bs = str ''ok'' then Inr Okay
     else if bs = str ''bad'' then Inr Bad
     else if bs = str ''unsupported'' then Inr Unsupported
     else if bs = str ''map'' then Inr MapRule
     else Inl (InvalidType bs))"

record Rule =
  r_scope :: Scope
  r_type :: Type
  r_key :: "u8 list"
  r_prepend :: "u8 list"

definition rule_matches :: "Rule \<Rightarrow> Scope \<Rightarrow> u8 list \<Rightarrow> bool option" where
  "rule_matches r scope name =
    (if \<not> scope_contains (r_scope r) scope then Some False
     else if scope = CLIENT then Some (prefix (r_key r) name)
     else if scope = SERVER then Some (prefix (r_prepend r) name)
     else None)"

section \<open>Parsing\<close>

text \<open>A word up to the delimiter, which is consumed; \<open>None\<close> when the delimiter is missing. A character is
  cut to its lowest byte.\<close>

fun next_token :: "nat \<Rightarrow> nat list \<Rightarrow> (u8 list \<times> nat list) option" where
  "next_token delim [] = None"
| "next_token delim (c # cs) =
     (if c = delim then Some ([], cs)
      else map_option (\<lambda>(bs, rest). (of_nat c # bs, rest)) (next_token delim cs))"

text \<open>\<open>CString::new(..).unwrap()\<close> panics for a zero byte.\<close>

definition CString_new :: "u8 list \<Rightarrow> u8 list option" where
  "CString_new bs = (if 0 \<in> set bs then None else Some bs)"

definition rule_fields ::
    "Type \<Rightarrow> Scope \<Rightarrow> nat \<Rightarrow> nat list \<Rightarrow> (ErrorKind + Rule \<times> nat list) option" where
  "rule_fields ty scope delim ts = (case next_token delim ts of
     None \<Rightarrow> Some (Inl IncompleteRule)
   | Some (key, ts) \<Rightarrow> do {
       key \<leftarrow> CString_new key;
       case next_token delim ts of
         None \<Rightarrow> Some (Inl IncompleteRule)
       | Some (prepend, ts) \<Rightarrow> do {
           prepend \<leftarrow> CString_new prepend;
           Some (Inr (\<lparr>r_scope = scope, r_type = ty, r_key = key, r_prepend = prepend\<rparr>, ts))
         }
     })"

definition from_tokens :: "nat list \<Rightarrow> (ErrorKind + Rule \<times> nat list) option" where
  "from_tokens tokens = (case tokens of
     [] \<Rightarrow> Some (Inl InvalidDelimiter)
   | delim # ts \<Rightarrow> (case next_token delim ts of
       None \<Rightarrow> Some (Inl IncompleteRule)
     | Some (word, ts) \<Rightarrow> (case Type_from_bytes word of
         Inl e \<Rightarrow> Some (Inl e)
       | Inr ty \<Rightarrow>
           if ty = MapRule then rule_fields ty (CLIENT OR SERVER) delim ts
           else (case next_token delim ts of
             None \<Rightarrow> Some (Inl IncompleteRule)
           | Some (word, ts) \<Rightarrow> (case Scope_from_bytes word of
               Inl e \<Rightarrow> Some (Inl e)
             | Inr scope \<Rightarrow> rule_fields ty scope delim ts)))))"

definition expand_map_type :: "Rule \<Rightarrow> Rule list option" where
  "expand_map_type rule = do {
     ASSERT (r_type rule = MapRule);
     let all = CLIENT OR SERVER;
     let first = \<lparr>r_scope = all, r_type = Prefix, r_key = r_key rule, r_prepend = r_prepend rule\<rparr>;
     let second = (if r_key rule \<noteq> []
       then [\<lparr>r_scope = all, r_type = Bad, r_key = r_prepend rule, r_prepend = r_key rule\<rparr>] else []);
     let last_type = (if r_key rule \<noteq> [] then Okay else Bad);
     Some (first # second @ [\<lparr>r_scope = all, r_type = last_type, r_key = [], r_prepend = []\<rparr>])
   }"

text \<open>The white space of \<open>char::is_whitespace\<close>, which \<open>trim\<close> removes, and that of
  \<open>char::is_ascii_whitespace\<close>.\<close>

definition is_whitespace :: "nat \<Rightarrow> bool" where
  "is_whitespace c \<longleftrightarrow> 9 \<le> c \<and> c \<le> 13 \<or> c = 32 \<or> c = 0x85 \<or> c = 0xA0 \<or> c = 0x1680 \<or>
     0x2000 \<le> c \<and> c \<le> 0x200A \<or> c = 0x2028 \<or> c = 0x2029 \<or> c = 0x202F \<or> c = 0x205F \<or> c = 0x3000"

definition is_ascii_whitespace :: "nat \<Rightarrow> bool" where
  "is_ascii_whitespace c \<longleftrightarrow> c = 9 \<or> c = 10 \<or> c = 12 \<or> c = 13 \<or> c = 32"

definition trim :: "nat list \<Rightarrow> nat list" where
  "trim cs = rev (dropWhile is_whitespace (rev (dropWhile is_whitespace cs)))"

lemma next_token_length: "next_token d ts = Some (w, rest) \<Longrightarrow> length rest < length ts"
  by (induction ts arbitrary: w) (auto split: if_splits)

lemma rule_fields_length:
  "rule_fields ty sc d ts = Some (Inr (r, rest)) \<Longrightarrow> length rest < length ts"
  by (auto simp: rule_fields_def bind_eq_Some_conv split: option.split_asm prod.split_asm)
    (meson less_trans next_token_length)

lemma from_tokens_length: "from_tokens ts = Some (Inr (r, rest)) \<Longrightarrow> length rest < length ts"
  by (auto simp: from_tokens_def split: list.split_asm option.split_asm sum.split_asm prod.split_asm if_split_asm)
    (meson less_SucI less_trans next_token_length rule_fields_length)+

function parse_rules :: "nat list \<Rightarrow> Rule list \<Rightarrow> (xattr_error + Rule list) option" where
  "parse_rules unparsed rules = (case unparsed of
     [] \<Rightarrow> Some (if rules = [] then Inl \<lparr>xe_cause = NoRulesProvided, xe_rule = None\<rparr> else Inr rules)
   | ch # rest \<Rightarrow>
       if is_ascii_whitespace ch then parse_rules rest rules
       else (case from_tokens unparsed of
         None \<Rightarrow> None
       | Some (Inl e) \<Rightarrow> Some (Inl \<lparr>xe_cause = e, xe_rule = Some (length rules + 1)\<rparr>)
       | Some (Inr (rule, rest)) \<Rightarrow>
           if r_type rule = MapRule then
             if rest \<noteq> [] then
               Some (Inl \<lparr>xe_cause = MapRuleViolation, xe_rule = Some (length rules + 1)\<rparr>)
             else (case expand_map_type rule of
               None \<Rightarrow> None
             | Some rs \<Rightarrow> parse_rules rest (rules @ rs))
           else parse_rules rest (rules @ [rule])))"
  by pat_completeness auto

termination
  by (relation "measure (length \<circ> fst)") (auto dest: from_tokens_length)

declare parse_rules.simps [simp del]

definition try_from :: "nat list \<Rightarrow> (xattr_error + Rule list) option" where
  "try_from input = parse_rules (trim input) []"

section \<open>Translating names\<close>

datatype AppliedRule = Pass "u8 list" | Deny | NotSupported

fun find_rule :: "Rule list \<Rightarrow> Scope \<Rightarrow> u8 list \<Rightarrow> (xattr_error + Rule) option" where
  "find_rule [] scope name = Some (Inl \<lparr>xe_cause = UnterminatedMapping, xe_rule = None\<rparr>)"
| "find_rule (r # rs) scope name = do {
     b \<leftarrow> rule_matches r scope name;
     if b then Some (Inr r) else find_rule rs scope name
   }"

definition map_client_xattr :: "Rule list \<Rightarrow> u8 list \<Rightarrow> (xattr_error + AppliedRule) option" where
  "map_client_xattr rules name = do {
     f \<leftarrow> find_rule rules CLIENT name;
     case f of
       Inl e \<Rightarrow> Some (Inl e)
     | Inr rule \<Rightarrow> (case r_type rule of
         Okay \<Rightarrow> Some (Inr (Pass name))
       | Bad \<Rightarrow> Some (Inr Deny)
       | Unsupported \<Rightarrow> Some (Inr NotSupported)
       | Prefix \<Rightarrow> do { s \<leftarrow> CString_new (r_prepend rule @ name); Some (Inr (Pass s)) }
       | MapRule \<Rightarrow> None)
   }"

text \<open>The parts of a list of names between its zero bytes.\<close>

fun split_nul :: "u8 list \<Rightarrow> u8 list list" where
  "split_nul [] = [[]]"
| "split_nul (b # bs) =
     (if b = 0 then [] # split_nul bs
      else (case split_nul bs of [] \<Rightarrow> [[b]] | x # xs \<Rightarrow> (b # x) # xs))"

fun server_names :: "Rule list \<Rightarrow> u8 list list \<Rightarrow> u8 list \<Rightarrow> (xattr_error + u8 list) option" where
  "server_names rules [] filtered = Some (Inr filtered)"
| "server_names rules (name # names) filtered = do {
     f \<leftarrow> find_rule rules SERVER name;
     case f of
       Inl e \<Rightarrow> Some (Inl e)
     | Inr rule \<Rightarrow> (case r_type rule of
         Bad \<Rightarrow> server_names rules names filtered
       | Unsupported \<Rightarrow> server_names rules names filtered
       | Okay \<Rightarrow> server_names rules names (filtered @ name @ [0])
       | Prefix \<Rightarrow> server_names rules names (filtered @ drop (length (r_prepend rule)) name @ [0])
       | MapRule \<Rightarrow> None)
   }"

definition map_server_xattrlist :: "Rule list \<Rightarrow> u8 list \<Rightarrow> (xattr_error + u8 list) option" where
  "map_server_xattrlist rules names =
     map_option (map_sum id (\<lambda>filtered. if filtered = [] then [0] else filtered))
       (server_names rules (filter (\<lambda>bs. bs \<noteq> []) (split_nul names)) [])"

section \<open>Printing and parsing\<close>

fun type_word :: "Type \<Rightarrow> u8 list" where
  "type_word Prefix = str ''prefix''"
| "type_word Okay = str ''ok''"
| "type_word Bad = str ''bad''"
| "type_word Unsupported = str ''unsupported''"
| "type_word MapRule = str ''map''"

definition scope_word :: "Scope \<Rightarrow> u8 list" where
  "scope_word s = (if s = CLIENT then str ''client'' else if s = SERVER then str ''server'' else str ''all'')"

fun print_words :: "nat \<Rightarrow> u8 list list \<Rightarrow> nat list" where
  "print_words d [] = [d]"
| "print_words d (w # ws) = d # map unat w @ print_words d ws"

definition print_rule :: "nat \<Rightarrow> Rule \<Rightarrow> nat list" where
  "print_rule d r = print_words d (if r_type r = MapRule then [type_word MapRule, r_key r, r_prepend r]
     else [type_word (r_type r), scope_word (r_scope r), r_key r, r_prepend r])"

text \<open>A delimiter can be used for a rule when it is neither white space nor a small letter nor part of the
  two names.\<close>

definition printable :: "nat \<Rightarrow> Rule \<Rightarrow> bool" where
  "printable d r \<longleftrightarrow> \<not> is_whitespace d \<and> \<not> (97 \<le> d \<and> d \<le> 122) \<and>
     r_scope r \<in> {CLIENT, SERVER, CLIENT OR SERVER} \<and> 0 \<notin> set (r_key r) \<and> 0 \<notin> set (r_prepend r) \<and>
     d \<notin> unat ` set (r_key r) \<and> d \<notin> unat ` set (r_prepend r)"

lemma next_token_word:
  "d \<notin> unat ` set w \<Longrightarrow> next_token d (map unat w @ d # rest) = Some (w, rest)"
  by (induction w) auto

lemma print_words_Cons: "\<exists>ts. print_words d ws = d # ts"
  by (cases ws) auto

lemma type_word_parse:
  "Type_from_bytes (type_word ty) = Inr ty" "\<not> (97 \<le> d \<and> d \<le> 122) \<Longrightarrow> d \<notin> unat ` set (type_word ty)"
  by (cases ty; auto simp: Type_from_bytes_def str_def)+

lemma scope_word_parse:
  "s \<in> {CLIENT, SERVER, CLIENT OR SERVER} \<Longrightarrow> Scope_from_bytes (scope_word s) = Inr s"
  "\<not> (97 \<le> d \<and> d \<le> 122) \<Longrightarrow> d \<notin> unat ` set (scope_word s)"
  by (auto simp: Scope_from_bytes_def scope_word_def str_def CLIENT_def SERVER_def)

lemma rule_fields_print:
  assumes "printable d r"
  shows "rule_fields (r_type r) (r_scope r) d
    (map unat (r_key r) @ d # map unat (r_prepend r) @ d # rest) = Some (Inr (r, rest))"
  using assms by (simp add: printable_def rule_fields_def next_token_word CString_new_def)

lemma from_tokens_print:
  assumes "printable d r" "r_type r = MapRule \<longrightarrow> r_scope r = CLIENT OR SERVER"
  shows "from_tokens (print_rule d r @ rest) = Some (Inr (r, rest))"
proof -
  have w: "next_token d (map unat (type_word ty) @ d # ts) = Some (type_word ty, ts)"
      "next_token d (map unat (scope_word s) @ d # ts) = Some (scope_word s, ts)" for ty s ts
    using assms(1) type_word_parse(2) scope_word_parse(2) by (simp_all add: next_token_word printable_def)
  show ?thesis
  proof (cases "r_type r = MapRule")
    case True
    then show ?thesis
      using rule_fields_print [OF assms(1), of rest] assms(2) w(1) [of MapRule] type_word_parse(1) [of MapRule]
      by (simp add: print_rule_def from_tokens_def)
  next
    case False
    have "Scope_from_bytes (scope_word (r_scope r)) = Inr (r_scope r)"
      using assms(1) by (intro scope_word_parse) (simp add: printable_def)
    then show ?thesis
      using False rule_fields_print [OF assms(1), of rest] w type_word_parse(1)
      by (simp add: print_rule_def from_tokens_def)
  qed
qed

lemma print_rule_ends:
  "\<exists>ts. print_rule d r = d # ts" "\<exists>ts. print_rule d r = ts @ [d]"
  by (simp_all add: print_rule_def)

lemma parse_rules_print:
  assumes "\<forall>r\<in>set rs. printable d r \<and> r_type r \<noteq> MapRule"
  shows "parse_rules (concat (map (print_rule d) rs)) acc = parse_rules [] (acc @ rs)"
  using assms
proof (induction rs arbitrary: acc)
  case (Cons r rs)
  obtain ts where ts: "print_rule d r = d # ts" using print_rule_ends by blast
  have "\<not> is_ascii_whitespace d"
    using Cons.prems by (auto simp: printable_def is_whitespace_def is_ascii_whitespace_def)
  moreover have "from_tokens (d # ts @ concat (map (print_rule d) rs)) =
      Some (Inr (r, concat (map (print_rule d) rs)))"
    using from_tokens_print [of d r] Cons.prems ts by simp
  ultimately have "parse_rules (concat (map (print_rule d) (r # rs))) acc =
      parse_rules (concat (map (print_rule d) rs)) (acc @ [r])"
    using Cons.prems by (subst parse_rules.simps) (simp add: ts)
  then show ?case using Cons.IH [of "acc @ [r]"] Cons.prems by simp
qed simp

lemma trim_id: "\<not> is_whitespace d \<Longrightarrow> trim (d # ts @ [d]) = d # ts @ [d]"
  by (simp add: trim_def)

lemma trim_single: "\<not> is_whitespace d \<Longrightarrow> trim [d] = [d]"
  by (simp add: trim_def)

lemma trim_delimited:
  assumes "\<not> is_whitespace d" "cs = d # ts" "cs = us @ [d]"
  shows "trim cs = cs"
proof (cases us)
  case Nil
  then show ?thesis using assms trim_single by simp
next
  case (Cons u us')
  then show ?thesis using assms trim_id [of d us'] by simp
qed

text \<open>C15: Printing rules and parsing the text gives the rules back, for every list of rules without a
  \<open>map\<close> rule and every delimiter that does not occur in them.\<close>

theorem try_from_print:
  assumes "rs \<noteq> []" and "\<forall>r\<in>set rs. printable d r \<and> r_type r \<noteq> MapRule"
  shows "try_from (concat (map (print_rule d) rs)) = Some (Inr rs)"
proof -
  obtain r rs' where rs: "rs = r # rs'" using assms(1) by (cases rs) auto
  obtain ts where ts: "concat (map (print_rule d) rs) = d # ts"
    using print_rule_ends(1) [of d r] by (auto simp: rs)
  obtain us where us: "concat (map (print_rule d) rs) = us @ [d]"
  proof (cases rs rule: rev_cases)
    case (snoc rs'' r')
    obtain vs where "print_rule d r' = vs @ [d]" using print_rule_ends(2) by blast
    then show thesis using that snoc by simp
  qed (use assms(1) in simp)
  have "trim (concat (map (print_rule d) rs)) = concat (map (print_rule d) rs)"
    using trim_delimited [OF _ ts us] assms rs by (simp add: printable_def)
  then show ?thesis
    using parse_rules_print [OF assms(2), of "[]"] assms(1)
    by (simp add: try_from_def) (subst parse_rules.simps, simp)
qed

section \<open>The map rule\<close>

lemma rule_matches_all:
  "rule_matches \<lparr>r_scope = CLIENT OR SERVER, r_type = ty, r_key = k, r_prepend = p\<rparr> CLIENT n = Some (prefix k n)"
  "rule_matches \<lparr>r_scope = CLIENT OR SERVER, r_type = ty, r_key = k, r_prepend = p\<rparr> SERVER n = Some (prefix p n)"
  by (simp_all add: rule_matches_def scope_contains_def CLIENT_def SERVER_def)

definition map_rule :: "u8 list \<Rightarrow> u8 list \<Rightarrow> Rule" where
  "map_rule key prepend = \<lparr>r_scope = CLIENT OR SERVER, r_type = MapRule, r_key = key, r_prepend = prepend\<rparr>"

definition prefix_rule :: "u8 list \<Rightarrow> u8 list \<Rightarrow> Rule" where
  "prefix_rule key prepend = \<lparr>r_scope = CLIENT OR SERVER, r_type = Prefix, r_key = key, r_prepend = prepend\<rparr>"

lemma try_from_map_rule:
  assumes "printable d (map_rule key prepend)"
  obtains rules where "expand_map_type (map_rule key prepend) = Some rules" "rules \<noteq> []"
    "try_from (print_rule d (map_rule key prepend)) = Some (Inr rules)"
proof -
  obtain rules where e: "expand_map_type (map_rule key prepend) = Some rules" "rules \<noteq> []"
    by (auto simp: expand_map_type_def map_rule_def Let_def)
  obtain ts us where ts: "print_rule d (map_rule key prepend) = d # ts"
      "print_rule d (map_rule key prepend) = us @ [d]"
    using print_rule_ends by blast
  have "trim (print_rule d (map_rule key prepend)) = d # ts"
    using trim_delimited [OF _ ts] ts(1) assms by (simp add: printable_def)
  moreover have "\<not> is_ascii_whitespace d"
    using assms by (auto simp: printable_def is_whitespace_def is_ascii_whitespace_def)
  moreover have "from_tokens (d # ts) = Some (Inr (map_rule key prepend, []))"
    using from_tokens_print [OF assms, of "[]"] ts(1) by (simp add: map_rule_def)
  ultimately have "try_from (print_rule d (map_rule key prepend)) = parse_rules [] rules"
    using e(1) by (simp add: try_from_def) (subst parse_rules.simps, simp add: map_rule_def)
  then show thesis using that e by (subst (asm) parse_rules.simps) simp
qed

text \<open>What the client may name under a \<open>map\<close> rule: names with the key get the prefix of the host, names
  with the prefix are refused, and all others pass.\<close>

lemma map_rule_client:
  assumes "expand_map_type (map_rule key prepend) = Some rules" "0 \<notin> set prepend" "0 \<notin> set name"
  shows "map_client_xattr rules name = Some (Inr
    (if prefix key name then Pass (prepend @ name) else if prefix prepend name then Deny else Pass name))"
  using assms
  by (auto simp: expand_map_type_def map_rule_def Let_def map_client_xattr_def rule_matches_all CString_new_def
      split: if_splits)

lemma map_rule_server:
  assumes "expand_map_type (map_rule key prepend) = Some rules"
  shows "server_names rules (h # hs) acc =
    (if prefix prepend h then server_names rules hs (acc @ drop (length prepend) h @ [0])
     else if prefix key h then server_names rules hs acc
     else server_names rules hs (acc @ h @ [0]))"
  using assms
  by (auto simp: expand_map_type_def map_rule_def Let_def rule_matches_all split: if_splits)

lemma split_nul_names:
  "\<forall>h\<in>set hs. 0 \<notin> set h \<and> h \<noteq> [] \<Longrightarrow> filter (\<lambda>bs. bs \<noteq> []) (split_nul (concat (map (\<lambda>h. h @ [0]) hs))) = hs"
proof (induction hs)
  case (Cons h hs)
  have "split_nul (w @ 0 # rest) = w # split_nul rest" if "0 \<notin> set w" for w rest
    using that by (induction w) auto
  then show ?case using Cons by simp
qed simp

lemma map_rule_listed:
  assumes r: "expand_map_type (map_rule key prepend) = Some rules" "0 \<notin> set prepend"
    and "list_all2 (\<lambda>n h. map_client_xattr rules n = Some (Inr (Pass h))) names hosts"
    and "\<forall>n\<in>set names. 0 \<notin> set n"
  shows "server_names rules hosts acc = Some (Inr (acc @ concat (map (\<lambda>n. n @ [0]) names)))"
  using assms(3,4)
proof (induction names hosts arbitrary: acc rule: list_all2_induct)
  case (Cons n ns h hs)
  then show ?case
    using map_rule_client [OF r, of n] by (auto simp: map_rule_server [OF r(1)] simp del: server_names.simps(2) split: if_splits)
qed simp

text \<open>C16: The rule \<open>map\<close> keeps guest and host names apart. Parsed from its text, it puts \<open>prepend\<close> before a
  name that starts with \<open>key\<close>, refuses other names that start with \<open>prepend\<close>, and passes the rest unchanged;
  so with an empty key every name the guest can reach lies below \<open>prepend\<close>. When the host lists the
  attributes that were passed on, the guest sees the names it used, in the same order. The module
  documentation says otherwise in two places: it calls the rule equivalent to the single rule
  \<open>:prefix:all:key:prepend\<close>, which leaves every name without the key unterminated, and it says that a
  prefix rule prepends \<open>key\<close>.\<close>

theorem map_rule_roundtrip:
  assumes "printable d (map_rule key prepend)"
    and "\<forall>n\<in>set names. n \<noteq> [] \<and> 0 \<notin> set n" "names \<noteq> []"
  shows "\<exists>rules. try_from (print_rule d (map_rule key prepend)) = Some (Inr rules) \<and>
    (\<forall>n\<in>set names. map_client_xattr rules n = Some (Inr
       (if prefix key n then Pass (prepend @ n) else if prefix prepend n then Deny else Pass n)) \<and>
       (\<not> prefix key n \<longrightarrow> map_client_xattr [prefix_rule key prepend] n =
          Some (Inl \<lparr>xe_cause = UnterminatedMapping, xe_rule = None\<rparr>))) \<and>
    (\<forall>hosts. list_all2 (\<lambda>n h. map_client_xattr rules n = Some (Inr (Pass h))) names hosts \<longrightarrow>
       map_server_xattrlist rules (concat (map (\<lambda>h. h @ [0]) hosts)) =
         Some (Inr (concat (map (\<lambda>n. n @ [0]) names))))"
proof -
  obtain rules where r: "expand_map_type (map_rule key prepend) = Some rules"
      "try_from (print_rule d (map_rule key prepend)) = Some (Inr rules)"
    using try_from_map_rule [OF assms(1)] by metis
  have nul: "0 \<notin> set prepend" using assms(1) by (simp add: printable_def map_rule_def)
  note client = map_rule_client [OF r(1) nul]
  have hosts: "filter (\<lambda>bs. bs \<noteq> []) (split_nul (concat (map (\<lambda>h. h @ [0]) hosts))) = hosts"
    if "list_all2 (\<lambda>n h. map_client_xattr rules n = Some (Inr (Pass h))) names hosts" for hosts
  proof (rule split_nul_names, rule ballI)
    fix h assume "h \<in> set hosts"
    then obtain i where i: "i < length hosts" "hosts ! i = h" by (auto simp: in_set_conv_nth)
    define n where "n = names ! i"
    have "n \<in> set names" "map_client_xattr rules n = Some (Inr (Pass h))"
      using list_all2_nthD2 [OF that i(1)] list_all2_lengthD [OF that] i by (auto simp: n_def)
    then show "0 \<notin> set h \<and> h \<noteq> []" using client [of n] assms(2) nul by (auto split: if_splits)
  qed
  have "map_server_xattrlist rules (concat (map (\<lambda>h. h @ [0]) hosts)) =
      Some (Inr (concat (map (\<lambda>n. n @ [0]) names)))"
    if "list_all2 (\<lambda>n h. map_client_xattr rules n = Some (Inr (Pass h))) names hosts" for hosts
    using map_rule_listed [OF r(1) nul that, of "[]"] hosts [OF that] assms(2,3)
    by (cases names) (auto simp: map_server_xattrlist_def)
  moreover have "map_client_xattr [prefix_rule key prepend] n =
      Some (Inl \<lparr>xe_cause = UnterminatedMapping, xe_rule = None\<rparr>)" if "\<not> prefix key n" for n
    using that by (simp add: map_client_xattr_def prefix_rule_def rule_matches_all)
  ultimately show ?thesis using r(2) client assms(2) by blast
qed

theorem try_from_print_witness:
  "try_from (concat (map (print_rule 58)
     [\<lparr>r_scope = CLIENT OR SERVER, r_type = Prefix, r_key = [], r_prepend = str ''user.virtiofs.''\<rparr>,
      \<lparr>r_scope = CLIENT OR SERVER, r_type = Bad, r_key = [], r_prepend = []\<rparr>])) =
   Some (Inr [\<lparr>r_scope = CLIENT OR SERVER, r_type = Prefix, r_key = [], r_prepend = str ''user.virtiofs.''\<rparr>,
      \<lparr>r_scope = CLIENT OR SERVER, r_type = Bad, r_key = [], r_prepend = []\<rparr>])"
  by (rule try_from_print) (auto simp: printable_def is_whitespace_def str_def)

theorem map_rule_roundtrip_witness:
  "\<exists>rules. try_from (print_rule 58 (map_rule (str ''trusted.'') (str ''user.virtiofs.''))) = Some (Inr rules) \<and>
     map_client_xattr rules (str ''trusted.x'') = Some (Inr (Pass (str ''user.virtiofs.trusted.x''))) \<and>
     map_client_xattr rules (str ''y'') = Some (Inr (Pass (str ''y''))) \<and>
     map_server_xattrlist rules (str ''user.virtiofs.trusted.x'' @ [0] @ str ''y'' @ [0]) =
       Some (Inr (str ''trusted.x'' @ [0] @ str ''y'' @ [0]))"
proof -
  let ?names = "[str ''trusted.x'', str ''y'']" and ?hosts = "[str ''user.virtiofs.trusted.x'', str ''y'']"
  have p: "printable 58 (map_rule (str ''trusted.'') (str ''user.virtiofs.''))"
    by (simp add: printable_def map_rule_def is_whitespace_def str_def)
  have n: "\<forall>n\<in>set ?names. n \<noteq> [] \<and> 0 \<notin> set n" by (simp add: str_def)
  obtain rules where r: "try_from (print_rule 58 (map_rule (str ''trusted.'') (str ''user.virtiofs.''))) = Some (Inr rules)"
    and client: "\<forall>n\<in>set ?names. map_client_xattr rules n = Some (Inr (if prefix (str ''trusted.'') n
      then Pass (str ''user.virtiofs.'' @ n) else if prefix (str ''user.virtiofs.'') n then Deny else Pass n))"
    and server: "\<forall>hosts. list_all2 (\<lambda>n h. map_client_xattr rules n = Some (Inr (Pass h))) ?names hosts \<longrightarrow>
      map_server_xattrlist rules (concat (map (\<lambda>h. h @ [0]) hosts)) = Some (Inr (concat (map (\<lambda>n. n @ [0]) ?names)))"
    using map_rule_roundtrip [OF p n] by blast
  have c: "map_client_xattr rules (str ''trusted.x'') = Some (Inr (Pass (str ''user.virtiofs.trusted.x'')))"
    "map_client_xattr rules (str ''y'') = Some (Inr (Pass (str ''y'')))"
    using client by (simp_all add: str_def)
  then show ?thesis using r spec [OF server, of ?hosts] by auto
qed

end
