(* ===== verification/Host_Inodes.thy ===== *)
theory Host_Inodes
  imports Kfs_Prelude "HOL-Library.Multiset"
begin

text \<open>
  The store of the host inodes that the daemon has given to the guest, with their reference counts:
  \<open>kfsd/src/passthrough/inode_store.rs\<close>. A tree map is a map; a strong reference is the number of the inode
  it refers to, whose data are those of the store as long as they are in it. Locks and atomic operations run without
  interference, so that a compare-and-exchange succeeds at once. A panic is \<open>None\<close>. Opening files is not
  modelled: an openable handle is its handle without the mount descriptor, and the error that an
  invalid inode carries is left out.
\<close>

section \<open>The store\<close>

type_synonym Inode = u64

record CFileHandle =
  cfh_handle_bytes :: u32
  cfh_handle_type :: u32
  cfh_f_handle :: "u8 list"

record FileHandle =
  fh_mnt_id :: u64
  fh_handle :: CFileHandle

record InodeIds =
  ii_ino :: u64
  ii_dev :: u64
  ii_mnt_id :: u64

datatype FileOrHandle = FileFd int | Handle FileHandle | Invalid

datatype InodeLocation = RootNode | Path Inode "u8 list"

record InodeData =
  id_inode :: Inode
  id_file_or_handle :: FileOrHandle
  id_refcount :: u64
  id_ids :: InodeIds
  id_mode :: u32
  id_migration_info :: "InodeLocation option"

record InodeStoreInner =
  is_data :: "Inode \<rightharpoonup> InodeData"
  is_by_ids :: "InodeIds \<rightharpoonup> Inode"
  is_by_handle :: "FileHandle \<rightharpoonup> Inode"

datatype io_error = NotFound | Other

definition InodeStore_default :: InodeStoreInner where
  "InodeStore_default = \<lparr>is_data = Map.empty, is_by_ids = Map.empty, is_by_handle = Map.empty\<rparr>"

definition insert_new :: "InodeData \<Rightarrow> InodeStoreInner \<Rightarrow> InodeStoreInner option" where
  "insert_new d s = do {
     let by_ids = (is_by_ids s)(id_ids d \<mapsto> id_inode d);
     let by_handle = (case id_file_or_handle d of
       Handle h \<Rightarrow> (is_by_handle s)(h \<mapsto> id_inode d) | _ \<Rightarrow> is_by_handle s);
     ASSERT (is_data s (id_inode d) = None);
     Some \<lparr>is_data = (is_data s)(id_inode d \<mapsto> d), is_by_ids = by_ids, is_by_handle = by_handle\<rparr>
   }"

text \<open>Taking an entry out of the three maps; the result has the strong reference that the migration
  information of the entry holds.\<close>

definition parent_of :: "InodeData \<Rightarrow> Inode option" where
  "parent_of d = (case id_migration_info d of Some (Path p _) \<Rightarrow> Some p | _ \<Rightarrow> None)"

definition remove_entry :: "Inode \<Rightarrow> InodeStoreInner \<Rightarrow> Inode option \<times> InodeStoreInner" where
  "remove_entry i s = (case is_data s i of
     None \<Rightarrow> (None, s)
   | Some d \<Rightarrow>
       (parent_of d,
        \<lparr>is_data = (is_data s)(i := None), is_by_ids = (is_by_ids s)(id_ids d := None),
         is_by_handle = (case id_file_or_handle d of
           Handle h \<Rightarrow> (is_by_handle s)(h := None) | _ \<Rightarrow> is_by_handle s)\<rparr>))"

definition saturating_sub :: "u64 \<Rightarrow> u64 \<Rightarrow> u64" where
  "saturating_sub a b = (if b \<le> a then a - b else 0)"

definition set_refcount :: "Inode \<Rightarrow> u64 \<Rightarrow> InodeStoreInner \<Rightarrow> InodeStoreInner" where
  "set_refcount i n s = s\<lparr>is_data := (is_data s)(i := map_option (id_refcount_update (\<lambda>_. n)) (is_data s i))\<rparr>"

text \<open>\<open>forget_one\<close>, \<open>remove\<close> and \<open>drop_unlocked\<close> call each other along the parents of the entries.\<close>

partial_function (option) forget_one :: "Inode \<Rightarrow> u64 \<Rightarrow> InodeStoreInner \<Rightarrow> InodeStoreInner option" where
  "forget_one i n s = (case is_data s i of
     None \<Rightarrow> Some s
   | Some d \<Rightarrow>
       let new_count = saturating_sub (id_refcount d) n; s = set_refcount i new_count s
       in if new_count = 0 then (case remove_entry i s of
              (None, s) \<Rightarrow> Some s
            | (Some parent, s) \<Rightarrow> forget_one parent 1 s)
          else Some s)"

definition drop_unlocked :: "Inode \<Rightarrow> InodeStoreInner \<Rightarrow> InodeStoreInner option" where
  "drop_unlocked i s = forget_one i 1 s"

definition remove :: "Inode \<Rightarrow> InodeStoreInner \<Rightarrow> InodeStoreInner option" where
  "remove i s = (case remove_entry i s of
     (None, s) \<Rightarrow> Some s
   | (Some parent, s) \<Rightarrow> drop_unlocked parent s)"

fun forget_many :: "(Inode \<times> u64) list \<Rightarrow> InodeStoreInner \<Rightarrow> InodeStoreInner option" where
  "forget_many [] s = Some s"
| "forget_many ((i, n) # rest) s = do { s \<leftarrow> forget_one i n s; forget_many rest s }"

text \<open>The references are taken out of all entries, in the order of the tree, before the first of them
  is dropped.\<close>

fun drop_all :: "Inode list \<Rightarrow> InodeStoreInner \<Rightarrow> InodeStoreInner option" where
  "drop_all [] s = Some s"
| "drop_all (i # is) s = do { s \<leftarrow> drop_unlocked i s; drop_all is s }"

definition clear_migration_info :: "InodeStoreInner \<Rightarrow> InodeStoreInner option" where
  "clear_migration_info s =
    (let parents = List.map_filter (\<lambda>i. Option.bind (is_data s i) parent_of) (sorted_list_of_set (dom (is_data s)))
     in drop_all parents
          (s\<lparr>is_data := (\<lambda>i. map_option (id_migration_info_update (\<lambda>_. None)) (is_data s i))\<rparr>))"

definition clear :: "InodeStoreInner \<Rightarrow> InodeStoreInner option" where
  "clear s = do { s \<leftarrow> clear_migration_info s; Some InodeStore_default }"

definition get_by_ids :: "InodeIds \<Rightarrow> InodeStoreInner \<Rightarrow> InodeData option option" where
  "get_by_ids ids s = (case is_by_ids s ids of
     None \<Rightarrow> Some None
   | Some i \<Rightarrow> map_option Some (is_data s i))"

definition get_by_handle :: "FileHandle \<Rightarrow> InodeStoreInner \<Rightarrow> InodeData option option" where
  "get_by_handle h s = (case is_by_handle s h of
     None \<Rightarrow> Some None
   | Some i \<Rightarrow> map_option Some (is_data s i))"

section \<open>Strong references\<close>

text \<open>\<open>rc + 1\<close> wraps around in a release build.\<close>

definition new_with_data :: "InodeData \<Rightarrow> InodeStoreInner \<Rightarrow> io_error + Inode \<times> InodeStoreInner" where
  "new_with_data d s =
    (if id_refcount d > 0 then Inr (id_inode d, set_refcount (id_inode d) (id_refcount d + 1) s)
     else Inl NotFound)"

definition get_strong :: "Inode \<Rightarrow> InodeStoreInner \<Rightarrow> io_error + Inode \<times> InodeStoreInner" where
  "get_strong i s = (case is_data s i of
     None \<Rightarrow> Inl NotFound
   | Some d \<Rightarrow> new_with_data d s)"

definition claim_inode ::
    "FileHandle option \<Rightarrow> InodeIds \<Rightarrow> InodeStoreInner \<Rightarrow> (io_error + Inode \<times> InodeStoreInner) option" where
  "claim_inode handle ids s = do {
     by_handle \<leftarrow> (case handle of None \<Rightarrow> Some None | Some h \<Rightarrow> get_by_handle h s);
     found \<leftarrow> (case by_handle of
       Some d \<Rightarrow> Some (Some d)
     | None \<Rightarrow> do {
         r \<leftarrow> get_by_ids ids s;
         Some (case r of
           Some d \<Rightarrow> (case id_file_or_handle d of FileFd _ \<Rightarrow> Some d | _ \<Rightarrow> None)
         | None \<Rightarrow> None)
       });
     Some (case found of None \<Rightarrow> Inl NotFound | Some d \<Rightarrow> new_with_data d s)
   }"

text \<open>Dropping a strong reference, and dropping data that did not get into the store, with the reference
  their migration information holds.\<close>

definition drop_ref :: "Inode \<Rightarrow> InodeStoreInner \<Rightarrow> InodeStoreInner option" where
  "drop_ref i s = forget_one i 1 s"

definition drop_data :: "InodeData \<Rightarrow> InodeStoreInner \<Rightarrow> InodeStoreInner option" where
  "drop_data d s = (case parent_of d of None \<Rightarrow> Some s | Some p \<Rightarrow> drop_ref p s)"

definition get_or_insert ::
    "InodeData \<Rightarrow> InodeStoreInner \<Rightarrow> ((io_error + Inode) \<times> InodeStoreInner) option" where
  "get_or_insert d s = do {
     let handle = (case id_file_or_handle d of Handle h \<Rightarrow> Some h | _ \<Rightarrow> None);
     r \<leftarrow> claim_inode handle (id_ids d) s;
     case r of
       Inr (i, s) \<Rightarrow> do { s \<leftarrow> drop_data d s; Some (Inr i, s) }
     | Inl _ \<Rightarrow>
         if is_data s (id_inode d) \<noteq> None then do { s \<leftarrow> drop_data d s; Some (Inl Other, s) }
         else do {
           s \<leftarrow> insert_new (d\<lparr>id_refcount := 1\<rparr>) s;
           Some (Inr (id_inode d), s)
         }
   }"

definition InodeStore_new_inode ::
    "InodeData \<Rightarrow> InodeStoreInner \<Rightarrow> ((io_error + unit) \<times> InodeStoreInner) option" where
  "InodeStore_new_inode d s =
    (if is_data s (id_inode d) \<noteq> None then do { s \<leftarrow> drop_data d s; Some (Inl Other, s) }
     else do { s \<leftarrow> insert_new d s; Some (Inr (), s) })"

text \<open>\<open>clone\<close> of a strong reference unwraps the result of the increment, which fails on a count of zero.
  The data of an inode that has left the store live on in the references to it; \<open>orphan\<close> is their
  count, which the store does not hold.\<close>

definition clone_ref :: "Inode \<Rightarrow> u64 \<Rightarrow> InodeStoreInner \<Rightarrow> InodeStoreInner option" where
  "clone_ref i orphan s = (case is_data s i of
     Some d \<Rightarrow> (case new_with_data d s of Inr (_, s) \<Rightarrow> Some s | Inl _ \<Rightarrow> None)
   | None \<Rightarrow> if orphan > 0 then Some s else None)"

text \<open>Giving an entry its place in the tree. The reference to the parent is cloned first, then the
  assignment drops the place the entry had. The entry itself is alive throughout, so that an update of an
  entry that left the store is not seen here.\<close>

definition set_location :: "Inode \<Rightarrow> InodeLocation \<Rightarrow> u64 \<Rightarrow> InodeStoreInner \<Rightarrow> InodeStoreInner option" where
  "set_location i loc orphan s = do {
     s \<leftarrow> (case loc of RootNode \<Rightarrow> Some s | Path p _ \<Rightarrow> clone_ref p orphan s);
     s \<leftarrow> (case is_data s i of None \<Rightarrow> Some s | Some d \<Rightarrow> drop_data d s);
     Some (s\<lparr>is_data := (is_data s)(i := map_option (id_migration_info_update (\<lambda>_. Some loc)) (is_data s i))\<rparr>)
   }"

text \<open>\<open>discover\<close> from the point where the entry \<open>name\<close> of the directory \<open>parent\<close> has been opened: its
  handle, whether it is a directory, and the data of a new inode for it are given. The handle kept for
  verification is left out.\<close>

definition discover ::
    "Inode \<Rightarrow> u64 \<Rightarrow> u8 list \<Rightarrow> FileHandle option \<Rightarrow> bool \<Rightarrow> InodeData \<Rightarrow> InodeStoreInner \<Rightarrow>
     ((io_error + Inode option) \<times> InodeStoreInner) option" where
  "discover parent orphan name handle is_directory d s = do {
     r \<leftarrow> claim_inode handle (id_ids d) s;
     case r of
       Inr (i, s) \<Rightarrow> do {
         s \<leftarrow> set_location i (Path parent name) orphan s;
         if is_directory then Some (Inr (Some i), s)
         else do { s \<leftarrow> drop_ref i s; Some (Inr None, s) }
       }
     | Inl _ \<Rightarrow>
         if \<not> is_directory then Some (Inr None, s)
         else do {
           s \<leftarrow> clone_ref parent orphan s;
           (r, s) \<leftarrow> get_or_insert (d\<lparr>id_refcount := 1, id_migration_info := Some (Path parent name)\<rparr>) s;
           Some (map_sum id Some r, s)
         }
   }"

section \<open>The three maps agree\<close>

definition store_ok :: "InodeStoreInner \<Rightarrow> bool" where
  "store_ok s \<longleftrightarrow> finite (dom (is_data s)) \<and>
     (\<forall>i d. is_data s i = Some d \<longrightarrow> id_inode d = i) \<and>
     (\<forall>ids i. is_by_ids s ids = Some i \<longrightarrow> (\<exists>d. is_data s i = Some d \<and> id_ids d = ids)) \<and>
     (\<forall>h i. is_by_handle s h = Some i \<longrightarrow> (\<exists>d. is_data s i = Some d \<and> id_file_or_handle d = Handle h))"

lemma store_ok_default: "store_ok InodeStore_default"
  by (simp add: store_ok_def InodeStore_default_def)

lemma store_ok_set_refcount: "store_ok s \<Longrightarrow> store_ok (set_refcount i n s)"
  by (fastforce simp: store_ok_def set_refcount_def dom_def split: if_splits intro: rev_finite_subset)

lemma remove_entry_ok:
  assumes "store_ok s" "remove_entry i s = (p, s')"
  shows "store_ok s'"
  using assms
  by (fastforce simp: store_ok_def remove_entry_def split: option.splits FileOrHandle.splits if_splits)

lemma insert_new_ok:
  assumes "store_ok s" "insert_new d s = Some s'"
  shows "store_ok s'"
proof -
  have n: "is_data s (id_inode d) = None" using assms(2) by (auto simp: insert_new_def Let_def split: if_splits)
  show ?thesis
    using assms n
    by (fastforce simp: store_ok_def insert_new_def Let_def split: if_splits FileOrHandle.splits)
qed

lemma remove_entry_dom:
  "is_data s i \<noteq> None \<Longrightarrow> remove_entry i s = (p, s') \<Longrightarrow> dom (is_data s') = dom (is_data s) - {i}"
  by (auto simp: remove_entry_def split: option.splits if_splits)

lemma is_data_set_refcount:
  "is_data (set_refcount i n s) j =
     (if j = i then map_option (id_refcount_update (\<lambda>_. n)) (is_data s i) else is_data s j)"
  by (simp add: set_refcount_def)

lemma dom_set_refcount [simp]: "dom (is_data (set_refcount i n s)) = dom (is_data s)"
  by (auto simp: set_refcount_def dom_def)

lemma forget_one_unfold:
  assumes "is_data s i = Some d" "remove_entry i (set_refcount i (saturating_sub (id_refcount d) n) s) = (p, u)"
  shows "forget_one i n s =
    (if saturating_sub (id_refcount d) n = 0 then (case p of None \<Rightarrow> Some u | Some q \<Rightarrow> forget_one q 1 u)
     else Some (set_refcount i (saturating_sub (id_refcount d) n) s))"
proof (cases "saturating_sub (id_refcount d) n = 0")
  case True
  then show ?thesis
    using assms by (subst forget_one.simps) (simp add: Let_def split: option.split)
qed (use assms in \<open>subst forget_one.simps, simp add: Let_def\<close>)

lemma forget_one_returns:
  assumes "store_ok s"
  shows "\<exists>s'. forget_one i n s = Some s' \<and> store_ok s' \<and> dom (is_data s') \<subseteq> dom (is_data s)"
  using assms
proof (induction "card (dom (is_data s))" arbitrary: s i n rule: less_induct)
  case less
  show ?case
  proof (cases "is_data s i")
    case None
    then show ?thesis using less.prems by (subst forget_one.simps) simp
  next
    case (Some d)
    define m where "m = saturating_sub (id_refcount d) n"
    define t where "t = set_refcount i m s"
    have t: "store_ok t" "is_data t i \<noteq> None" "dom (is_data t) = dom (is_data s)"
      using less.prems Some by (simp_all add: t_def store_ok_set_refcount is_data_set_refcount)
    obtain p u where r: "remove_entry i t = (p, u)" by (cases "remove_entry i t")
    have u: "store_ok u" "dom (is_data u) = dom (is_data s) - {i}"
      using remove_entry_ok [OF t(1) r] remove_entry_dom [OF t(2) r] t(3) by simp_all
    have "card (dom (is_data u)) < card (dom (is_data s))"
      using less.prems Some u(2) by (auto simp: store_ok_def intro!: psubset_card_mono)
    note IH = less.hyps [OF this u(1)]
    have eq: "forget_one i n s = (if m = 0 then (case p of None \<Rightarrow> Some u | Some q \<Rightarrow> forget_one q 1 u) else Some t)"
      by (rule forget_one_unfold [OF Some r [unfolded t_def m_def], folded m_def, folded t_def])
    show ?thesis
    proof (cases "m = 0")
      case True
      show ?thesis
      proof (cases p)
        case None
        then show ?thesis using True eq u by auto
      next
        case (Some q)
        then show ?thesis using IH [of q 1] True eq u(2) by (simp, meson Diff_subset subset_trans)
      qed
    next
      case False
      then show ?thesis using eq t by simp
    qed
  qed
qed

section \<open>Counting references\<close>

definition children :: "InodeStoreInner \<Rightarrow> Inode \<Rightarrow> Inode set" where
  "children s i = {j. \<exists>d. is_data s j = Some d \<and> parent_of d = Some i}"

text \<open>Every reference is counted: those held outside, given as a multiset, and those in the migration
  information of other entries.\<close>

definition accounted :: "InodeStoreInner \<Rightarrow> Inode multiset \<Rightarrow> bool" where
  "accounted s refs \<longleftrightarrow> (\<forall>i. case is_data s i of
       Some d \<Rightarrow> id_refcount d > 0 \<and> unat (id_refcount d) = count refs i + card (children s i)
     | None \<Rightarrow> count refs i = 0 \<and> children s i = {})"

lemma children_set_refcount [simp]: "children (set_refcount i n s) j = children s j"
  by (auto simp: children_def set_refcount_def parent_of_def split: if_splits)

lemma finite_children: "store_ok s \<Longrightarrow> finite (children s i)"
  by (rule finite_subset [of _ "dom (is_data s)"]) (auto simp: children_def store_ok_def)

lemma set_refcount_accounted:
  assumes "accounted s refs" "is_data s i = Some d" "n > 0"
    and "unat n = count refs' i + card (children s i)" "\<forall>j. j \<noteq> i \<longrightarrow> count refs' j = count refs j"
  shows "accounted (set_refcount i n s) refs'"
  unfolding accounted_def
proof
  fix j
  show "case is_data (set_refcount i n s) j of
      Some d \<Rightarrow> id_refcount d > 0 \<and> unat (id_refcount d) = count refs' j + card (children (set_refcount i n s) j)
    | None \<Rightarrow> count refs' j = 0 \<and> children (set_refcount i n s) j = {}"
    using assms spec [OF assms(1) [unfolded accounted_def], of j]
    by (cases "j = i") (auto simp: is_data_set_refcount split: option.splits)
qed

lemma accountedD:
  assumes "accounted s refs"
  shows "is_data s i = Some d \<Longrightarrow> id_refcount d > 0 \<and> unat (id_refcount d) = count refs i + card (children s i)"
    and "is_data s i = None \<Longrightarrow> count refs i = 0 \<and> children s i = {}"
  using spec [OF assms [unfolded accounted_def], of i] by simp_all

lemma remove_accounted:
  assumes acc: "accounted s refs" and d: "is_data s i = Some d" and one: "count refs i = 1"
    and none: "children s i = {}" and ok: "store_ok s"
    and r: "remove_entry i (set_refcount i 0 s) = (p, u)"
  shows "p = parent_of d \<and> accounted u (refs - {#i#} + (case parent_of d of None \<Rightarrow> {#} | Some q \<Rightarrow> {#q#}))"
proof -
  have p: "p = parent_of d" and data: "is_data u = (is_data s)(i := None)"
    using d r by (simp_all add: remove_entry_def set_refcount_def parent_of_def flip: fun_upd_upd) auto
  have ch: "children u j = children s j - {i}" for j by (auto simp: children_def data)
  define refs' where "refs' = refs - {#i#} + (case parent_of d of None \<Rightarrow> {#} | Some q \<Rightarrow> {#q#})"
  have cnt: "count refs' j = count refs j - (if j = i then 1 else 0) + (if parent_of d = Some j then 1 else 0)" for j
    by (simp add: refs'_def split: option.split)
  have par: "parent_of d = Some j \<longleftrightarrow> i \<in> children s j" for j using d by (simp add: children_def)
  have "case is_data u j of
      Some e \<Rightarrow> id_refcount e > 0 \<and> unat (id_refcount e) = count refs' j + card (children u j)
    | None \<Rightarrow> count refs' j = 0 \<and> children u j = {}" for j
  proof (cases "j = i")
    case True
    then show ?thesis using none one par [of i] by (simp add: data cnt ch)
  next
    case ne: False
    show ?thesis
    proof (cases "is_data s j")
      case None
      then show ?thesis using accountedD(2) [OF acc None] par [of j] ne by (simp add: data cnt ch)
    next
      case (Some e)
      have "card (children s j) = card (children u j) + (if parent_of d = Some j then 1 else 0)"
        using card_Suc_Diff1 [OF finite_children [OF ok, of j], of i] by (cases "i \<in> children s j") (simp_all add: ch par)
      then show ?thesis using accountedD(1) [OF acc Some] Some ne by (simp add: data cnt)
    qed
  qed
  then show ?thesis unfolding accounted_def refs'_def [symmetric] using p by simp
qed

lemma get_strong_accounted:
  assumes "accounted s refs" "is_data s i = Some d" "id_inode d = i" "id_refcount d + 1 \<noteq> 0"
  shows "\<exists>s'. get_strong i s = Inr (i, s') \<and> accounted s' (add_mset i refs)"
proof -
  have d: "id_refcount d > 0" "unat (id_refcount d) = count refs i + card (children s i)"
    using accountedD(1) [OF assms(1,2)] by simp_all
  have "unat (id_refcount d + 1) = Suc (unat (id_refcount d))"
    using assms(4) by (simp add: unatSuc add.commute)
  then have "accounted (set_refcount i (id_refcount d + 1) s) (add_mset i refs)"
    using d(2) assms(4) by (intro set_refcount_accounted [OF assms(1,2)]) (auto simp: word_gt_0)
  then show ?thesis using assms(2,3) d(1) by (simp add: get_strong_def new_with_data_def)
qed

lemma forget_last:
  assumes "is_data s i = Some d" "id_refcount d = 1" "remove_entry i (set_refcount i 0 s) = (p, u)"
  shows "forget_one i 1 s = (case p of None \<Rightarrow> Some u | Some q \<Rightarrow> forget_one q 1 u)"
  using forget_one_unfold [of s i d 1 p u] assms by (simp add: saturating_sub_def)

lemma forget_other:
  assumes "is_data s i = Some d" "id_refcount d > 1"
  shows "forget_one i 1 s = Some (set_refcount i (id_refcount d - 1) s)"
proof -
  have "saturating_sub (id_refcount d) 1 = id_refcount d - 1" "id_refcount d - 1 \<noteq> 0"
    using assms(2) by (auto simp: saturating_sub_def)
  then show ?thesis using assms(1) by (subst forget_one.simps) (simp add: Let_def)
qed

text \<open>C10: Reference counting is exact.  If every count is the number of strong references held outside
  plus the number of entries whose migration information names it as the parent, then dropping one
  reference that is held returns, and the counts are exact again for the references that are left: no
  entry that is still referenced is removed, and every entry that lost its last reference is, along
  the whole chain of parents.\<close>

theorem drop_ref_accounted:
  assumes "store_ok s" "accounted s refs" "i \<in># refs"
  shows "\<exists>s'. drop_ref i s = Some s' \<and> store_ok s' \<and> accounted s' (refs - {#i#})"
  using assms unfolding drop_ref_def
proof (induction "card (dom (is_data s))" arbitrary: s refs i rule: less_induct)
  case less
  have "count refs i > 0" using less.prems(3) by simp
  then obtain d where d: "is_data s i = Some d"
    using accountedD(2) [OF less.prems(2), of i] by (cases "is_data s i") auto
  have n: "id_refcount d > 0" "unat (id_refcount d) = count refs i + card (children s i)"
    using accountedD(1) [OF less.prems(2) d] by simp_all
  show ?case
  proof (cases "id_refcount d = 1")
    case True
    have sum: "count refs i + card (children s i) = 1" using n(2) unfolding True by simp
    then have one: "count refs i = 1" and zero: "card (children s i) = 0" using \<open>count refs i > 0\<close> by linarith+
    then have none: "children s i = {}" using finite_children [OF less.prems(1), of i] by simp
    obtain p u where r: "remove_entry i (set_refcount i 0 s) = (p, u)" by (cases "remove_entry i (set_refcount i 0 s)")
    have u: "store_ok u" "dom (is_data u) = dom (is_data s) - {i}"
      using remove_entry_ok [OF store_ok_set_refcount [OF less.prems(1)] r]
        remove_entry_dom [OF _ r] d by (simp_all add: is_data_set_refcount)
    have acc: "accounted u (refs - {#i#} + (case p of None \<Rightarrow> {#} | Some q \<Rightarrow> {#q#}))"
      using remove_accounted [OF less.prems(2) d one none less.prems(1) r] by auto
    have "card (dom (is_data u)) < card (dom (is_data s))"
      using less.prems(1) d u(2) by (auto simp: store_ok_def intro!: psubset_card_mono)
    note IH = less.hyps [OF this u(1)]
    show ?thesis
    proof (cases p)
      case None
      then show ?thesis using forget_last [OF d True r] u(1) acc by simp
    next
      case (Some q)
      then show ?thesis using forget_last [OF d True r] IH [of "add_mset q (refs - {#i#})" q] acc by simp
    qed
  next
    case False
    then have gt: "id_refcount d > 1" using n(1) by (metis word_gt_0 word_le_less_eq word_less_1 not_less)
    then have un: "unat (id_refcount d - 1) = unat (id_refcount d) - 1" by (intro unat_minus_one) auto
    have "accounted (set_refcount i (id_refcount d - 1) s) (refs - {#i#})"
      using gt n(2) un \<open>count refs i > 0\<close>
      by (intro set_refcount_accounted [OF less.prems(2) d]) (auto simp: word_gt_0)
    then show ?thesis using forget_other [OF d gt] store_ok_set_refcount [OF less.prems(1)] by simp
  qed
qed

definition host_ids :: "u64 \<Rightarrow> InodeIds" where
  "host_ids n = \<lparr>ii_ino = n, ii_dev = 7, ii_mnt_id = 3\<rparr>"

definition host_root :: InodeData where
  "host_root = \<lparr>id_inode = 1, id_file_or_handle = FileFd 5, id_refcount = 2, id_ids = host_ids 1,
     id_mode = 16877, id_migration_info = Some RootNode\<rparr>"

definition host_file :: InodeData where
  "host_file = \<lparr>id_inode = 2, id_file_or_handle = FileFd 6, id_refcount = 1, id_ids = host_ids 2,
     id_mode = 33188, id_migration_info = Some (Path 1 [102])\<rparr>"

definition host_store :: InodeStoreInner where
  "host_store = \<lparr>is_data = [1 \<mapsto> host_root, 2 \<mapsto> host_file],
     is_by_ids = [host_ids 1 \<mapsto> 1, host_ids 2 \<mapsto> 2], is_by_handle = Map.empty\<rparr>"

lemma host_store_ok: "store_ok host_store"
  by (auto simp: store_ok_def host_store_def host_root_def host_file_def split: if_splits)

lemma host_children: "children host_store i = (if i = 1 then {2} else {})"
  by (auto simp: children_def host_store_def host_root_def host_file_def parent_of_def split: if_splits)

lemma host_accounted: "accounted host_store {#1, 2#}"
  unfolding accounted_def host_children
  by (auto simp: host_store_def host_root_def host_file_def)

theorem drop_ref_accounted_witness:
  "\<exists>s'. drop_ref 2 host_store = Some s' \<and> store_ok s' \<and> accounted s' ({#1, 2#} - {#2#})"
  by (rule drop_ref_accounted [OF host_store_ok host_accounted]) simp

section \<open>Reachable stores\<close>

lemma forget_many_ok: "store_ok s \<Longrightarrow> \<exists>s'. forget_many is s = Some s' \<and> store_ok s'"
proof (induction "is" s rule: forget_many.induct)
  case (2 i n rest s)
  obtain t where "forget_one i n s = Some t" "store_ok t" using forget_one_returns [OF 2(2)] by blast
  then show ?case using 2(1) by simp
qed simp

lemma drop_all_ok: "store_ok s \<Longrightarrow> \<exists>s'. drop_all is s = Some s' \<and> store_ok s'"
proof (induction "is" s rule: drop_all.induct)
  case (2 i rest s)
  obtain t where "drop_unlocked i s = Some t" "store_ok t"
    using forget_one_returns [OF 2(2)] unfolding drop_unlocked_def by blast
  then show ?case using 2(1) by simp
qed simp

lemma remove_ok: "store_ok s \<Longrightarrow> \<exists>s'. remove i s = Some s' \<and> store_ok s'"
  using forget_one_returns remove_entry_ok [of s i]
  by (cases "remove_entry i s") (fastforce simp: remove_def drop_unlocked_def split: option.split)

text \<open>The maps do not see the migration information.\<close>

lemma store_ok_migration:
  assumes "store_ok s" "\<And>i. is_data t i = map_option (\<lambda>d. d\<lparr>id_migration_info := f i d\<rparr>) (is_data s i)"
    and "is_by_ids t = is_by_ids s" "is_by_handle t = is_by_handle s"
  shows "store_ok t"
proof -
  have "dom (is_data t) = dom (is_data s)" by (auto simp: dom_def assms(2))
  then show ?thesis using assms(1,3,4) unfolding store_ok_def assms(2) by fastforce
qed

lemma clear_migration_info_ok: "store_ok s \<Longrightarrow> \<exists>s'. clear_migration_info s = Some s' \<and> store_ok s'"
  unfolding clear_migration_info_def Let_def
  by (rule drop_all_ok, erule store_ok_migration [where f = "\<lambda>_ _. None"]) simp_all

lemma drop_data_ok: "store_ok s \<Longrightarrow> \<exists>s'. drop_data d s = Some s' \<and> store_ok s'"
  using forget_one_returns [of s] by (cases "parent_of d") (fastforce simp: drop_data_def drop_ref_def)+

text \<open>A reference can be cloned when the count of its inode is not zero.\<close>

definition alive :: "Inode \<Rightarrow> u64 \<Rightarrow> InodeStoreInner \<Rightarrow> bool" where
  "alive i orphan s = (case is_data s i of Some d \<Rightarrow> id_refcount d \<noteq> 0 | None \<Rightarrow> orphan \<noteq> 0)"

lemma clone_ref_ok:
  assumes "store_ok s"
  shows "if alive i orphan s then \<exists>s'. clone_ref i orphan s = Some s' \<and> store_ok s' else clone_ref i orphan s = None"
  using assms
  by (auto simp: clone_ref_def alive_def new_with_data_def store_ok_set_refcount word_gt_0 split: option.splits)

lemma set_location_ok:
  assumes "store_ok s"
  shows "if (\<exists>p name. loc = Path p name \<and> \<not> alive p orphan s) then set_location i loc orphan s = None
    else \<exists>s'. set_location i loc orphan s = Some s' \<and> store_ok s'"
proof (cases "\<exists>p name. loc = Path p name \<and> \<not> alive p orphan s")
  case True
  then show ?thesis using clone_ref_ok [OF assms, of _ orphan] by (auto simp: set_location_def)
next
  case False
  obtain t where t: "(case loc of RootNode \<Rightarrow> Some s | Path p _ \<Rightarrow> clone_ref p orphan s) = Some t" "store_ok t"
  proof (cases loc)
    case (Path p name)
    then show thesis using that False clone_ref_ok [OF assms, of p orphan] by auto
  qed (use assms that in simp)
  obtain u where u: "(case is_data t i of None \<Rightarrow> Some t | Some d \<Rightarrow> drop_data d t) = Some u" "store_ok u"
    using t(2) drop_data_ok by (cases "is_data t i") auto
  have "store_ok (u\<lparr>is_data := (is_data u)(i := map_option (id_migration_info_update (\<lambda>_. Some loc)) (is_data u i))\<rparr>)"
    by (rule store_ok_migration [OF u(2), where f = "\<lambda>j d. if j = i then Some loc else id_migration_info d"])
      (auto simp: option.map_ident_strong)
  then show ?thesis unfolding set_location_def t(1) using u(1) False by simp
qed

lemma get_strong_ok: "store_ok s \<Longrightarrow> get_strong i s = Inr (j, s') \<Longrightarrow> store_ok s'"
  by (auto simp: get_strong_def new_with_data_def store_ok_set_refcount split: option.splits if_splits)

lemma get_by_ids_finds:
  assumes "store_ok s"
  shows "\<exists>r. get_by_ids ids s = Some r \<and> (\<forall>d. r = Some d \<longrightarrow> id_ids d = ids \<and> is_data s (id_inode d) = Some d)"
  using assms unfolding store_ok_def get_by_ids_def by (cases "is_by_ids s ids") (simp, fastforce)

lemma get_by_handle_finds:
  assumes "store_ok s"
  shows "\<exists>r. get_by_handle h s = Some r \<and>
    (\<forall>d. r = Some d \<longrightarrow> id_file_or_handle d = Handle h \<and> is_data s (id_inode d) = Some d)"
  using assms unfolding store_ok_def get_by_handle_def by (cases "is_by_handle s h") (simp, fastforce)

lemma claim_inode_ok:
  assumes "store_ok s"
  shows "\<exists>r. claim_inode h ids s = Some r \<and> (\<forall>i s'. r = Inr (i, s') \<longrightarrow> store_ok s')"
proof -
  obtain a where a: "(case h of None \<Rightarrow> Some None | Some x \<Rightarrow> get_by_handle x s) = Some a"
    using get_by_handle_finds [OF assms] by (cases h) (simp, fastforce)
  obtain b where b: "get_by_ids ids s = Some b" using get_by_ids_finds [OF assms] by blast
  have "new_with_data d s = Inr (i, s') \<Longrightarrow> store_ok s'" for d i s'
    using assms by (auto simp: new_with_data_def store_ok_set_refcount split: if_splits)
  then show ?thesis
    unfolding claim_inode_def a b by (auto split: option.splits)
qed

lemma new_inode_ok:
  assumes "store_ok s"
  shows "\<exists>r s'. InodeStore_new_inode d s = Some (r, s') \<and> store_ok s'"
proof (cases "is_data s (id_inode d)")
  case None
  then obtain t where "insert_new d s = Some t" by (simp add: insert_new_def Let_def)
  then show ?thesis using None insert_new_ok [OF assms] by (simp add: InodeStore_new_inode_def)
next
  case (Some e)
  then show ?thesis using drop_data_ok [OF assms, of d] by (auto simp: InodeStore_new_inode_def)
qed

lemma get_or_insert_ok:
  assumes "store_ok s"
  shows "\<exists>r s'. get_or_insert d s = Some (r, s') \<and> store_ok s'"
proof -
  define h where "h = (case id_file_or_handle d of Handle h \<Rightarrow> Some h | _ \<Rightarrow> None)"
  obtain r where r: "claim_inode h (id_ids d) s = Some r" "\<forall>i s'. r = Inr (i, s') \<longrightarrow> store_ok s'"
    using claim_inode_ok [OF assms] by blast
  show ?thesis
  proof (cases r)
    case (Inr x)
    obtain i t where x: "x = (i, t)" by (cases x)
    then have "store_ok t" using r(2) Inr by blast
    then show ?thesis
      using r(1) Inr x drop_data_ok [of t d] unfolding get_or_insert_def h_def [symmetric] by auto
  next
    case (Inl e)
    have "is_data s (id_inode d) = None \<Longrightarrow> \<exists>t. insert_new (d\<lparr>id_refcount := 1\<rparr>) s = Some t"
      by (simp add: insert_new_def Let_def)
    then show ?thesis
      using r Inl insert_new_ok [OF assms, of "d\<lparr>id_refcount := 1\<rparr>"] drop_data_ok [OF assms, of d]
      unfolding get_or_insert_def h_def [symmetric] by fastforce
  qed
qed

lemma discover_ok:
  assumes "store_ok s" "discover p orphan name h dir d s = Some (r, s')"
  shows "store_ok s'"
proof -
  obtain c where c: "claim_inode h (id_ids d) s = Some c" "\<forall>i t. c = Inr (i, t) \<longrightarrow> store_ok t"
    using claim_inode_ok [OF assms(1)] by blast
  show ?thesis
  proof (cases c)
    case (Inr x)
    obtain i t where x: "x = (i, t)" by (cases x)
    obtain u where u: "set_location i (Path p name) orphan t = Some u"
      using assms(2) c(1) Inr x by (auto simp: discover_def split: bind_splits)
    have "store_ok t" using c(2) Inr x by blast
    from set_location_ok [OF this, of "Path p name" orphan i] u have "store_ok u" by (auto split: if_splits)
    then show ?thesis
      using assms(2) c(1) Inr x u forget_one_returns [of u i 1]
      by (auto simp: discover_def drop_ref_def split: if_splits)
  next
    case (Inl e)
    show ?thesis
    proof (cases dir)
      case False
      then show ?thesis using assms c(1) Inl by (auto simp: discover_def)
    next
      case True
      then obtain u where u: "clone_ref p orphan s = Some u"
        using assms(2) c(1) Inl by (auto simp: discover_def split: bind_splits)
      then have "store_ok u" using clone_ref_ok [OF assms(1), of p orphan] by (auto split: if_splits)
      then obtain q t where "get_or_insert (d\<lparr>id_refcount := 1, id_migration_info := Some (Path p name)\<rparr>) u = Some (q, t)"
        "store_ok t" using get_or_insert_ok by blast
      then show ?thesis using assms(2) c(1) Inl True u by (simp add: discover_def)
    qed
  qed
qed

text \<open>The stores that the operations of \<open>InodeStore\<close> build, in any order.\<close>

inductive store_reach :: "InodeStoreInner \<Rightarrow> bool" where
  empty: "store_reach InodeStore_default"
| insert: "store_reach s \<Longrightarrow> get_or_insert d s = Some (r, s') \<Longrightarrow> store_reach s'"
| new: "store_reach s \<Longrightarrow> InodeStore_new_inode d s = Some (r, s') \<Longrightarrow> store_reach s'"
| claim: "store_reach s \<Longrightarrow> claim_inode h ids s = Some (Inr (i, s')) \<Longrightarrow> store_reach s'"
| strong: "store_reach s \<Longrightarrow> get_strong i s = Inr (j, s') \<Longrightarrow> store_reach s'"
| clone: "store_reach s \<Longrightarrow> clone_ref i orphan s = Some s' \<Longrightarrow> store_reach s'"
| locate: "store_reach s \<Longrightarrow> set_location i loc orphan s = Some s' \<Longrightarrow> store_reach s'"
| discover: "store_reach s \<Longrightarrow> discover p orphan name h dir d s = Some (r, s') \<Longrightarrow> store_reach s'"
| forget: "store_reach s \<Longrightarrow> forget_many is s = Some s' \<Longrightarrow> store_reach s'"
| drop: "store_reach s \<Longrightarrow> drop_ref i s = Some s' \<Longrightarrow> store_reach s'"
| remove: "store_reach s \<Longrightarrow> remove i s = Some s' \<Longrightarrow> store_reach s'"
| unlocate: "store_reach s \<Longrightarrow> clear_migration_info s = Some s' \<Longrightarrow> store_reach s'"
| clear: "store_reach s \<Longrightarrow> clear s = Some s' \<Longrightarrow> store_reach s'"

lemma store_reach_ok: "store_reach s \<Longrightarrow> store_ok s"
proof (induction rule: store_reach.induct)
  case (insert s d r s') then show ?case using get_or_insert_ok [of s d] by auto
next
  case (new s d r s') then show ?case using new_inode_ok [of s d] by auto
next
  case (claim s h ids i s') then show ?case using claim_inode_ok [of s h ids] by auto
next
  case (clone s i orphan s') then show ?case using clone_ref_ok [of s i orphan] by (auto split: if_splits)
next
  case (locate s i loc orphan s') then show ?case using set_location_ok [of s loc orphan i] by (auto split: if_splits)
next
  case (discover s p orphan name h dir d r s') then show ?case using discover_ok by blast
next
  case (forget s "is" s') then show ?case using forget_many_ok [of s "is"] by auto
next
  case (drop s i s') then show ?case using forget_one_returns [of s i 1] by (auto simp: drop_ref_def)
next
  case (remove s i s') then show ?case using remove_ok [of s i] by auto
next
  case (unlocate s s') then show ?case using clear_migration_info_ok [of s] by auto
next
  case (clear s s') then show ?case by (auto simp: clear_def store_ok_default split: bind_splits)
qed (auto simp: store_ok_default dest: get_strong_ok)



end
