(* ===== verification/Decache_Tree.thy ===== *)
theory Decache_Tree
  imports Decache "HOL-Library.Multiset"
begin

text \<open>
  The cache of path components as a tree. A heap represents a tree when its nodes hold the names and
  inode numbers of the tree, linked as \<open>src/cache.c\<close> links them, and nothing else. On the tree,
  \<open>decache_find\<close> follows a path as far as it is cached, \<open>decache_insert\<close> puts a component in front of its siblings
  and lets go of the last of twenty. \<open>decache_delete\<close> does not keep the representation.
\<close>

section \<open>Trees and heaps\<close>

datatype dtree = DNode (dt_root: nat) (dt_name: cstr) (dt_inode: u32) (dt_kids: "dtree list")

fun addrs :: "dtree \<Rightarrow> nat list" where
  "addrs (DNode a nm n ts) = a # concat (map addrs ts)"

definition link :: "dtree list \<Rightarrow> nat option \<Rightarrow> nat option" where
  "link ts x = (case ts of [] \<Rightarrow> x | t # _ \<Rightarrow> Some (dt_root t))"

definition link_last :: "dtree list \<Rightarrow> nat option \<Rightarrow> nat option" where
  "link_last ts x = (if ts = [] then x else Some (dt_root (last ts)))"

text \<open>\<open>rep h par pv nx t\<close>: the heap \<open>h\<close> has the tree \<open>t\<close> below the node \<open>par\<close>, between the siblings
  \<open>pv\<close> and \<open>nx\<close>.\<close>

fun rep :: "(nat \<Rightarrow> decache_entry option) \<Rightarrow> nat option \<Rightarrow> nat option \<Rightarrow> nat option \<Rightarrow> dtree \<Rightarrow> bool"
  and reps :: "(nat \<Rightarrow> decache_entry option) \<Rightarrow> nat \<Rightarrow> nat option \<Rightarrow> nat option \<Rightarrow> dtree list \<Rightarrow> bool" where
  "rep h par pv nx (DNode a nm n ts) \<longleftrightarrow>
     h a = Some \<lparr>de_parent = par, de_childs = link ts None, de_last_child = link_last ts None, de_prev = pv,
                 de_next = nx, de_inode_idx = n, de_count = word_of_nat (length ts), de_name = nm\<rparr> \<and>
     length ts \<le> 20 \<and> reps h a None None ts"
| "reps h a pv nx [] \<longleftrightarrow> True"
| "reps h a pv nx (t # ts) \<longleftrightarrow> rep h (Some a) pv (link ts nx) t \<and> reps h a (Some (dt_root t)) nx ts"

definition name_ok :: "cstr \<Rightarrow> bool" where
  "name_ok nm \<longleftrightarrow> nm \<noteq> [] \<and> 0 \<notin> set nm \<and> SLASH \<notin> set nm \<and> length nm + 1 \<le> DCACHE_ENTRY_NAME_LEN"

fun names_ok :: "dtree \<Rightarrow> bool" where
  "names_ok (DNode a nm n ts) \<longleftrightarrow> (\<forall>t\<in>set ts. name_ok (dt_name t) \<and> names_ok t)"

definition decache_ok :: "decache_t \<Rightarrow> dtree \<Rightarrow> bool" where
  "decache_ok d t \<longleftrightarrow> rep (dh_heap d) None None None t \<and> dt_root t = dh_root d \<and> distinct (addrs t) \<and>
     dom (dh_heap d) = set (addrs t) \<and> (\<forall>a\<in>set (addrs t). a < dh_next d) \<and> names_ok t"

lemma link_simps [simp]:
  "link [] x = x" "link (t # ts) x = Some (dt_root t)" "link_last [] x = x"
  "link_last (ts @ [t]) x = Some (dt_root t)" "link_last [t] x = Some (dt_root t)" "link_last (t # u # ts) x = link_last (u # ts) x"
  by (simp_all add: link_def link_last_def)

lemma root_in_addrs: "dt_root t \<in> set (addrs t)"
  by (cases t) simp

lemma rep_frame:
  "rep h par pv nx t \<Longrightarrow> (\<And>a. a \<in> set (addrs t) \<Longrightarrow> h' a = h a) \<Longrightarrow> rep h' par pv nx t"
  "reps h p pv nx ts \<Longrightarrow> (\<And>a t. t \<in> set ts \<Longrightarrow> a \<in> set (addrs t) \<Longrightarrow> h' a = h a) \<Longrightarrow> reps h' p pv nx ts"
  by (induction h par pv nx t and h p pv nx ts rule: rep_reps.induct) auto

lemma reps_append:
  "reps h a pv nx (us @ vs) \<longleftrightarrow> reps h a pv (link vs nx) us \<and> reps h a (link_last us pv) nx vs"
proof (induction us arbitrary: pv)
  case (Cons u us)
  have "link (us @ vs) nx = link us (link vs nx)" by (cases us) simp_all
  moreover have "link_last (u # us) pv = link_last us (Some (dt_root u))"
    by (cases us rule: rev_cases) (simp_all add: link_last_def)
  ultimately show ?case using Cons by auto
qed simp

lemma rep_heap: "rep h par pv nx t \<Longrightarrow> \<exists>e. h (dt_root t) = Some e \<and> de_prev e = pv \<and> de_next e = nx \<and>
    de_parent e = par \<and> de_inode_idx e = dt_inode t \<and> de_name e = dt_name t"
  by (cases t) auto

lemma rep_dom: "rep h par pv nx t \<Longrightarrow> set (addrs t) \<subseteq> dom h"
  "reps h p pv nx ts \<Longrightarrow> set (concat (map addrs ts)) \<subseteq> dom h"
  by (induction h par pv nx t and h p pv nx ts rule: rep_reps.induct) auto

lemma rep_relink:
  assumes "rep h par pv nx t" "distinct (addrs t)" "h (dt_root t) = Some e"
  shows "rep (h(dt_root t \<mapsto> e\<lparr>de_prev := x\<rparr>)) par x nx t" "rep (h(dt_root t \<mapsto> e\<lparr>de_next := x\<rparr>)) par pv x t"
  using assms by (cases t; auto intro!: rep_frame(2) [where h = h])+

section \<open>Freeing\<close>

lemma free_childs_step:
  "de_get a d = Some e \<Longrightarrow> free_childs (Suc k) (Some a) d = decache_free a d \<bind> free_childs k (de_next e)"
  by (subst free_childs.simps) (simp add: decache_free_def Let_def bind_assoc)

lemma free_reps:
  "rep h par pv nx t \<Longrightarrow> distinct (addrs t) \<Longrightarrow> (\<And>a. a \<in> set (addrs t) \<Longrightarrow> dh_heap d a = h a) \<Longrightarrow>
     decache_free (dt_root t) d = Some (d\<lparr>dh_heap := dh_heap d |` (- set (addrs t))\<rparr>)"
  "reps h p pv nx ts \<Longrightarrow> distinct (concat (map addrs ts)) \<Longrightarrow>
     (\<And>a. a \<in> set (concat (map addrs ts)) \<Longrightarrow> dh_heap d a = h a) \<Longrightarrow>
     free_childs (length ts) (link ts nx) d = Some (d\<lparr>dh_heap := dh_heap d |` (- set (concat (map addrs ts)))\<rparr>)"
proof (induction h par pv nx t and h p pv nx ts arbitrary: d and d rule: rep_reps.induct)
  case (1 h par pv nx a nm n ts)
  have len: "unat (word_of_nat (length ts) :: u32) = length ts" using 1(2) by (simp add: unsigned_of_nat take_bit_nat_eq_self)
  have kids: "free_childs (length ts) (link ts None) d =
      Some (d\<lparr>dh_heap := dh_heap d |` (- set (concat (map addrs ts)))\<rparr>)"
    using 1(1) 1(2) 1(3,4) by auto
  have "(dh_heap d |` (- set (concat (map addrs ts))))(a := None) = dh_heap d |` (- set (addrs (DNode a nm n ts)))"
    by (auto simp: fun_eq_iff restrict_map_def)
  then show ?case
    using 1(2-4) kids by (auto simp: decache_free_def de_get_def de_free_def len restrict_map_def)
next
  case (2 h p pv nx)
  show ?case by (subst free_childs.simps) (simp add: restrict_map_def)
next
  case (3 h p pv nx t ts)
  obtain e where e: "h (dt_root t) = Some e" "de_next e = link ts nx" using 3(3) rep_heap by fastforce
  define d' where "d' = d\<lparr>dh_heap := dh_heap d |` (- set (addrs t))\<rparr>"
  have "decache_free (dt_root t) d = Some d'" unfolding d'_def by (rule 3(1)) (use 3(3-5) in auto)
  moreover have "free_childs (length ts) (link ts nx) d' =
      Some (d'\<lparr>dh_heap := dh_heap d' |` (- set (concat (map addrs ts)))\<rparr>)"
    by (rule 3(2)) (use 3(3-5) in \<open>auto simp: d'_def restrict_map_def\<close>)
  moreover have "de_get (dt_root t) d = Some e" using e(1) 3(5) root_in_addrs [of t] by (simp add: de_get_def)
  moreover have "- set (addrs t) \<inter> - set (concat (map addrs ts)) = - set (concat (map addrs (t # ts)))" by auto
  ultimately show ?case using e(2) by (simp add: free_childs_step d'_def)
qed

section \<open>Looking up\<close>

lemma component_name_match:
  assumes "name_ok nm" "len \<le> length name" "len \<le> 254" "0 \<notin> set name"
  shows "\<exists>eq z. strncmp_eq (name_array nm) name len = Some eq \<and> index (name_array nm) len = Some z \<and>
    (eq \<and> z = 0 \<longleftrightarrow> nm = take len name)"
proof -
  have l: "length nm \<le> 254" "0 \<notin> set nm" using assms(1) by (auto simp: name_ok_def DCACHE_ENTRY_NAME_LEN_def NAME_MAX_def)
  then have n: "length (name_array nm) = 256" by (simp add: name_array_def DCACHE_ENTRY_NAME_LEN_def NAME_MAX_def)
  have "take len (name_array nm) = take len name \<and> name_array nm ! len = 0 \<longleftrightarrow> nm = take len name"
  proof
    assume m: "take len (name_array nm) = take len name \<and> name_array nm ! len = 0"
    have "\<not> len < length nm"
      using m l(2) by (auto simp: name_array_def nth_append in_set_conv_nth)
    moreover have "\<not> length nm < len"
    proof
      assume lt: "length nm < len"
      have "take len (name_array nm) ! length nm = 0"
        using lt l(1) assms(3) by (simp add: name_array_def nth_append DCACHE_ENTRY_NAME_LEN_def NAME_MAX_def)
      then have "name ! length nm = 0" using m lt by simp
      then show False using assms(2,4) lt by (metis nth_mem order.strict_trans2)
    qed
    ultimately show "nm = take len name" using m by (simp add: name_array_def)
  next
    assume "nm = take len name"
    moreover from this have "length nm = len" using assms(2) by simp
    ultimately show "take len (name_array nm) = take len name \<and> name_array nm ! len = 0"
      using assms(3) by (simp add: name_array_def nth_append DCACHE_ENTRY_NAME_LEN_def NAME_MAX_def)
  qed
  then show ?thesis
    using strncmp_eq_exact [of len "name_array nm" name] assms n by (simp add: index_def)
qed

definition kid :: "cstr \<Rightarrow> dtree list \<Rightarrow> dtree option" where
  "kid nm ts = List.find (\<lambda>t. dt_name t = nm) ts"

text \<open>The loop over siblings that are followed by \<open>nx\<close>.\<close>

lemma walk_reps:
  assumes "reps (dh_heap d) p pv nx (t # ts)" "\<forall>t\<in>set (t # ts). name_ok (dt_name t)"
    and "len \<le> length name" "len \<le> 254" "0 \<notin> set name"
  shows "walk_childs d name len (dt_root t) = (case kid (take len name) (t # ts) of
      Some c \<Rightarrow> Some (Some (dt_root c))
    | None \<Rightarrow> (case nx of None \<Rightarrow> Some None | Some x \<Rightarrow> walk_childs d name len x))"
  using assms
proof (induction ts arbitrary: t pv)
  case Nil
  obtain e where "dh_heap d (dt_root t) = Some e" "de_next e = nx" "de_name e = dt_name t"
    using Nil rep_heap [of "dh_heap d" _ pv nx t] by auto
  then show ?case using Nil(2) component_name_match [OF _ assms(3-5), of "dt_name t"]
    by (subst walk_childs.simps) (auto simp: de_get_def kid_def)
next
  case (Cons u us)
  obtain e where "dh_heap d (dt_root t) = Some e" "de_next e = Some (dt_root u)" "de_name e = dt_name t"
    using Cons(2) rep_heap [of "dh_heap d" "Some p" pv "Some (dt_root u)" t] by auto
  moreover have "walk_childs d name len (dt_root u) = (case kid (take len name) (u # us) of
      Some c \<Rightarrow> Some (Some (dt_root c))
    | None \<Rightarrow> (case nx of None \<Rightarrow> Some None | Some x \<Rightarrow> walk_childs d name len x))"
    by (rule Cons.IH [where pv = "Some (dt_root t)"]) (use Cons.prems in auto)
  ultimately show ?case using Cons(3) component_name_match [OF _ assms(3-5), of "dt_name t"]
    by (subst walk_childs.simps) (auto simp: de_get_def kid_def)
qed

lemma decache_walk_node:
  assumes "rep (dh_heap d) par pv nx t" "names_ok t" "len \<le> length name" "len \<le> 254" "0 \<notin> set name"
    and "dt_root t = (case ret of Some p \<Rightarrow> p | None \<Rightarrow> dh_root d)"
  shows "decache_walk ret name len d = Some (map_option dt_root (kid (take len name) (dt_kids t)))"
proof (cases "dt_kids t")
  case Nil
  then show ?thesis using assms by (cases t) (simp add: decache_walk_def de_get_def kid_def)
next
  case (Cons u us)
  then show ?thesis using assms walk_reps [OF _ _ assms(3-5), of d "dt_root t" None None u us]
    by (cases t) (simp add: decache_walk_def de_get_def EXT4_NAME_LEN_def split: option.split)
qed

text \<open>Following a path through the tree.\<close>

function tree_find :: "nat option \<Rightarrow> dtree \<Rightarrow> cstr \<Rightarrow> nat option \<times> cstr" where
  "tree_find ret t path = (
     let path = skip_trailing_backslash path; n = get_path_token_len path
     in if n = 0 then (ret, path)
        else case kid (take n path) (dt_kids t) of
          None \<Rightarrow> (ret, path)
        | Some c \<Rightarrow> tree_find (Some (dt_root c)) c (drop n path))"
  by pat_completeness auto
termination
proof (relation "measure (\<lambda>(ret, t, path). length path)")
  fix ret :: "nat option" and path q :: cstr and t c n
  assume "q = skip_trailing_backslash path" "n = get_path_token_len q" "n \<noteq> 0"
  then have "length q \<le> length path" "0 < n" "n \<le> length q"
    by (auto simp: skip_trailing_backslash_def get_path_token_len_def length_dropWhile_le length_takeWhile_le)
  then show "((Some (dt_root c), c, drop n q), ret, t, path) \<in> measure (\<lambda>(ret, t, path). length path)" by simp
qed simp

text \<open>No component of the path is longer than a name may be.\<close>

definition components_ok :: "cstr \<Rightarrow> bool" where
  "components_ok path \<longleftrightarrow> (\<forall>xs ys zs. path = xs @ ys @ zs \<and> SLASH \<notin> set ys \<longrightarrow> length ys \<le> EXT4_NAME_LEN)"

lemma components_okD: "components_ok path \<Longrightarrow> path = xs @ ys @ zs \<Longrightarrow> SLASH \<notin> set ys \<Longrightarrow> length ys \<le> EXT4_NAME_LEN"
  unfolding components_ok_def by blast

lemma components_suffix: "components_ok (xs @ path) \<Longrightarrow> components_ok path"
  using components_okD [of "xs @ path" "xs @ as" for as] unfolding components_ok_def [of path] by auto

lemma components_token: "components_ok path \<Longrightarrow> get_path_token_len path \<le> 254"
  using components_okD [of path "[]" "takeWhile (\<lambda>c. c \<noteq> SLASH) path" "dropWhile (\<lambda>c. c \<noteq> SLASH) path"]
  by (auto simp: get_path_token_len_def EXT4_NAME_LEN_def dest: set_takeWhileD)

lemma kid_rep:
  assumes "kid nm ts = Some c" "reps h p pv nx ts"
  shows "\<exists>pv' nx'. rep h (Some p) pv' nx' c \<and> c \<in> set ts"
proof -
  have "c \<in> set ts" using assms(1) by (auto simp: kid_def find_Some_iff)
  then obtain us vs where "ts = us @ c # vs" by (meson split_list)
  then show ?thesis using assms(2) by (auto simp: reps_append)
qed

lemma decache_find_from_tree:
  "rep (dh_heap d) par pv nx t \<Longrightarrow> names_ok t \<Longrightarrow> components_ok path \<Longrightarrow> 0 \<notin> set path \<Longrightarrow>
     dt_root t = (case ret of Some p \<Rightarrow> p | None \<Rightarrow> dh_root d) \<Longrightarrow>
     decache_find_from ret path d = Some (tree_find ret t path)"
proof (induction ret t path arbitrary: par pv nx rule: tree_find.induct)
  case (1 ret t path)
  define q where "q = skip_trailing_backslash path"
  define n where "n = get_path_token_len q"
  have suf: "\<exists>xs. path = xs @ q" unfolding q_def skip_trailing_backslash_def by (metis takeWhile_dropWhile_id)
  then have q: "components_ok q" "0 \<notin> set q" using 1(4,5) components_suffix by auto
  have n: "n \<le> length q" "n \<le> 254" "\<exists>xs. q = xs @ drop n q"
    using components_token [OF q(1)] by (auto simp: n_def get_path_token_len_def length_takeWhile_le intro: append_take_drop_id [symmetric])
  show ?case
  proof (cases "n = 0")
    case True
    then show ?thesis by (simp add: Let_def q_def [symmetric] n_def [symmetric])
  next
    case False
    note walk = decache_walk_node [OF 1(2,3) n(1,2) q(2) 1(6)]
    show ?thesis
    proof (cases "kid (take n q) (dt_kids t)")
      case None
      then show ?thesis using False walk by (simp add: Let_def q_def [symmetric] n_def [symmetric])
    next
      case (Some c)
      obtain pv' nx' where c: "rep (dh_heap d) (Some (dt_root t)) pv' nx' c" "c \<in> set (dt_kids t)"
        using kid_rep [OF Some] 1(2) by (cases t) fastforce
      have "names_ok c" using 1(3) c(2) by (cases t) auto
      then have "decache_find_from (Some (dt_root c)) (drop n q) d = Some (tree_find (Some (dt_root c)) c (drop n q))"
        using components_suffix [of "take n q" "drop n q"] q
        by (intro 1(1) [OF q_def n_def False Some c(1)]) (auto dest: in_set_dropD)
      then show ?thesis using False walk Some by (simp add: Let_def q_def [symmetric] n_def [symmetric])
    qed
  qed
qed

section \<open>Editing one node\<close>

text \<open>\<open>at p f t\<close> applies \<open>f\<close> to the subtree at the address \<open>p\<close>.\<close>

fun at :: "nat \<Rightarrow> (dtree \<Rightarrow> dtree) \<Rightarrow> dtree \<Rightarrow> dtree" where
  "at p f (DNode a nm n ts) = (if a = p then f (DNode a nm n ts) else DNode a nm n (map (at p f) ts))"

lemma at_other: "p \<notin> set (addrs t) \<Longrightarrow> at p f t = t"
  by (induction t) (auto intro: map_idI)

text \<open>The subtree at an address of the tree, and what replacing it does: \<open>R\<close> are the addresses
  outside.\<close>

definition focus ::
    "(nat \<Rightarrow> decache_entry option) \<Rightarrow> nat option \<Rightarrow> nat option \<Rightarrow> nat option \<Rightarrow> dtree \<Rightarrow> nat \<Rightarrow>
      nat option \<Rightarrow> nat option \<Rightarrow> nat option \<Rightarrow> dtree \<Rightarrow> nat multiset \<Rightarrow> bool" where
  "focus h par pv nx t p par' pv' nx' s R \<longleftrightarrow>
     dt_root s = p \<and> rep h par' pv' nx' s \<and> mset (addrs t) = mset (addrs s) + R \<and> (names_ok t \<longrightarrow> names_ok s) \<and>
     (\<forall>f. dt_root (f s) = p \<and> dt_name (f s) = dt_name s \<longrightarrow>
        dt_root (at p f t) = dt_root t \<and> dt_name (at p f t) = dt_name t \<and>
        mset (addrs (at p f t)) = mset (addrs (f s)) + R \<and>
        (names_ok t \<and> names_ok (f s) \<longrightarrow> names_ok (at p f t)) \<and>
        (\<forall>h'. rep h' par' pv' nx' (f s) \<and> (\<forall>a\<in>#R. h' a = h a) \<longrightarrow> rep h' par pv nx (at p f t)))"

lemma focus_exists:
  "rep h par pv nx t \<Longrightarrow> distinct (addrs t) \<Longrightarrow> p \<in> set (addrs t) \<Longrightarrow>
     \<exists>par' pv' nx' s R. focus h par pv nx t p par' pv' nx' s R"
proof (induction t arbitrary: par pv nx)
  case (DNode a nm n ts)
  show ?case
  proof (cases "a = p")
    case True
    then have "focus h par pv nx (DNode a nm n ts) p par pv nx (DNode a nm n ts) {#}"
      using DNode.prems by (auto simp: focus_def)
    then show ?thesis by blast
  next
    case False
    then obtain t where t: "t \<in> set ts" "p \<in> set (addrs t)" using DNode.prems by auto
    then obtain us vs where ts: "ts = us @ t # vs" by (meson split_list)
    have dis: "distinct (addrs t)" and others: "\<And>u. u \<in> set us \<or> u \<in> set vs \<Longrightarrow> set (addrs u) \<inter> set (addrs t) = {}"
      using DNode.prems(2) by (auto simp: ts)
    have r: "rep h (Some a) (link_last us None) (link vs None) t"
      "reps h a None (Some (dt_root t)) us" "reps h a (Some (dt_root t)) None vs"
      using DNode.prems(1) by (simp_all add: ts reps_append)
    obtain par' pv' nx' s R where f: "focus h (Some a) (link_last us None) (link vs None) t p par' pv' nx' s R"
      using DNode.IH [OF t(1) r(1) dis t(2)] by blast
    have map_us: "map (at p f) us = us" "map (at p f) vs = vs" for f
      using others t(2) by (auto intro!: map_idI at_other)
    define Q where "Q = R + {#a#} + mset (concat (map addrs us)) + mset (concat (map addrs vs))"
    have "focus h par pv nx (DNode a nm n ts) p par' pv' nx' s Q"
      unfolding focus_def
    proof (intro conjI allI impI)
      show "dt_root s = p" "rep h par' pv' nx' s" using f by (auto simp: focus_def)
      show "mset (addrs (DNode a nm n ts)) = mset (addrs s) + Q" using f by (simp add: focus_def ts Q_def)
      show "names_ok s" if "names_ok (DNode a nm n ts)" using f that by (auto simp: focus_def ts)
      fix g assume g: "dt_root (g s) = p \<and> dt_name (g s) = dt_name s"
      note fg = f [unfolded focus_def, THEN conjunct2, THEN conjunct2, THEN conjunct2, THEN conjunct2, THEN spec, of g, THEN mp, OF g]
      show "dt_root (at p g (DNode a nm n ts)) = dt_root (DNode a nm n ts)"
        "dt_name (at p g (DNode a nm n ts)) = dt_name (DNode a nm n ts)" using False by simp_all
      show "mset (addrs (at p g (DNode a nm n ts))) = mset (addrs (g s)) + Q"
        using False fg by (simp add: ts map_us Q_def)
      show "names_ok (at p g (DNode a nm n ts))" if "names_ok (DNode a nm n ts) \<and> names_ok (g s)"
        using False fg that by (auto simp: ts map_us)
      fix h' assume h': "rep h' par' pv' nx' (g s) \<and> (\<forall>a\<in>#Q. h' a = h a)"
      then have "rep h' (Some a) (link_last us None) (link vs None) (at p g t)" using fg by (simp add: Q_def)
      moreover have "reps h' a None (Some (dt_root t)) us" "reps h' a (Some (dt_root t)) None vs"
        using h' by (auto simp: Q_def intro: rep_frame(2) [OF r(2)] rep_frame(2) [OF r(3)])
      moreover have "h' a = h a" using h' by (simp add: Q_def)
      moreover have root: "dt_root (at p g t) = dt_root t" using fg by simp
      moreover have "link (us @ at p g t # vs) None = link (us @ t # vs) None"
        "link_last (us @ at p g t # vs) None = link_last (us @ t # vs) None"
        using root by (cases us, simp_all add: link_last_def)
      ultimately show "rep h' par pv nx (at p g (DNode a nm n ts))"
        using False DNode.prems(1) by (simp add: ts map_us reps_append)
    qed
    then show ?thesis by blast
  qed
qed

section \<open>Inserting\<close>

lemma count_nat: "length ts \<le> 20 \<Longrightarrow> unat (word_of_nat (length ts) :: u32) = length ts"
  by (simp add: unsigned_of_nat take_bit_nat_eq_self)

text \<open>The steps of \<open>decache_insert\<close> that drop the last child and that put the new node first.\<close>

definition evict_step :: "nat \<Rightarrow> decache_entry \<Rightarrow> decache_t \<Rightarrow> decache_t option" where
  "evict_step parent p d = do {
     iter \<leftarrow> de_last_child p;
     ie \<leftarrow> de_get iter d;
     prev \<leftarrow> de_prev ie;
     d \<leftarrow> de_upd prev (\<lambda>e. e\<lparr>de_next := None\<rparr>) d;
     d \<leftarrow> de_upd parent (\<lambda>p. p\<lparr>de_last_child := Some prev, de_count := de_count p - 1\<rparr>) d;
     decache_free iter d
   }"

definition push_step :: "nat \<Rightarrow> nat \<Rightarrow> decache_t \<Rightarrow> decache_t option" where
  "push_step parent new_entry d = do {
     p \<leftarrow> de_get parent d;
     d \<leftarrow> de_upd new_entry (\<lambda>e. e\<lparr>de_next := de_childs p, de_prev := None\<rparr>) d;
     first \<leftarrow> de_childs p;
     d \<leftarrow> de_upd first (\<lambda>e. e\<lparr>de_prev := Some new_entry\<rparr>) d;
     de_upd parent (\<lambda>p. p\<lparr>de_childs := Some new_entry, de_count := de_count p + 1\<rparr>) d
   }"

definition new_node :: "nat \<Rightarrow> cstr \<Rightarrow> u32 \<Rightarrow> decache_entry" where
  "new_node p nm n = \<lparr>de_parent = Some p, de_childs = None, de_last_child = None, de_prev = None, de_next = None,
     de_inode_idx = n, de_count = 0, de_name = nm\<rparr>"

lemma decache_insert_steps:
  assumes "len + 1 \<le> DCACHE_ENTRY_NAME_LEN" "a = dh_next d" "dh_heap d p = Some e" "p \<noteq> a"
    and "d1 = d\<lparr>dh_next := Suc a, dh_heap := (dh_heap d)(a \<mapsto> new_node p (take len name) n)\<rparr>" "de_count e \<noteq> 0"
  shows "decache_insert (Some p) name len n d = do {
     d2 \<leftarrow> (if de_count e = DCACHE_MAX_CHILDREN then evict_step p e d1 else Some d1);
     d3 \<leftarrow> push_step p a d2;
     Some (Some a, d3)
   }"
  using assms
  by (simp add: decache_insert_def de_calloc_def de_upd_def de_get_def new_node_def evict_step_def push_step_def
      not_le [symmetric] cong: bind_weak_cong)
    (simp add: bind_assoc push_step_def evict_step_def)

lemma push_ok:
  assumes r: "rep h par pv nx (DNode p nm i ts)" and ts: "ts \<noteq> []" "length ts < 20" and h: "dh_heap d = h"
    and dis: "distinct (addrs (DNode p nm i ts))" and a: "h a = Some (new_node p nm' n)" "a \<notin> set (addrs (DNode p nm i ts))"
  shows "\<exists>d'. push_step p a d = Some d' \<and> dh_next d' = dh_next d \<and> dh_root d' = dh_root d \<and>
    rep (dh_heap d') par pv nx (DNode p nm i (DNode a nm' n [] # ts)) \<and> dom (dh_heap d') = dom h \<and>
    (\<forall>x. x \<notin> set (addrs (DNode p nm i ts)) \<and> x \<noteq> a \<longrightarrow> dh_heap d' x = h x)"
proof -
  obtain t us where tus: "ts = t # us" using ts(1) by (cases ts) auto
  obtain e where e: "h p = Some e" "de_childs e = Some (dt_root t)" "de_count e = word_of_nat (length ts)"
    using r by (simp add: tus)
  have rt: "rep h (Some p) None (link us None) t" "reps h p (Some (dt_root t)) None us" using r by (simp_all add: tus)
  obtain te where te: "h (dt_root t) = Some te" using rep_heap [OF rt(1)] by blast
  have ne: "a \<noteq> p" "a \<noteq> dt_root t" "p \<noteq> dt_root t" "p \<notin> set (addrs t)" "a \<notin> set (addrs t)"
    using a(2) dis root_in_addrs [of t] by (auto simp: tus)
  define g where "g = h(a \<mapsto> (new_node p nm' n)\<lparr>de_next := Some (dt_root t)\<rparr>, dt_root t \<mapsto> te\<lparr>de_prev := Some a\<rparr>,
    p \<mapsto> e\<lparr>de_childs := Some a, de_count := de_count e + 1\<rparr>)"
  have st: "push_step p a d = Some (d\<lparr>dh_heap := g\<rparr>)"
    using h e te a(1) ne by (simp add: push_step_def de_get_def de_upd_def g_def new_node_def fun_upd_twist)
  have "rep g (Some p) (Some a) (link us None) t"
    by (rule rep_frame(1) [OF rep_relink(1) [OF rt(1) _ te]]) (use dis ne in \<open>auto simp: tus g_def\<close>)
  moreover have "reps g p (Some (dt_root t)) None us"
    by (rule rep_frame(2) [OF rt(2)]) (use dis a(2) root_in_addrs [of t] in \<open>auto simp: tus g_def\<close>)
  ultimately have "rep g par pv nx (DNode p nm i (DNode a nm' n [] # ts))"
    using r e(1) ts(2) ne by (simp add: tus g_def new_node_def)
  moreover have "dom g = dom h" using e(1) te a(1) by (auto simp: g_def)
  moreover have "\<forall>x. x \<notin> set (addrs (DNode p nm i ts)) \<and> x \<noteq> a \<longrightarrow> g x = h x"
    using root_in_addrs [of t] by (auto simp: g_def tus)
  ultimately show ?thesis using st by (intro exI [of _ "d\<lparr>dh_heap := g\<rparr>"]) simp
qed

lemma evict_last_ok:
  assumes r: "rep h par pv nx (DNode p nm i (us @ [l]))" and us: "us \<noteq> []" and h: "dh_heap d = h"
    and dis: "distinct (addrs (DNode p nm i (us @ [l])))" and e: "h p = Some e"
  shows "\<exists>d'. evict_step p e d = Some d' \<and> dh_next d' = dh_next d \<and> dh_root d' = dh_root d \<and>
    rep (dh_heap d') par pv nx (DNode p nm i us) \<and> dom (dh_heap d') = dom h - set (addrs l) \<and>
    (\<forall>x. x \<notin> set (addrs (DNode p nm i (us @ [l]))) \<longrightarrow> dh_heap d' x = h x)"
proof -
  obtain vs v where uv: "us = vs @ [v]" using us by (cases us rule: rev_cases) auto
  have e': "de_last_child e = Some (dt_root l)" "de_count e = word_of_nat (length us) + 1"
    using r e by (simp_all add: add.commute)
  have r': "reps h p None (Some (dt_root v)) vs" "rep h (Some p) (link_last vs None) (Some (dt_root l)) v"
    "rep h (Some p) (Some (dt_root v)) None l" using r by (simp_all add: uv reps_append)
  obtain le where le: "h (dt_root l) = Some le" "de_prev le = Some (dt_root v)" using rep_heap [OF r'(3)] by blast
  obtain ve where ve: "h (dt_root v) = Some ve" using rep_heap [OF r'(2)] by blast
  have ne: "p \<noteq> dt_root v" "p \<noteq> dt_root l" "dt_root v \<noteq> dt_root l" "dt_root v \<notin> set (addrs l)" "p \<notin> set (addrs l)"
    "p \<notin> set (addrs v)" "\<forall>u\<in>set vs. p \<notin> set (addrs u) \<and> dt_root v \<notin> set (addrs u)"
    "\<forall>u\<in>set us. set (addrs u) \<inter> set (addrs l) = {}"
    using dis root_in_addrs [of l] root_in_addrs [of v] by (auto simp: uv)
  define g where "g = h(dt_root v \<mapsto> ve\<lparr>de_next := None\<rparr>,
    p \<mapsto> e\<lparr>de_last_child := Some (dt_root v), de_count := word_of_nat (length us)\<rparr>)"
  have "decache_free (dt_root l) (d\<lparr>dh_heap := g\<rparr>) = Some (d\<lparr>dh_heap := g |` (- set (addrs l))\<rparr>)"
    by (subst free_reps(1) [OF r'(3)]) (use dis ne in \<open>auto simp: g_def\<close>)
  then have st: "evict_step p e d = Some (d\<lparr>dh_heap := g |` (- set (addrs l))\<rparr>)"
    using h e e' le ve ne by (simp add: evict_step_def de_get_def de_upd_def g_def)
  have "rep (g |` (- set (addrs l))) (Some p) (link_last vs None) None v"
    by (rule rep_frame(1) [OF rep_relink(2) [OF r'(2) _ ve]]) (use dis ne in \<open>auto simp: uv g_def restrict_map_def\<close>)
  moreover have "reps (g |` (- set (addrs l))) p None (Some (dt_root v)) vs"
    by (rule rep_frame(2) [OF r'(1)]) (use ne in \<open>auto simp: uv g_def restrict_map_def\<close>)
  moreover have "link (us @ [l]) None = link us None" using us by (cases us) simp_all
  ultimately have "rep (g |` (- set (addrs l))) par pv nx (DNode p nm i us)"
    using r e ne by (simp add: uv reps_append g_def)
  moreover have "dom (g |` (- set (addrs l))) = dom h - set (addrs l)" using e ve by (auto simp: g_def)
  moreover have "\<forall>x. x \<notin> set (addrs (DNode p nm i (us @ [l]))) \<longrightarrow> (g |` (- set (addrs l))) x = h x"
    using root_in_addrs [of v] by (auto simp: g_def uv)
  ultimately show ?thesis using st by (intro exI [of _ "d\<lparr>dh_heap := g |` (- set (addrs l))\<rparr>"]) simp
qed

fun add_kid :: "dtree \<Rightarrow> dtree \<Rightarrow> dtree" where
  "add_kid c (DNode a nm i ts) = DNode a nm i (c # take 19 ts)"

lemma insert_node:
  assumes r: "rep (dh_heap d) par pv nx (DNode p nm i ts)" and dis: "distinct (addrs (DNode p nm i ts))"
    and a: "a = dh_next d" "a \<notin> dom (dh_heap d)" and len: "len + 1 \<le> DCACHE_ENTRY_NAME_LEN"
  shows "\<exists>d'. decache_insert (Some p) name len n d = Some (Some a, d') \<and> dh_next d' = Suc a \<and> dh_root d' = dh_root d \<and>
    rep (dh_heap d') par pv nx (add_kid (DNode a (take len name) n []) (DNode p nm i ts)) \<and>
    dom (dh_heap d') = insert a (dom (dh_heap d)) - set (concat (map addrs (drop 19 ts))) \<and>
    (\<forall>x. x \<notin> set (addrs (DNode p nm i ts)) \<and> x \<noteq> a \<longrightarrow> dh_heap d' x = dh_heap d x)"
proof -
  define h where "h = (dh_heap d)(a \<mapsto> new_node p (take len name) n)"
  define d1 where "d1 = d\<lparr>dh_next := Suc a, dh_heap := h\<rparr>"
  obtain e where e: "dh_heap d p = Some e" "de_count e = word_of_nat (length ts)" and l20: "length ts \<le> 20" using r by auto
  have fresh: "a \<notin> set (addrs (DNode p nm i ts))" using rep_dom(1) [OF r] a(2) by blast
  then have ap: "p \<noteq> a" by auto
  have rh: "rep h par pv nx (DNode p nm i ts)" by (rule rep_frame(1) [OF r]) (use fresh in \<open>auto simp: h_def\<close>)
  have dom_h: "dom h = insert a (dom (dh_heap d))" and out: "\<And>x. x \<noteq> a \<Longrightarrow> h x = dh_heap d x" by (auto simp: h_def)
  have ha: "h a = Some (new_node p (take len name) n)" and hp: "h p = Some e" using ap e by (simp_all add: h_def)
  note steps = decache_insert_steps [OF len a(1) e(1) ap d1_def [unfolded h_def]]
  have cnt: "de_count e = word_of_nat k \<longleftrightarrow> length ts = k" if "k \<le> 20" for k
    using count_nat [OF l20] that unfolding e(2) by (metis count_nat length_replicate)
  consider "ts = []" | "ts \<noteq> []" "length ts < 20" | "length ts = 20" using l20 by linarith
  then show ?thesis
  proof cases
    case 1
    then show ?thesis
      using r e len a(1) ap fresh by (simp add: decache_insert_def de_calloc_def de_upd_def de_get_def) auto
  next
    case 2
    have "decache_insert (Some p) name len n d = (push_step p a d1 \<bind> (\<lambda>d3. Some (Some a, d3)))"
      using steps cnt [of 0] cnt [of 20] 2 by (simp add: DCACHE_MAX_CHILDREN_def)
    moreover obtain d' where "push_step p a d1 = Some d'" "dh_next d' = dh_next d1" "dh_root d' = dh_root d1"
      "rep (dh_heap d') par pv nx (DNode p nm i (DNode a (take len name) n [] # ts))" "dom (dh_heap d') = dom h"
      "\<forall>x. x \<notin> set (addrs (DNode p nm i ts)) \<and> x \<noteq> a \<longrightarrow> dh_heap d' x = h x"
      using push_ok [OF rh 2 _ dis ha fresh, of d1] by (auto simp: d1_def)
    ultimately show ?thesis using 2 dom_h out by (simp add: d1_def)
  next
    case 3
    obtain us l where ul: "ts = us @ [l]" "us \<noteq> []" "length us = 19"
    proof (cases ts rule: rev_cases)
      case (snoc ys y)
      moreover from snoc have "length ys = 19" using 3 by simp
      moreover from this have "ys \<noteq> []" by auto
      ultimately show thesis using that by blast
    qed (use 3 in simp)
    obtain d2 where d2: "evict_step p e d1 = Some d2" "dh_next d2 = dh_next d1" "dh_root d2 = dh_root d1"
      "rep (dh_heap d2) par pv nx (DNode p nm i us)" "dom (dh_heap d2) = dom h - set (addrs l)"
      "\<forall>x. x \<notin> set (addrs (DNode p nm i ts)) \<longrightarrow> dh_heap d2 x = h x"
      using evict_last_ok [OF rh [unfolded ul(1)] ul(2) _ dis [unfolded ul(1)] hp, of d1] by (auto simp: d1_def ul(1))
    have fresh': "a \<notin> set (addrs (DNode p nm i us))" "distinct (addrs (DNode p nm i us))" using fresh dis by (auto simp: ul)
    have ha2: "dh_heap d2 a = Some (new_node p (take len name) n)" using d2(6) fresh ha by simp
    obtain d' where d': "push_step p a d2 = Some d'" "dh_next d' = dh_next d2" "dh_root d' = dh_root d2"
      "rep (dh_heap d') par pv nx (DNode p nm i (DNode a (take len name) n [] # us))" "dom (dh_heap d') = dom (dh_heap d2)"
      "\<forall>x. x \<notin> set (addrs (DNode p nm i us)) \<and> x \<noteq> a \<longrightarrow> dh_heap d' x = dh_heap d2 x"
      using push_ok [OF d2(4) ul(2) _ refl fresh'(2) ha2 fresh'(1)] ul(3) by auto
    have "decache_insert (Some p) name len n d = Some (Some a, d')"
      using steps cnt [of 0] cnt [of 20] 3 d2(1) d'(1) by (simp add: DCACHE_MAX_CHILDREN_def)
    moreover have "drop 19 ts = [l]" "take 19 ts = us" using ul by simp_all
    moreover have "\<forall>x. x \<notin> set (addrs (DNode p nm i ts)) \<and> x \<noteq> a \<longrightarrow> dh_heap d' x = dh_heap d x"
      using d'(6) d2(6) out by (auto simp: ul(1))
    ultimately show ?thesis using d' d2 dom_h by (simp add: d1_def)
  qed
qed

lemma add_kid_addrs:
  "length ts \<le> 20 \<Longrightarrow> mset (addrs (add_kid (DNode a nm' n []) (DNode p nm i ts))) + mset (concat (map addrs (drop 19 ts))) =
     add_mset a (mset (addrs (DNode p nm i ts)))"
proof -
  have "mset (concat (map addrs (take 19 ts))) + mset (concat (map addrs (drop 19 ts))) = mset (concat (map addrs ts))"
    by (metis append_take_drop_id concat_append map_append mset_append)
  then show ?thesis by (simp add: union_assoc)
qed

text \<open>C5: \<open>decache_insert\<close> refines insertion into the tree.  On a heap that represents a tree of path
  components, inserting a name below a cached directory returns the fresh node; the heap then
  represents the tree with the name in front of its siblings, without the last of twenty of them, whose whole
  subtree has been freed; nothing leaks, and a walk for the name finds the new node.\<close>

theorem decache_insert_refines:
  assumes ok: "decache_ok d t" and p: "p \<in> set (addrs t)"
    and nm: "name_ok (take len name)" "len \<le> length name" "0 \<notin> set name"
  shows "\<exists>d'. decache_insert (Some p) name len n d = Some (Some (dh_next d), d') \<and>
    decache_ok d' (at p (add_kid (DNode (dh_next d) (take len name) n [])) t) \<and>
    decache_walk (Some p) name len d' = Some (Some (dh_next d))"
proof -
  define a where "a = dh_next d"
  define c where "c = DNode a (take len name) n []"
  have len: "len + 1 \<le> DCACHE_ENTRY_NAME_LEN" "len \<le> 254"
    using nm by (auto simp: name_ok_def DCACHE_ENTRY_NAME_LEN_def NAME_MAX_def)
  have okD: "rep (dh_heap d) None None None t" "dt_root t = dh_root d" "distinct (addrs t)"
      "dom (dh_heap d) = set (addrs t)" "\<forall>x\<in>set (addrs t). x < a" "names_ok t"
    using ok by (auto simp: decache_ok_def a_def)
  obtain par pv nx s R where f: "focus (dh_heap d) None None None t p par pv nx s R"
    using focus_exists [OF okD(1,3) p] by blast
  obtain nm' i ts where s: "s = DNode p nm' i ts" using f by (cases s) (auto simp: focus_def)
  have sr: "rep (dh_heap d) par pv nx s" "mset (addrs t) = mset (addrs s) + R" "names_ok s" and l20: "length ts \<le> 20"
    using f okD(6) by (auto simp: focus_def s)
  have dis: "distinct (addrs s)" and R: "\<And>x. x \<in># R \<Longrightarrow> x \<notin> set (addrs s) \<and> x \<noteq> a"
  proof -
    obtain rs where rs: "mset rs = R" using ex_mset by blast
    then have "distinct (addrs s @ rs)" "set (addrs t) = set (addrs s @ rs)"
      using okD(3) sr(2) mset_eq_imp_distinct_iff [of "addrs t" "addrs s @ rs"] mset_eq_setD [of "addrs t" "addrs s @ rs"] by auto
    then show "distinct (addrs s)" "\<And>x. x \<in># R \<Longrightarrow> x \<notin> set (addrs s) \<and> x \<noteq> a" using rs okD(5) by fastforce+
  qed
  have fresh: "a \<notin> dom (dh_heap d)" using okD(4,5) by blast
  obtain d' where d': "decache_insert (Some p) name len n d = Some (Some a, d')" "dh_next d' = Suc a" "dh_root d' = dh_root d"
    "rep (dh_heap d') par pv nx (add_kid c s)" "dom (dh_heap d') = insert a (dom (dh_heap d)) - set (concat (map addrs (drop 19 ts)))"
    "\<forall>x. x \<notin> set (addrs s) \<and> x \<noteq> a \<longrightarrow> dh_heap d' x = dh_heap d x"
    using insert_node [OF sr(1) [unfolded s] dis [unfolded s] a_def fresh len(1), of name n] unfolding s c_def by blast
  have names: "names_ok (add_kid c s)" using sr(3) nm(1) by (auto simp: s c_def dest: in_set_takeD)
  have "dt_root (add_kid c s) = p \<and> dt_name (add_kid c s) = dt_name s" by (simp add: s)
  note fs = f [unfolded focus_def, THEN conjunct2, THEN conjunct2, THEN conjunct2, THEN conjunct2, THEN spec, of "add_kid c", THEN mp, OF this]
  have m: "mset (addrs (at p (add_kid c) t) @ concat (map addrs (drop 19 ts))) = mset (a # addrs t)"
    using fs add_kid_addrs [OF l20, of a "take len name" n p nm' i] sr(2) by (simp add: s c_def union_ac)
  have "distinct (a # addrs t)" using okD(3,4) fresh by simp
  then have "distinct (addrs (at p (add_kid c) t) @ concat (map addrs (drop 19 ts)))"
    "set (addrs (at p (add_kid c) t) @ concat (map addrs (drop 19 ts))) = set (a # addrs t)"
    using mset_eq_imp_distinct_iff [OF m] mset_eq_setD [OF m] by simp_all
  then have "distinct (addrs (at p (add_kid c) t))" "dom (dh_heap d') = set (addrs (at p (add_kid c) t))"
    "\<forall>x\<in>set (addrs (at p (add_kid c) t)). x < Suc a"
    using d'(5) okD(4,5) by (auto simp: less_Suc_eq)
  moreover have "rep (dh_heap d') None None None (at p (add_kid c) t)" using fs d'(4,6) R by blast
  ultimately have "decache_ok d' (at p (add_kid c) t)"
    using fs d'(2,3) okD(2,6) names by (simp add: decache_ok_def)
  moreover have "decache_walk (Some p) name len d' = Some (Some a)"
    using decache_walk_node [OF d'(4) names nm(2) len(2) nm(3), of "Some p"] by (simp add: s c_def kid_def)
  ultimately show ?thesis using d'(1) unfolding a_def c_def by blast
qed


section \<open>Deleting\<close>

lemma name_token:
  assumes "name_ok nm"
  shows "skip_trailing_backslash (SLASH # nm) = nm" "get_path_token_len nm = length nm"
proof -
  have "takeWhile (\<lambda>c. c \<noteq> SLASH) nm = nm" using assms by (auto simp: name_ok_def takeWhile_eq_all_conv)
  then show "get_path_token_len nm = length nm" unfolding get_path_token_len_def by (rule arg_cong)
  show "skip_trailing_backslash (SLASH # nm) = nm"
    using assms by (cases nm) (auto simp: name_ok_def skip_trailing_backslash_def)
qed


section \<open>A small cache\<close>

definition sample_dtree :: dtree where
  "sample_dtree = DNode 0 [SLASH] 2 [DNode 3 (str ''c'') 13 [], DNode 2 (str ''b'') 12 [], DNode 1 (str ''a'') 11 []]"

definition sample_decache :: decache_t where
  "sample_decache = \<lparr>dh_heap = [
     0 \<mapsto> \<lparr>de_parent = None, de_childs = Some 3, de_last_child = Some 1, de_prev = None, de_next = None,
           de_inode_idx = 2, de_count = 3, de_name = [SLASH]\<rparr>,
     1 \<mapsto> \<lparr>de_parent = Some 0, de_childs = None, de_last_child = None, de_prev = Some 2, de_next = None,
           de_inode_idx = 11, de_count = 0, de_name = str ''a''\<rparr>,
     2 \<mapsto> \<lparr>de_parent = Some 0, de_childs = None, de_last_child = None, de_prev = Some 3, de_next = Some 1,
           de_inode_idx = 12, de_count = 0, de_name = str ''b''\<rparr>,
     3 \<mapsto> \<lparr>de_parent = Some 0, de_childs = None, de_last_child = None, de_prev = None, de_next = Some 2,
           de_inode_idx = 13, de_count = 0, de_name = str ''c''\<rparr>],
     dh_next = 4, dh_root = 0\<rparr>"

lemma sample_decache_ok: "decache_ok sample_decache sample_dtree"
  unfolding decache_ok_def
proof (intro conjI)
  show "rep (dh_heap sample_decache) None None None sample_dtree"
    by (simp add: sample_decache_def sample_dtree_def)
  show "dom (dh_heap sample_decache) = set (addrs sample_dtree)"
    by (auto simp: sample_decache_def sample_dtree_def)
  show "names_ok sample_dtree"
    by (simp add: sample_dtree_def name_ok_def str_def SLASH_def DCACHE_ENTRY_NAME_LEN_def NAME_MAX_def)
qed (simp_all add: sample_decache_def sample_dtree_def)

theorem decache_insert_refines_witness:
  "\<exists>d'. decache_insert (Some 1) (str ''d/e'') 1 14 sample_decache = Some (Some 4, d') \<and>
    decache_ok d' (at 1 (add_kid (DNode 4 (str ''d'') 14 [])) sample_dtree) \<and>
    decache_walk (Some 1) (str ''d/e'') 1 d' = Some (Some 4)"
  using decache_insert_refines [OF sample_decache_ok, of 1 1 "str ''d/e''" 14]
  by (simp add: sample_dtree_def sample_decache_def name_ok_def str_def SLASH_def DCACHE_ENTRY_NAME_LEN_def NAME_MAX_def)



end
