(* ===== verification/Spec2Isabelle.thy ===== *)
theory Spec2Isabelle
  imports Bitmap_Alloc Block_Map Ctl Hashtable Vhost_Client Xattr_Map Host_Inodes Decache_Tree
begin

text \<open>
  \<^bold>\<open>kfs: an ext4-style file system in user space.\<close> The process mounts an image file and serves
  FUSE requests on it. Requests (\<open>src/op_*.c\<close>) resolve paths (\<open>src/inode.c\<close>) through a cache of
  path components (decache), a cache of inodes (icache) and a buffer for one directory block
  (dcache, all in \<open>src/cache.c\<close>); directory entries are edited in that buffer
  (\<open>src/dentry.c\<close>), file offsets are mapped to blocks by extents (\<open>src/extents.c\<close>) or
  indirect blocks, and blocks and inodes are allocated in bitmaps (\<open>src/bitmap.c\<close>). All of them
  reach the image through \<open>src/disk.c\<close>. \<open>mkfs/main.c\<close> formats an image.

  \<^bold>\<open>How the C code is represented.\<close> A C function is an Isabelle function in the option monad
  with the state passed explicitly: \<open>None\<close> is a failed \<open>ASSERT\<close>, an access outside an array or
  buffer, a null dereference, a division by zero or a loop that does not end. An error code
  \<open>-ENOENT\<close> is \<open>Inl ENOENT\<close>. Integers are words of their width. The globals are one record
  (\<open>Kfs_State\<close>); pointers into arrays are indices. On-disk structures are records with an
  encoding to bytes. The clock and the FUSE context are the record \<open>env\<close> passed to a request.

  \<^bold>\<open>Besides the file system\<close> the repository has a control service inside the process
  (\<open>src/ctl.c\<close>), a hash table (\<open>include/hashtable\<close>), a vhost-user transport
  (\<open>include/vhost-user\<close>) and a virtiofs daemon in Rust (\<open>kfsd\<close>). In the models of Rust code
  \<open>None\<close> is a panic.

  \<^bold>\<open>The base.\<close>
  \<^item> \<open>Kfs_Prelude\<close>: integers, partial C operations, byte buffers, little-endian values, strings.
  \<^item> \<open>Disk\<close>: \<open>src/disk.c\<close> over the system calls on a regular file; frame lemmas for writes.
  \<^item> \<open>Codec\<close>: the locale of a fixed-size encoding, interpreted for every on-disk structure in
    \<open>Ext4_Super\<close> (\<open>src/ext4/ext4_super.h\<close>, \<open>src/ext4/ext4.h\<close>) and \<open>Ext4_Inode\<close>
    (\<open>src/ext4/ext4_inode.h\<close>, \<open>ext4_extents.h\<close>, \<open>ext4_dentry.h\<close>).
  \<^item> \<open>Kfs_State\<close>: the globals of the process. \<open>Sample\<close>: a small concrete state on which theorems are
    instantiated.

  \<^bold>\<open>The file system.\<close>
  \<^item> \<open>Bitmap\<close>: the operations of \<open>src/bitmap.c\<close>. \<open>Bitmap_Alloc\<close>: the locale of an allocator
    over block groups, interpreted for inodes and four-block clusters; outside the case in which the
    search leaves the array it returns a free unit or reports that all are used, setting changes one bit,
    two allocations differ.
  \<^item> \<open>Extents\<close>: \<open>src/extents.c\<close>; trees of extents as a datatype, a relation between the bytes of the
    image and trees, and lookup as a function on natural numbers. \<open>Block_Map\<close>: the first half of
    \<open>src/inode.c\<close>; the ext2 block map equals its arithmetic description, and the slots of inodes are
    disjoint.
  \<^item> \<open>Icache\<close>: the inode cache and the directory block buffer of \<open>src/cache.c\<close>; the locale of an
    inode store, whose contents are a function from inode numbers, interpreted for cache and disk together.
  \<^item> \<open>Decache\<close>: the cache of path components as a heap of linked nodes. \<open>Decache_Tree\<close>: the tree that a heap
    represents; finding and inserting refine operations on the tree, deleting breaks the links.
  \<^item> \<open>Dentry\<close>: \<open>src/dentry.c\<close>. \<open>Dir_Block\<close>: a block as a list of entries, and the locale of a directory
    as a finite map, interpreted for the block buffer.
  \<^item> \<open>Inode\<close>: the second half of \<open>src/inode.c\<close>: path lookup, permissions
    against the classical rule on the octal digits of the mode, creation.
  \<^item> \<open>Ops_Meta\<close>, \<open>Ops_Dir\<close>, \<open>Ops_File\<close>: the FUSE operations on attributes, directories and data; what
    is written is read back, and a change of attributes changes just these fields of just this inode.
  \<^item> \<open>Mount\<close>: \<open>src/op_init.c\<close>, \<open>src/op_destory.c\<close>. \<open>Mkfs\<close>: \<open>mkfs/main.c\<close>. \<open>Ctl\<close>: the handlers of
    \<open>src/ctl.c\<close>, with zlib and time formatting as parameters. These three and \<open>Ops_Dir\<close> hold definitions only.

  \<^bold>\<open>The other parts.\<close>
  \<^item> \<open>Hashtable\<close>: the chained table over an arbitrary hash function; the locale of a dictionary,
    interpreted for it, resizing included.
  \<^item> \<open>Vring\<close>: \<open>include/vhost-user/vring.c\<close>; a ring as the queue of its waiting packets and the list of
    its free descriptors, and the locale of a packet handler. \<open>Fd_List\<close>: the lists of descriptors.
    \<open>Vhost_Server\<close> and \<open>Vhost_Client\<close>: the two ends, each an instance of the handler; a poll delivers all
    waiting packets, and the server ends up with the rings the client announced.
  \<^item> \<open>Xattr_Map\<close>: the translation of attribute names in \<open>kfsd\<close>; parsing inverts printing, and a \<open>map\<close>
    rule gives the guest its own names back.
  \<^item> \<open>Host_Inodes\<close>: the store of host inodes in \<open>kfsd\<close> as a step relation over its operations; on
    every reachable store the operations return, except that cloning a reference panics exactly when its
    count is zero, and dropping references keeps exact counts exact.

  \<^bold>\<open>Loops.\<close> No definition uses fuel. A loop that may run forever is a partial function into an option
  type, and the theorems state that it returns: \<open>extent_get_pblock\<close> on trees of bounded depth,
  \<open>dentry_next\<close> and \<open>dentry_find\<close> on well-formed blocks, \<open>search_groups\<close> over the groups,
  \<open>walk_childs\<close> and \<open>free_childs\<close> on represented trees, the loops of rings on queues, and
  \<open>forget_one\<close> on every well-formed store. \<open>used_loop\<close> is shown to run forever where the code does.

  \<^bold>\<open>Not modelled.\<close>
  \<^item> Logging (\<open>src/logging.c\<close>) is output; only \<open>ASSERT\<close> has an effect on control.
  \<^item> The control thread, mutexes and \<open>fuse_main\<close>: requests are taken one at a time.
  \<^item> \<open>kfsctl\<close> sends one request and prints the answer with a vendored terminal library.
  \<^item> \<open>include/libvhost-user\<close> is a vendored library that the file system does not link.
  \<^item> Of \<open>include/vhost-user\<close>: shared memory objects, statistics, signals and the teardown
    functions, which are sequences of system calls.
  \<^item> The rest of \<open>kfsd\<close> decodes requests and hands them to system calls of the host.
  \<^item> Failing allocations, except in the hash table, where the result of each one is a parameter.
  \<^item> Checksums, which the code leaves at zero, and file contents behind a failed system call.
\<close>

end
